(* ===== verification/Prelude.thy ===== *)
theory Prelude
  imports Main "HOL-Library.Word"
begin

unbundle bit_operations_syntax

text \<open>
  Shared vocabulary of the development: machine integers, the ways in which the C++ code can
  fail, sequencing of fallible steps, bounded reads of arrays, and little-endian copies of
  integers into byte buffers (the \<^theory_text>\<open>memcpy\<close> of an integer on the x86 targets of the code).
\<close>

type_synonym byte = "8 word"
type_synonym u16 = "16 word"
type_synonym u32 = "32 word"
type_synonym u64 = "64 word"

section \<open>Failures of the code\<close>

text \<open>
  \<open>OutOfBounds\<close> stands for a read or write outside the object (undefined behaviour in C++),
  \<open>ThrownPointer\<close> for \<^theory_text>\<open>throw new std::runtime_error(..)\<close>, which no
  \<^theory_text>\<open>catch (std::runtime_error e)\<close> handler catches, \<open>ThrownText\<close> for the
  \<^theory_text>\<open>throw "..."\<close> statements of the older parts of the code, and \<open>ThrownString\<close> for those that throw a
  \<^theory_text>\<open>std::string\<close>, which the handler of \<open>main\<close> for \<^theory_text>\<open>const char *\<close> does not catch. \<open>AssertionFailed\<close>
  is the end of the process in \<open>assert\<close>, \<open>ForeignUnlock\<close> the release of a mutex that another thread holds.
\<close>

datatype fault =
    OutOfBounds
  | NullDeref
  | UseAfterFree
  | InvalidArgument
  | OutOfRange
  | RuntimeError string
  | ThrownPointer string
  | ThrownText string
  | ThrownString string
  | AssertionFailed
  | ForeignUnlock

type_synonym 'a res = "fault + 'a"

definition bind_res :: "'a res \<Rightarrow> ('a \<Rightarrow> 'b res) \<Rightarrow> 'b res" where
  "bind_res m f = (case m of Inl e \<Rightarrow> Inl e | Inr x \<Rightarrow> f x)"

lemma bind_res_simps [simp]:
  "bind_res (Inl e) f = Inl e"
  "bind_res (Inr x) f = f x"
  by (simp_all add: bind_res_def)

lemma bind_res_eq_Inr [simp]:
  "bind_res m f = Inr y \<longleftrightarrow> (\<exists>x. m = Inr x \<and> f x = Inr y)"
  by (cases m) auto

lemma bind_res_eq_Inl:
  "bind_res m f = Inl e \<longleftrightarrow> m = Inl e \<or> (\<exists>x. m = Inr x \<and> f x = Inl e)"
  by (cases m) auto

lemma case_option_eq_Inr:
  "(case v of None \<Rightarrow> Inl e | Some x \<Rightarrow> f x) = Inr y \<longleftrightarrow> (\<exists>x. v = Some x \<and> f x = Inr y)"
  by (cases v) auto

lemma bind_res_assoc: "bind_res (bind_res m f) g = bind_res m (\<lambda>x. bind_res (f x) g)"
  by (cases m) auto

lemma bind_res_cong [fundef_cong]:
  "m = m' \<Longrightarrow> (\<And>x. m' = Inr x \<Longrightarrow> f x = g x) \<Longrightarrow> bind_res m f = bind_res m' g"
  by (cases m') auto

section \<open>Bounded access to arrays\<close>

definition at :: "'a list \<Rightarrow> nat \<Rightarrow> 'a res" where
  "at xs i = (if i < length xs then Inr (xs ! i) else Inl OutOfBounds)"

definition cut :: "'a list \<Rightarrow> nat \<Rightarrow> nat \<Rightarrow> 'a list res" where
  "cut xs off len = (if off + len \<le> length xs then Inr (take len (drop off xs)) else Inl OutOfBounds)"

lemma at_append1 [simp]: "i < length xs \<Longrightarrow> at (xs @ ys) i = Inr (xs ! i)"
  by (simp add: at_def nth_append)

lemma at_append2: "at (xs @ ys) (length xs + i) = at ys i"
  by (simp add: at_def nth_append)

lemma at_middle: "i = length xs \<Longrightarrow> at (xs @ y # ys) i = Inr y"
  by (simp add: at_def)

lemma at_past [simp]: "length xs \<le> i \<Longrightarrow> at xs i = Inl OutOfBounds"
  by (simp add: at_def)

lemma at_Inr_iff: "at xs i = Inr x \<longleftrightarrow> i < length xs \<and> xs ! i = x"
  by (auto simp: at_def)

lemma cut_middle:
  "off = length xs \<Longrightarrow> len = length ys \<Longrightarrow> cut (xs @ ys @ zs) off len = Inr ys"
  by (simp add: cut_def)

lemma cut_front: "len = length ys \<Longrightarrow> cut (ys @ zs) 0 len = Inr ys"
  by (simp add: cut_def)

lemma cut_length: "cut xs off len = Inr ys \<Longrightarrow> length ys = len"
  by (auto simp: cut_def split: if_splits)

section \<open>Words and naturals\<close>

lemma unat_of_nat_u8 [simp]: "n < 256 \<Longrightarrow> unat (word_of_nat n :: byte) = n"
  by (simp add: unat_of_nat)

lemma unat_of_nat_u16: "n < 2 ^ 16 \<Longrightarrow> unat (word_of_nat n :: u16) = n"
  by (simp add: unat_of_nat)

lemma unat_of_nat_u32: "n < 2 ^ 32 \<Longrightarrow> unat (word_of_nat n :: u32) = n"
  by (simp add: unat_of_nat)

lemma unat_of_nat_u64: "n < 2 ^ 64 \<Longrightarrow> unat (word_of_nat n :: u64) = n"
  by (simp add: unat_of_nat)

section \<open>Little-endian integers in byte buffers\<close>

text \<open>
  \<open>le_enc n v\<close> is the memory image of the unsigned integer \<open>v\<close> in \<open>n\<close> bytes, and
  \<open>le_dec\<close> reads such an image back.
\<close>

fun le_enc :: "nat \<Rightarrow> nat \<Rightarrow> byte list" where
  "le_enc 0 v = []"
| "le_enc (Suc n) v = word_of_nat v # le_enc n (v div 256)"

fun le_dec :: "byte list \<Rightarrow> nat" where
  "le_dec [] = 0"
| "le_dec (b # bs) = unat b + 256 * le_dec bs"

lemma length_le_enc [simp]: "length (le_enc n v) = n"
  by (induction n arbitrary: v) auto

lemma unat_byte_of_nat: "unat (word_of_nat v :: byte) = v mod 256"
  by (simp add: unat_of_nat)

lemma le_dec_enc: "v < 256 ^ n \<Longrightarrow> le_dec (le_enc n v) = v"
proof (induction n arbitrary: v)
  case 0
  then show ?case by simp
next
  case (Suc n)
  then have "v div 256 < 256 ^ n"
    by (simp add: less_mult_imp_div_less mult.commute)
  with Suc.IH show ?case by (simp add: unat_byte_of_nat)
qed

lemma le_dec_less: "le_dec bs < 256 ^ length bs"
proof (induction bs)
  case (Cons b bs)
  have "unat b < 256" using unsigned_less [of b] by simp
  with Cons show ?case by simp
qed simp

lemma le_enc_dec: "le_enc (length bs) (le_dec bs) = bs"
proof (induction bs)
  case (Cons b bs)
  have "unat b < 256" using unsigned_less [of b] by simp
  then have "(unat b + 256 * le_dec bs) div 256 = le_dec bs" by simp
  moreover have "word_of_nat (unat b + 256 * le_dec bs) = b"
    by (rule word_unat_eq_iff [THEN iffD2])
      (use \<open>unat b < 256\<close> in \<open>simp only: unat_byte_of_nat mod_mult_self2 mod_less\<close>)
  ultimately show ?case using Cons by simp
qed simp

lemma le_dec_enc_u16 [simp]: "le_dec (le_enc 2 (unat (w :: u16))) = unat w"
  using unsigned_less [of w] by (intro le_dec_enc) simp

lemma le_dec_enc_u32 [simp]: "le_dec (le_enc 4 (unat (w :: u32))) = unat w"
  using unsigned_less [of w] by (intro le_dec_enc) simp

lemma le_dec_enc_u64 [simp]: "le_dec (le_enc 8 (unat (w :: u64))) = unat w"
  using unsigned_less [of w] by (intro le_dec_enc) simp

section \<open>Lists of a fixed length\<close>

lemma length_Suc_conv_ex: "length xs = Suc n \<longleftrightarrow> (\<exists>y ys. xs = y # ys \<and> length ys = n)"
  by (rule length_Suc_conv)

lemma take_drop_append_id: "n \<le> length xs \<Longrightarrow> take n xs @ drop n xs = xs"
  by simp

lemma foldl_invariant:
  assumes "P s" and "\<And>s x. P s \<Longrightarrow> x \<in> set xs \<Longrightarrow> P (f s x)"
  shows "P (foldl f s xs)"
  using assms by (induction xs arbitrary: s) auto

end
