(* ===== verification/CStrings.thy ===== *)
theory CStrings
  imports Prelude "HOL-Library.Signed_Division"
begin

text \<open>
  The character-level parts of the C and C++ standard library that the code calls on its own
  data: \<open>std::to_string\<close>, \<open>std::stoi\<close>, \<open>std::stoul\<close>, \<open>std::string::find\<close>, the \<open>%02x\<close> conversion,
  \<open>isgraph\<close>, \<open>isalnum\<close>, and the signed value of a plain \<open>char\<close>. The narrowing conversions to
  \<open>int16_t\<close> and \<open>int32_t\<close> keep the low bits with sign, as every compiler the code targets does.
\<close>

section \<open>Characters\<close>

definition code :: "char \<Rightarrow> nat" where
  "code c = of_char c"

definition schar :: "char \<Rightarrow> int" where
  "schar c = signed_take_bit 7 (of_char c)"

definition is_digit :: "char \<Rightarrow> bool" where
  "is_digit c \<longleftrightarrow> 48 \<le> code c \<and> code c \<le> 57"

definition is_space :: "char \<Rightarrow> bool" where
  "is_space c \<longleftrightarrow> code c = 32 \<or> (9 \<le> code c \<and> code c \<le> 13)"

definition is_alpha :: "char \<Rightarrow> bool" where
  "is_alpha c \<longleftrightarrow> (65 \<le> code c \<and> code c \<le> 90) \<or> (97 \<le> code c \<and> code c \<le> 122)"

definition is_alnum :: "char \<Rightarrow> bool" where
  "is_alnum c \<longleftrightarrow> is_alpha c \<or> is_digit c"

definition is_graph :: "char \<Rightarrow> bool" where
  "is_graph c \<longleftrightarrow> 33 \<le> code c \<and> code c \<le> 126"

definition digit_char :: "nat \<Rightarrow> char" where
  "digit_char d = char_of (48 + d)"

lemma digit_char_table [simp]:
  "digit_char 0 = CHR ''0''" "digit_char 1 = CHR ''1''" "digit_char 2 = CHR ''2''"
  "digit_char 3 = CHR ''3''" "digit_char 4 = CHR ''4''" "digit_char 5 = CHR ''5''"
  "digit_char 6 = CHR ''6''" "digit_char 7 = CHR ''7''" "digit_char 8 = CHR ''8''"
  "digit_char 9 = CHR ''9''"
  by code_simp+

lemma digit_char_Suc [simp]:
  "digit_char (Suc 0) = CHR ''1''" "digit_char (Suc (Suc 0)) = CHR ''2''"
  "digit_char (Suc (Suc (Suc 0))) = CHR ''3''"
  by code_simp+

lemma code_digit_char [simp]: "d < 10 \<Longrightarrow> code (digit_char d) = 48 + d"
  by (simp add: code_def digit_char_def)

lemma is_digit_digit_char [simp]: "d < 10 \<Longrightarrow> is_digit (digit_char d)"
  by (simp add: is_digit_def)

lemma digit_not_space: "is_digit c \<Longrightarrow> \<not> is_space c"
  by (auto simp: is_digit_def is_space_def)

lemma code_eqD: "code c = code d \<Longrightarrow> c = d"
  by (simp add: code_def)

lemma schar_code: "code c < 128 \<Longrightarrow> schar c = int (code c)"
proof -
  assume lt: "code c < 128"
  have "(of_char c :: int) = int (code c)" by (simp add: code_def of_nat_of_char)
  with lt show ?thesis
    unfolding schar_def by (subst signed_take_bit_int_eq_self) auto
qed

lemma digit_char_neq:
  "is_digit c \<Longrightarrow> c \<noteq> CHR ''-'' \<and> c \<noteq> CHR ''+'' \<and> c \<noteq> CHR '' '' \<and> c \<noteq> CHR 0x0D
     \<and> c \<noteq> CHR 0x0A \<and> c \<noteq> CHR ''.''  \<and> c \<noteq> CHR 0x22 \<and> c \<noteq> CHR ''M''"
  by (auto simp: is_digit_def code_def)

text \<open>What a C function sees of a string: everything before the first NUL.\<close>

definition c_str :: "string \<Rightarrow> string" where
  "c_str s = takeWhile (\<lambda>c. c \<noteq> CHR 0x00) s"

section \<open>Decimal numbers\<close>

fun show_nat :: "nat \<Rightarrow> string" where
  "show_nat n = (if n < 10 then [digit_char n] else show_nat (n div 10) @ [digit_char (n mod 10)])"

declare show_nat.simps [simp del]

definition show_int :: "int \<Rightarrow> string" where
  "show_int i = (if i < 0 then CHR ''-'' # show_nat (nat (- i)) else show_nat (nat i))"

fun digits_val :: "nat \<Rightarrow> string \<Rightarrow> nat" where
  "digits_val acc [] = acc"
| "digits_val acc (c # cs) = (if is_digit c then digits_val (10 * acc + (code c - 48)) cs else acc)"

text \<open>\<open>strtol\<close> and \<open>strtoul\<close>: white space, an optional sign, then the longest run of digits.\<close>

definition strto :: "string \<Rightarrow> (bool \<times> nat) option" where
  "strto s = (let t = dropWhile is_space s;
                  neg = (t \<noteq> [] \<and> hd t = CHR ''-'');
                  u = (if t \<noteq> [] \<and> (hd t = CHR ''-'' \<or> hd t = CHR ''+'') then tl t else t)
              in if u \<noteq> [] \<and> is_digit (hd u) then Some (neg, digits_val 0 u) else None)"

definition stoi :: "string \<Rightarrow> int res" where
  "stoi s = (case strto s of
       None \<Rightarrow> Inl InvalidArgument
     | Some (neg, v) \<Rightarrow>
         let i = (if neg then - int v else int v)
         in if - (2 ^ 31) \<le> i \<and> i < 2 ^ 31 then Inr i else Inl OutOfRange)"

definition stoul :: "string \<Rightarrow> u64 res" where
  "stoul s = (case strto s of
       None \<Rightarrow> Inl InvalidArgument
     | Some (neg, v) \<Rightarrow>
         if 2 ^ 64 \<le> v then Inl OutOfRange
         else Inr (if neg then - word_of_nat v else word_of_nat v))"

definition to_int16 :: "int \<Rightarrow> int" where
  "to_int16 i = signed_take_bit 15 i"

definition to_int32 :: "int \<Rightarrow> int" where
  "to_int32 i = signed_take_bit 31 i"

text \<open>\<open>>>\<close> of a stream into an \<open>int\<close>: 0 when there is no number, the nearest bound when it does not fit.\<close>

definition extract_int :: "string \<Rightarrow> int" where
  "extract_int s = (case strto s of None \<Rightarrow> 0
     | Some (neg, v) \<Rightarrow> max (- (2 ^ 31)) (min (2 ^ 31 - 1) (if neg then - int v else int v)))"

lemma show_nat_nonempty [simp]: "show_nat n \<noteq> []"
  by (subst show_nat.simps) simp

lemma show_nat_digits: "\<forall>c \<in> set (show_nat n). is_digit c"
proof (induction n rule: show_nat.induct)
  case (1 n)
  then show ?case by (subst show_nat.simps) auto
qed

lemma digits_val_append:
  "\<forall>c \<in> set xs. is_digit c \<Longrightarrow> digits_val acc (xs @ ys) = digits_val (digits_val acc xs) ys"
  by (induction xs arbitrary: acc) auto

lemma digits_val_show: "digits_val 0 (show_nat n) = n"
proof (induction n rule: show_nat.induct)
  case (1 n)
  show ?case
  proof (cases "n < 10")
    case True
    then show ?thesis by (subst show_nat.simps) simp
  next
    case False
    have "\<forall>c \<in> set (show_nat (n div 10)). is_digit c"
      by (rule show_nat_digits)
    with False 1 show ?thesis
      by (subst show_nat.simps) (simp add: digits_val_append)
  qed
qed

lemma length_show_nat: "n < 10 ^ Suc k \<Longrightarrow> length (show_nat n) \<le> Suc k"
proof (induction k arbitrary: n)
  case (Suc k)
  then have "n div 10 < 10 ^ Suc k" by (simp add: less_mult_imp_div_less mult.commute)
  from Suc.IH [OF this] show ?case by (subst show_nat.simps) simp
qed (simp add: show_nat.simps)

lemma hd_show_nat: "is_digit (hd (show_nat n))"
  using show_nat_digits [of n] by (cases "show_nat n") auto

lemma strto_show_nat: "strto (show_nat n) = Some (False, n)"
proof -
  have hd: "is_digit (hd (show_nat n))" by (rule hd_show_nat)
  then have "dropWhile is_space (show_nat n) = show_nat n"
    by (cases "show_nat n") (auto dest: digit_not_space)
  with hd show ?thesis
    using digit_char_neq [OF hd] by (simp add: strto_def Let_def digits_val_show)
qed

lemma strto_show_neg: "strto (CHR ''-'' # show_nat n) = Some (True, n)"
  by (simp add: strto_def Let_def is_space_def code_def digits_val_show hd_show_nat)

lemma stoi_show_int:
  assumes "- (2 ^ 31) \<le> i" and "i < 2 ^ 31"
  shows "stoi (show_int i) = Inr i"
  using assms by (auto simp: stoi_def show_int_def strto_show_nat strto_show_neg Let_def nat_less_iff)

lemma stoi_show_nat: "n < 2 ^ 31 \<Longrightarrow> stoi (show_nat n) = Inr (int n)"
  by (simp add: stoi_def strto_show_nat Let_def)

lemma stoul_show_nat: "n < 2 ^ 64 \<Longrightarrow> stoul (show_nat n) = Inr (word_of_nat n)"
  by (simp add: stoul_def strto_show_nat)

lemma show_int_chars: "c \<in> set (show_int i) \<Longrightarrow> is_digit c \<or> c = CHR ''-''"
  using show_nat_digits by (auto simp: show_int_def split: if_splits)

lemma show_int_nonempty [simp]: "show_int i \<noteq> []"
  by (simp add: show_int_def)

lemma show_int_avoids:
  "CHR '' '' \<notin> set (show_int i)" "CHR 0x0D \<notin> set (show_int i)" "CHR 0x22 \<notin> set (show_int i)"
  by (auto dest!: show_int_chars digit_char_neq)

lemma to_int16_id: "- (2 ^ 15) \<le> i \<Longrightarrow> i < 2 ^ 15 \<Longrightarrow> to_int16 i = i"
  by (simp add: to_int16_def signed_take_bit_int_eq_self)

lemma to_int32_id: "- (2 ^ 31) \<le> i \<Longrightarrow> i < 2 ^ 31 \<Longrightarrow> to_int32 i = i"
  by (simp add: to_int32_def signed_take_bit_int_eq_self)

lemma to_int16_range: "- (2 ^ 15) \<le> to_int16 i \<and> to_int16 i < 2 ^ 15"
  using signed_take_bit_int_greater_eq_minus_exp [of 15 i] signed_take_bit_int_less_exp [of 15 i]
  by (simp add: to_int16_def)

section \<open>Hexadecimal bytes\<close>

definition hex_digit :: "nat \<Rightarrow> char" where
  "hex_digit n = (if n < 10 then char_of (48 + n) else char_of (87 + n))"

definition hex2 :: "byte \<Rightarrow> string" where
  "hex2 b = [hex_digit (unat b div 16), hex_digit (unat b mod 16)]"

lemma length_hex2 [simp]: "length (hex2 b) = 2"
  by (simp add: hex2_def)

section \<open>Searching\<close>

text \<open>\<open>find_from needle hay i\<close> is \<open>hay.find(needle, i)\<close>; \<open>None\<close> is \<open>npos\<close>.\<close>

function find_from :: "'a list \<Rightarrow> 'a list \<Rightarrow> nat \<Rightarrow> nat option" where
  "find_from needle hay i =
     (if length hay < i + length needle then None
      else if take (length needle) (drop i hay) = needle then Some i
      else find_from needle hay (Suc i))"
  by pat_completeness auto
termination
  by (relation "measure (\<lambda>(needle, hay, i). Suc (length hay) - i)") auto

declare find_from.simps [simp del]

lemma find_from_SomeD:
  "find_from needle hay i = Some k \<Longrightarrow>
     i \<le> k \<and> k + length needle \<le> length hay \<and> take (length needle) (drop k hay) = needle"
proof (induction needle hay i rule: find_from.induct)
  case (1 needle hay i)
  show ?case
  proof (cases "length hay < i + length needle \<or> take (length needle) (drop i hay) = needle")
    case True
    with "1.prems" show ?thesis
      by (auto simp: find_from.simps [of needle hay i] split: if_splits)
  next
    case False
    with "1.prems" have "find_from needle hay (Suc i) = Some k"
      by (simp add: find_from.simps [of needle hay i])
    with False "1.IH" have "Suc i \<le> k \<and> k + length needle \<le> length hay
        \<and> take (length needle) (drop k hay) = needle" by blast
    then show ?thesis by simp
  qed
qed

end
