(* ===== verification/Message.thy ===== *)
theory Message
  imports CStrings
begin

text \<open>
  The message object of the text protocol: \<^theory_text>\<open>src/src/communicate/option.cpp\<close> and
  \<^theory_text>\<open>src/src/communicate/message.cpp\<close>, with the data members declared in
  \<^theory_text>\<open>src/include/communicate/message.h\<close>. An \<open>Option\<close> owns two shared strings; a message is
  never copied by the factory or the parser, so a pair of strings per option is its state.
  The date that the constructor formats with \<open>strftime\<close> is a parameter.
\<close>

section \<open>Options\<close>

record opt =
  opt_key :: string
  opt_val :: string

definition mk_option :: "string \<Rightarrow> string \<Rightarrow> opt" where
  "mk_option k v = \<lparr>opt_key = k, opt_val = v\<rparr>"

definition update_value :: "string \<Rightarrow> opt \<Rightarrow> opt" where
  "update_value v op = op\<lparr>opt_val := v\<rparr>"

section \<open>Messages\<close>

record message =
  tid :: int
  version :: int
  mtype :: int
  options :: "opt list"
  data :: "char list"

definition MSG_VERSION :: int where "MSG_VERSION = 0"

definition msg_head :: string where "msg_head = ''MSG''"

definition msg_tail :: string where "msg_tail = ''GSM''"

definition blank_message :: message where
  "blank_message = \<lparr>tid = -1, version = MSG_VERSION, mtype = 0, options = [], data = []\<rparr>"

fun add_option :: "string \<Rightarrow> string \<Rightarrow> opt list \<Rightarrow> opt list" where
  "add_option k v [] = [mk_option k v]"
| "add_option k v (op # ops) =
     (if opt_key op = k then update_value v op # ops else op # add_option k v ops)"

definition addOption :: "string \<Rightarrow> string \<Rightarrow> message \<Rightarrow> message" where
  "addOption k v m = m\<lparr>options := add_option k v (options m)\<rparr>"

fun get_value :: "opt list \<Rightarrow> string \<Rightarrow> string res" where
  "get_value [] k = Inl (ThrownPointer ''key not found'')"
| "get_value (op # ops) k = (if opt_key op = k then Inr (opt_val op) else get_value ops k)"

definition getValue :: "message \<Rightarrow> string \<Rightarrow> string res" where
  "getValue m k = get_value (options m) k"

definition pushData :: "char list \<Rightarrow> message \<Rightarrow> message" where
  "pushData buf m =
     (let m' = m\<lparr>data := data m @ buf\<rparr>
      in addOption ''size'' (show_nat (length (data m'))) m')"

definition clear :: "message \<Rightarrow> message" where
  "clear m = m\<lparr>data := [], options := [], tid := 0, mtype := 1\<rparr>"

definition setHead :: "int \<Rightarrow> int \<Rightarrow> message \<Rightarrow> message" where
  "setHead t ty m = m\<lparr>tid := t, mtype := ty\<rparr>"

definition new_message :: "string \<Rightarrow> message" where
  "new_message date = addOption ''date'' date blank_message"

section \<open>Options as a keyed store\<close>

text \<open>
  What the clients of the option list rely on: a value can be read back after it was stored,
  storing one key leaves the others alone, and the keys stay distinct.
\<close>

locale keyed_store =
  fixes put :: "'k \<Rightarrow> 'v \<Rightarrow> 's \<Rightarrow> 's"
    and get :: "'s \<Rightarrow> 'k \<Rightarrow> 'v option"
    and inv :: "'s \<Rightarrow> bool"
  assumes get_put_same: "get (put k v s) k = Some v"
    and get_put_other: "k \<noteq> k' \<Longrightarrow> get (put k v s) k' = get s k'"
    and inv_put: "inv s \<Longrightarrow> inv (put k v s)"
begin

lemma get_put: "get (put k v s) k' = (if k = k' then Some v else get s k')"
  by (simp add: get_put_same get_put_other)

lemma get_put_twice: "get (put k v (put k w s)) = get (put k v s)"
  by (rule ext) (simp add: get_put)

lemma get_put_commute: "k \<noteq> k' \<Longrightarrow> get (put k v (put k' w s)) = get (put k' w (put k v s))"
  by (rule ext) (auto simp: get_put)

lemma get_foldl_put:
  "get (foldl (\<lambda>s (k, v). put k v s) s kvs) k' =
     (case map_of (rev kvs) k' of None \<Rightarrow> get s k' | Some v \<Rightarrow> Some v)"
  by (induction kvs arbitrary: s) (auto simp: get_put map_add_def split: option.splits)

lemma inv_foldl_put: "inv s \<Longrightarrow> inv (foldl (\<lambda>s (k, v). put k v s) s kvs)"
  by (induction kvs arbitrary: s) (auto simp: inv_put)

end

definition lookup_option :: "message \<Rightarrow> string \<Rightarrow> string option" where
  "lookup_option m k = map_option opt_val (find (\<lambda>op. opt_key op = k) (options m))"

definition distinct_keys :: "message \<Rightarrow> bool" where
  "distinct_keys m \<longleftrightarrow> distinct (map opt_key (options m))"

lemma get_value_find:
  "get_value ops k = (case find (\<lambda>op. opt_key op = k) ops of
     None \<Rightarrow> Inl (ThrownPointer ''key not found'') | Some op \<Rightarrow> Inr (opt_val op))"
  by (induction ops) auto

lemma getValue_lookup:
  "getValue m k = (case lookup_option m k of
     None \<Rightarrow> Inl (ThrownPointer ''key not found'') | Some v \<Rightarrow> Inr v)"
  by (simp add: getValue_def lookup_option_def get_value_find split: option.splits)

lemma keys_add_option:
  "opt_key ` set (add_option k v ops) = insert k (opt_key ` set ops)"
  by (induction ops) (auto simp: mk_option_def update_value_def)

lemma distinct_add_option:
  "distinct (map opt_key ops) \<Longrightarrow> distinct (map opt_key (add_option k v ops))"
proof (induction ops)
  case (Cons op ops)
  then show ?case
    using keys_add_option [of k v ops] by (auto simp: update_value_def)
qed (simp add: mk_option_def)

lemma find_add_option_same:
  "map_option opt_val (find (\<lambda>op. opt_key op = k) (add_option k v ops)) = Some v"
  by (induction ops) (auto simp: mk_option_def update_value_def)

lemma find_add_option_other:
  "k \<noteq> k' \<Longrightarrow> find (\<lambda>op. opt_key op = k') (add_option k v ops) = find (\<lambda>op. opt_key op = k') ops"
  by (induction ops) (auto simp: mk_option_def update_value_def)

interpretation msg_opts: keyed_store addOption lookup_option distinct_keys
  by unfold_locales
    (auto simp: addOption_def lookup_option_def distinct_keys_def find_add_option_same
      find_add_option_other distinct_add_option)

lemma add_option_new: "k \<notin> opt_key ` set ops \<Longrightarrow> add_option k v ops = ops @ [mk_option k v]"
  by (induction ops) auto

lemma add_option_idem: "get_value ops k = Inr v \<Longrightarrow> add_option k v ops = ops"
  by (induction ops) (auto simp: update_value_def split: if_splits)

lemma opt_eta [simp]: "mk_option (opt_key op) (opt_val op) = op"
  by (simp add: mk_option_def)

lemma blank_message_sel [simp]:
  "tid blank_message = -1" "version blank_message = MSG_VERSION" "mtype blank_message = 0"
  "options blank_message = []" "data blank_message = []"
  by (simp_all add: blank_message_def)

lemma addOption_frame [simp]:
  "tid (addOption k v m) = tid m" "version (addOption k v m) = version m"
  "mtype (addOption k v m) = mtype m" "data (addOption k v m) = data m"
  by (simp_all add: addOption_def)

lemma getValue_addOption_same [simp]: "getValue (addOption k v m) k = Inr v"
  by (simp add: getValue_lookup msg_opts.get_put)

lemma getValue_addOption_other [simp]: "k \<noteq> k' \<Longrightarrow> getValue (addOption k v m) k' = getValue m k'"
  by (simp add: getValue_lookup msg_opts.get_put)

lemma getValue_data [simp]: "getValue (m\<lparr>data := d\<rparr>) k = getValue m k"
  by (simp add: getValue_def)

text \<open>
  A value stored in a message is the one read back, storing a key does not disturb any other key,
  and the keys of a message stay pairwise distinct.
\<close>

theorem addOption_store:
  "getValue (addOption k v m) k' = (if k' = k then Inr v else getValue m k')
   \<and> (distinct_keys m \<longrightarrow> distinct_keys (addOption k v m))"
  using msg_opts.inv_put by auto

theorem addOption_store_witness:
  "getValue (addOption ''a'' ''1'' (new_message ''d'')) ''date'' = Inr ''d''
   \<and> distinct_keys (addOption ''a'' ''1'' (new_message ''d''))"
proof -
  have d: "distinct_keys (new_message ''d'')"
    by (simp add: distinct_keys_def new_message_def addOption_def blank_message_def mk_option_def)
  have g: "getValue (new_message ''d'') ''date'' = Inr ''d''"
    by (simp add: new_message_def)
  show ?thesis
    using addOption_store [of "''a''" "''1''" "new_message ''d''" "''date''"] d g by simp
qed

text \<open>
  \<open>pushData\<close> appends the bytes, and the \<open>size\<close> option of the message is then the decimal length of
  its whole data; head fields and the other options are untouched.
\<close>

theorem pushData_size:
  "data (pushData buf m) = data m @ buf
   \<and> getValue (pushData buf m) ''size'' = Inr (show_nat (length (data m) + length buf))
   \<and> tid (pushData buf m) = tid m \<and> mtype (pushData buf m) = mtype m
   \<and> (k \<noteq> ''size'' \<longrightarrow> getValue (pushData buf m) k = getValue m k)"
  by (simp add: pushData_def Let_def)

theorem pushData_size_witness:
  "''date'' \<noteq> ''size'' \<and>
   getValue (pushData ''abc'' (new_message ''d'')) ''date'' = getValue (new_message ''d'') ''date''"
  using pushData_size [of "''abc''" "new_message ''d''" "''date''"] by simp

end
