(* ===== verification/MessageFactory.thy ===== *)
theory MessageFactory
  imports Message
begin

text \<open>
  The wire format of a message: \<^theory_text>\<open>src/src/communicate/message_factory.cpp\<close>. Every
  \<open>raw_data[index++]\<close> is a bounded read, so a decoder that runs past its buffer yields
  \<open>Inl OutOfBounds\<close>. A decoder returns the message it has built so far and \<open>None\<close> for the
  return value \<open>-1\<close> or \<open>Some\<close> the index behind the part it consumed; an exception is \<open>Inl\<close>.
  The SHA-256 generator is the parameter \<open>sha\<close>.
\<close>

section \<open>Encoding\<close>

definition CRLF :: string where "CRLF = [CHR 0x0D, CHR 0x0A]"

definition encode_head :: "message \<Rightarrow> string \<Rightarrow> string" where
  "encode_head m raw =
     raw @ msg_head @ '' '' @ show_int (version m) @ '' '' @ show_int (mtype m) @ '' ''
         @ show_int (tid m) @ CRLF"

definition encode_option :: "opt \<Rightarrow> string" where
  "encode_option op = [CHR 0x22] @ opt_key op @ [CHR 0x22] @ '':'' @ [CHR 0x22] @ opt_val op
      @ [CHR 0x22] @ CRLF"

text \<open>
  \<open>sum_hash\<close> is an \<open>int16_t\<close>: the sum and the remainder are computed in \<open>int\<close> and stored back with
  wrap-around; \<open>smod\<close> is the truncating C remainder. The loop stops after the byte at \<open>end_index\<close>.
\<close>

fun hash_loop :: "int \<Rightarrow> int \<Rightarrow> int \<Rightarrow> string \<Rightarrow> int" where
  "hash_loop end_index index sum_hash [] = sum_hash"
| "hash_loop end_index index sum_hash (c # cs) =
     (let sum1 = to_int16 (sum_hash + schar c);
          sum2 = to_int16 (sum1 smod 65535)
      in if end_index \<le> index then sum2 else hash_loop end_index (index + 1) sum2 cs)"

definition calculate_options_hash :: "string \<Rightarrow> int \<Rightarrow> int res" where
  "calculate_options_hash raw end_index =
     (if end_index < 0 \<or> int (length raw) < end_index then Inl (RuntimeError ''end index out of range'')
      else Inr (hash_loop end_index 0 0 raw))"

definition encode_options :: "message \<Rightarrow> string \<Rightarrow> string res" where
  "encode_options m raw =
     (let raw1 = raw @ concat (map encode_option (options m))
      in bind_res (calculate_options_hash raw1 (to_int32 (int (length raw1) - 1))) (\<lambda>sum_hash.
           Inr (raw1 @ show_int sum_hash @ CRLF @ CRLF)))"

definition encode_body :: "message \<Rightarrow> string \<Rightarrow> string" where
  "encode_body m raw = raw @ data m @ CRLF"

definition encode_tail :: "message \<Rightarrow> string \<Rightarrow> string" where
  "encode_tail m raw = raw @ msg_tail"

definition encodeMessage :: "(string \<Rightarrow> string) \<Rightarrow> message \<Rightarrow> string \<Rightarrow> (message \<times> string) res" where
  "encodeMessage sha m raw =
     (let m' = addOption ''sign'' (sha (data m)) m
      in bind_res (encode_options m' (encode_head m' raw)) (\<lambda>raw2.
           Inr (m', encode_tail m' (encode_body m' raw2))))"

section \<open>Decoding\<close>

text \<open>\<open>while ((c = raw_data[index++]) != d) s.push_back(c);\<close>\<close>

function scan_until :: "char \<Rightarrow> string \<Rightarrow> nat \<Rightarrow> string \<Rightarrow> (string \<times> nat) res" where
  "scan_until d raw i acc =
     (if i < length raw then
        (if raw ! i = d then Inr (acc, Suc i) else scan_until d raw (Suc i) (acc @ [raw ! i]))
      else Inl OutOfBounds)"
  by pat_completeness auto
termination
  by (relation "measure (\<lambda>(d, raw, i, acc). length raw - i)") auto

declare scan_until.simps [simp del]

text \<open>\<open>if (raw_data[index++] != c) return -1;\<close>, for a run of such tests.\<close>

fun expect :: "string \<Rightarrow> string \<Rightarrow> nat \<Rightarrow> nat option res" where
  "expect [] raw i = Inr (Some i)"
| "expect (c # cs) raw i =
     bind_res (at raw i) (\<lambda>x. if x \<noteq> c then Inr None else expect cs raw (Suc i))"

definition decode_head :: "string \<Rightarrow> message \<Rightarrow> (message \<times> nat option) res" where
  "decode_head raw m =
     bind_res (expect (msg_head @ '' '') raw 0) (\<lambda>r. case r of None \<Rightarrow> Inr (m, None) | Some i \<Rightarrow>
     bind_res (scan_until (CHR '' '') raw i []) (\<lambda>(s_version, i).
     bind_res (stoi s_version) (\<lambda>v.
     if to_int16 v \<noteq> MSG_VERSION then Inr (m, None) else
     bind_res (scan_until (CHR '' '') raw i []) (\<lambda>(s_type, i).
     bind_res (stoi s_type) (\<lambda>ty.
     bind_res (scan_until (CHR 0x0D) raw i []) (\<lambda>(s_tid, i).
     bind_res (stoi s_tid) (\<lambda>t.
     bind_res (expect [CHR 0x0A] raw i) (\<lambda>r. case r of None \<Rightarrow> Inr (m, None) | Some i \<Rightarrow>
     Inr (setHead t (to_int16 ty) m, Some i)))))))))"

text \<open>
  One option line, from behind its opening quote: the key, the separators, the value and the line
  end. \<open>None\<close> is \<open>return -1\<close>.
\<close>

definition decode_option_line :: "string \<Rightarrow> nat \<Rightarrow> (string \<times> string \<times> nat) option res" where
  "decode_option_line raw i =
     bind_res (scan_until (CHR 0x22) raw i []) (\<lambda>(key, i).
     bind_res (expect [CHR '':'', CHR 0x22] raw i) (\<lambda>r. case r of None \<Rightarrow> Inr None | Some i \<Rightarrow>
     bind_res (scan_until (CHR 0x22) raw i []) (\<lambda>(val, i).
     bind_res (expect CRLF raw i) (\<lambda>r. case r of None \<Rightarrow> Inr None | Some i \<Rightarrow>
     Inr (Some (key, val, i))))))"

lemma scan_until_bounds:
  "scan_until d raw i acc = Inr (s, j) \<Longrightarrow> i < j \<and> j \<le> length raw"
proof (induction d raw i acc rule: scan_until.induct)
  case (1 d raw i acc)
  show ?case
  proof (cases "i < length raw \<and> raw ! i \<noteq> d")
    case True
    with "1.prems" have "scan_until d raw (Suc i) (acc @ [raw ! i]) = Inr (s, j)"
      by (simp add: scan_until.simps [of d raw i acc])
    with True "1.IH" have "Suc i < j \<and> j \<le> length raw" by blast
    then show ?thesis by simp
  next
    case False
    with "1.prems" show ?thesis
      by (auto simp: scan_until.simps [of d raw i acc] split: if_splits)
  qed
qed

lemma expect_bounds: "expect cs raw i = Inr (Some j) \<Longrightarrow> j = i + length cs \<and> (cs \<noteq> [] \<longrightarrow> j \<le> length raw)"
proof (induction cs arbitrary: i)
  case (Cons c cs)
  from Cons.prems have at: "i < length raw" and e: "expect cs raw (Suc i) = Inr (Some j)"
    by (auto simp: at_Inr_iff split: if_splits)
  from Cons.IH [OF e] at show ?case by (cases cs) (use e in auto)
qed auto

lemma decode_option_line_bounds:
  "decode_option_line raw i = Inr (Some (k, v, j)) \<Longrightarrow> i < j \<and> j \<le> length raw"
proof -
  assume "decode_option_line raw i = Inr (Some (k, v, j))"
  then obtain i1 i2 i3 where
      1: "scan_until (CHR 0x22) raw i [] = Inr (k, i1)"
    and 2: "expect [CHR '':'', CHR 0x22] raw i1 = Inr (Some i2)"
    and 3: "scan_until (CHR 0x22) raw i2 [] = Inr (v, i3)"
    and 4: "expect CRLF raw i3 = Inr (Some j)"
    by (auto simp: decode_option_line_def simp del: expect.simps split: option.splits)
  show ?thesis
    using scan_until_bounds [OF 1] expect_bounds [OF 2] scan_until_bounds [OF 3] expect_bounds [OF 4]
    by (simp add: CRLF_def)
qed

function decode_option_lines :: "string \<Rightarrow> nat \<Rightarrow> message \<Rightarrow> (message \<times> nat option) res" where
  "decode_option_lines raw i m =
     bind_res (at raw i) (\<lambda>c.
     if c \<noteq> CHR 0x22 then Inr (m, Some (Suc i)) else
     bind_res (decode_option_line raw (Suc i)) (\<lambda>r. case r of None \<Rightarrow> Inr (m, None)
       | Some (key, val, j) \<Rightarrow> decode_option_lines raw j (addOption (c_str key) (c_str val) m)))"
  by pat_completeness auto
termination
  by (relation "measure (\<lambda>(raw, i, m). length raw - i)")
    (auto simp: at_Inr_iff dest!: decode_option_line_bounds)

declare decode_option_lines.simps [simp del]

definition decode_options :: "string \<Rightarrow> nat \<Rightarrow> message \<Rightarrow> (message \<times> nat option) res" where
  "decode_options raw offset m =
     bind_res (decode_option_lines raw offset m) (\<lambda>(m, r). case r of None \<Rightarrow> Inr (m, None)
     | Some index \<Rightarrow>
       let sum_hash_range = to_int32 (int index - 2) in
       bind_res (scan_until (CHR 0x0D) raw (index - 1) []) (\<lambda>(sum_hash_str, i).
       bind_res (expect [CHR 0x0A] raw i) (\<lambda>r. case r of None \<Rightarrow> Inr (m, None) | Some i \<Rightarrow>
       bind_res (stoi sum_hash_str) (\<lambda>sum_hash.
       bind_res (calculate_options_hash raw sum_hash_range) (\<lambda>sum_hash_check.
       if sum_hash_check \<noteq> to_int16 sum_hash then Inr (m, None) else
       bind_res (expect CRLF raw i) (\<lambda>r. Inr (m, r)))))))"

text \<open>
  \<open>pushData\<close> copies \<open>size\<close> bytes starting at \<open>&raw_data[index]\<close>; a negative size becomes a huge
  \<open>size_t\<close>. The \<open>catch (std::runtime_error e)\<close> around \<open>getValue\<close> does not catch the thrown pointer.
\<close>

definition decode_body :: "string \<Rightarrow> nat \<Rightarrow> message \<Rightarrow> (message \<times> nat option) res" where
  "decode_body raw offset m =
     bind_res (getValue m ''size'') (\<lambda>s_size.
     bind_res (stoi s_size) (\<lambda>size.
     bind_res (if size < 0 then Inl OutOfBounds else cut raw offset (nat size)) (\<lambda>bytes.
     let m' = pushData bytes m in
     bind_res (expect CRLF raw (offset + nat size)) (\<lambda>r. Inr (m', r)))))"

definition decode_tail :: "string \<Rightarrow> nat \<Rightarrow> message \<Rightarrow> (message \<times> nat option) res" where
  "decode_tail raw offset m = bind_res (expect msg_tail raw offset) (\<lambda>r. Inr (m, r))"

definition decodeMessage :: "string \<Rightarrow> message \<Rightarrow> (message \<times> bool) res" where
  "decodeMessage raw m =
     bind_res (decode_head raw (clear m)) (\<lambda>(m, r). case r of None \<Rightarrow> Inr (m, False) | Some i \<Rightarrow>
     bind_res (decode_options raw i m) (\<lambda>(m, r). case r of None \<Rightarrow> Inr (m, False) | Some i \<Rightarrow>
     bind_res (decode_body raw i m) (\<lambda>(m, r). case r of None \<Rightarrow> Inr (m, False) | Some i \<Rightarrow>
     bind_res (decode_tail raw i m) (\<lambda>(m, r). Inr (m, r \<noteq> None)))))"

definition checkMessageSign :: "(string \<Rightarrow> string) \<Rightarrow> message \<Rightarrow> bool res" where
  "checkMessageSign sha m = bind_res (getValue m ''sign'') (\<lambda>sign. Inr (sha (data m) = sign))"

definition decodeMessageHead :: "string \<Rightarrow> message \<Rightarrow> (message \<times> bool) res" where
  "decodeMessageHead raw m = bind_res (decode_head raw m) (\<lambda>(m, r). Inr (m, r \<noteq> None))"

definition decodeMessageOption :: "string \<Rightarrow> message \<Rightarrow> (message \<times> bool) res" where
  "decodeMessageOption raw m = bind_res (decode_options raw 0 m) (\<lambda>(m, r). Inr (m, r \<noteq> None))"

definition decodeMessageBody :: "string \<Rightarrow> message \<Rightarrow> (message \<times> bool) res" where
  "decodeMessageBody raw m = bind_res (decode_body raw 0 m) (\<lambda>(m, r). Inr (m, r \<noteq> None))"

definition decodeMessageTail :: "string \<Rightarrow> message \<Rightarrow> (message \<times> bool) res" where
  "decodeMessageTail raw m = bind_res (decode_tail raw 0 m) (\<lambda>(m, r). Inr (m, r \<noteq> None))"

section \<open>Scanning\<close>

lemma scan_until_found:
  assumes "d \<notin> set s" and "i = length pre"
  shows "scan_until d (pre @ s @ d # post) i acc = Inr (acc @ s, i + length s + 1)"
  using assms
proof (induction s arbitrary: pre i acc)
  case Nil
  then show ?case by (subst scan_until.simps) simp
next
  case (Cons x s)
  have "scan_until d ((pre @ [x]) @ s @ d # post) (Suc i) (acc @ [x])
      = Inr ((acc @ [x]) @ s, Suc i + length s + 1)"
    using Cons.prems by (intro Cons.IH) auto
  with Cons.prems show ?case by (subst scan_until.simps) auto
qed

lemma scan_until_runs_off:
  assumes "d \<notin> set (drop i raw)"
  shows "scan_until d raw i acc = Inl OutOfBounds"
  using assms
proof (induction d raw i acc rule: scan_until.induct)
  case (1 d raw i acc)
  show ?case
  proof (cases "i < length raw")
    case True
    then have "drop i raw = raw ! i # drop (Suc i) raw" by (rule Cons_nth_drop_Suc [symmetric])
    with "1.prems" True "1.IH" show ?thesis by (subst scan_until.simps) auto
  next
    case False
    then show ?thesis by (subst scan_until.simps) simp
  qed
qed

lemma expect_found: "i = length pre \<Longrightarrow> expect cs (pre @ cs @ post) i = Inr (Some (i + length cs))"
proof (induction cs arbitrary: pre i)
  case (Cons c cs)
  have "expect cs ((pre @ [c]) @ cs @ post) (Suc i) = Inr (Some (Suc i + length cs))"
    using Cons.prems by (intro Cons.IH) simp
  with Cons.prems show ?case by (simp add: at_middle)
qed simp

declare expect.simps [simp del]

lemmas scan_simps = scan_until_found [where acc = "[]", simplified]

section \<open>The option hash\<close>

lemma smod_65535: "- (2 ^ 15) \<le> x \<Longrightarrow> x < 2 ^ 15 \<Longrightarrow> x smod 65535 = (x::int)"
  by (simp add: smod_int_alt_def mult.commute [of "sgn x"] abs_mult_sgn)

lemma to_int16_smod: "to_int16 (to_int16 x smod 65535) = to_int16 x"
proof -
  have "to_int16 x smod 65535 = to_int16 x"
    using to_int16_range [of x] by (intro smod_65535) auto
  then show ?thesis using to_int16_range [of x] by (simp add: to_int16_id)
qed

lemma to_int16_add: "to_int16 (to_int16 x + y) = to_int16 (x + y)"
proof -
  have idem: "signed_take_bit 15 (signed_take_bit 15 x) = signed_take_bit 15 x"
    using to_int16_id to_int16_range by (simp add: to_int16_def)
  have "to_int16 (to_int16 x + y) = signed_take_bit 15 (signed_take_bit 15 (signed_take_bit 15 x) + signed_take_bit 15 y)"
    by (simp only: to_int16_def signed_take_bit_add)
  also have "\<dots> = to_int16 (x + y)"
    by (simp only: idem to_int16_def signed_take_bit_add)
  finally show ?thesis .
qed

lemma hash_loop_sum:
  assumes "index \<le> end_index"
  shows "hash_loop end_index index (to_int16 s) cs =
    to_int16 (s + sum_list (map schar (take (Suc (nat (end_index - index))) cs)))"
  using assms
proof (induction cs arbitrary: index s)
  case Nil
  then show ?case by simp
next
  case (Cons c cs)
  show ?case
  proof (cases "end_index \<le> index")
    case True
    with Cons.prems show ?thesis by (simp add: Let_def to_int16_smod to_int16_add)
  next
    case False
    then have "nat (end_index - index) = Suc (nat (end_index - (index + 1)))" by simp
    with False Cons.IH [of "index + 1" "s + schar c"] show ?thesis
      by (simp add: Let_def to_int16_smod to_int16_add add.assoc)
  qed
qed

text \<open>
  The checksum over the bytes \<open>0 .. end_index\<close> is the sum of the signed characters wrapped to
  \<open>int16_t\<close>: the reduction \<open>sum_hash %= 65535\<close> never changes the value, because every
  \<open>int16_t\<close> is already smaller in magnitude.
\<close>

theorem options_hash_is_wrapped_sum:
  assumes "0 \<le> end_index" and "end_index \<le> int (length raw)"
  shows "calculate_options_hash raw end_index =
    Inr (to_int16 (sum_list (map schar (take (Suc (nat end_index)) raw))))"
  using assms hash_loop_sum [of 0 end_index 0 raw]
  by (simp add: calculate_options_hash_def to_int16_id)

theorem options_hash_is_wrapped_sum_witness:
  "calculate_options_hash ''MSG'' 1 = Inr (to_int16 (sum_list (map schar ''MS'')))"
  using options_hash_is_wrapped_sum [of 1 "''MSG''"] by simp

lemma hash_prefix:
  assumes "raw1 \<noteq> []" and "end_index = int (length raw1) - 1"
  shows "calculate_options_hash (raw1 @ rest) end_index =
    Inr (to_int16 (sum_list (map schar raw1)))"
proof -
  have "Suc (nat end_index) = length raw1" using assms by (cases raw1) auto
  then show ?thesis
    using assms hash_loop_sum [of 0 end_index 0 "raw1 @ rest"]
    by (cases raw1) (auto simp: calculate_options_hash_def to_int16_id)
qed

section \<open>Well-formed messages\<close>

definition clean_string :: "string \<Rightarrow> bool" where
  "clean_string s \<longleftrightarrow> CHR 0x22 \<notin> set s \<and> CHR 0x00 \<notin> set s"

definition clean_option :: "opt \<Rightarrow> bool" where
  "clean_option op \<longleftrightarrow> clean_string (opt_key op) \<and> clean_string (opt_val op)"

definition head_ok :: "message \<Rightarrow> bool" where
  "head_ok m \<longleftrightarrow> version m = MSG_VERSION \<and> - (2 ^ 31) \<le> tid m \<and> tid m < 2 ^ 31
     \<and> - (2 ^ 15) \<le> mtype m \<and> mtype m < 2 ^ 15"

definition wf_message :: "message \<Rightarrow> bool" where
  "wf_message m \<longleftrightarrow> head_ok m \<and> distinct_keys m \<and> (\<forall>op \<in> set (options m). clean_option op)
     \<and> getValue m ''size'' = Inr (show_nat (length (data m))) \<and> length (data m) < 2 ^ 31"

definition head_bytes :: "message \<Rightarrow> string" where
  "head_bytes m = encode_head m []"

definition option_bytes :: "opt list \<Rightarrow> string" where
  "option_bytes ops = concat (map encode_option ops)"

lemma encode_head_append: "encode_head m raw = raw @ head_bytes m"
  by (simp add: encode_head_def head_bytes_def)

lemma head_bytes_nonempty [simp]: "head_bytes m \<noteq> []"
  by (simp add: head_bytes_def encode_head_def msg_head_def)

lemma expect_append_Some:
  "expect (xs @ ys) raw i = bind_res (expect xs raw i) (\<lambda>r. case r of None \<Rightarrow> Inr None | Some j \<Rightarrow> expect ys raw j)"
  by (induction xs arbitrary: i) (auto simp: expect.simps bind_res_assoc intro!: bind_res_cong)

lemma decode_head_encode:
  assumes "head_ok m"
  shows "decode_head (head_bytes m @ rest) m0 =
    Inr (setHead (tid m) (mtype m) m0, Some (length (head_bytes m)))"
proof -
  let ?v = "show_int (version m)" and ?ty = "show_int (mtype m)" and ?t = "show_int (tid m)"
  let ?raw = "head_bytes m @ rest"
  have raw: "?raw = ''MSG '' @ ?v @ '' '' @ ?ty @ '' '' @ ?t @ CRLF @ rest"
    by (simp add: head_bytes_def encode_head_def msg_head_def)
  have e1: "expect (msg_head @ '' '') ?raw 0 = Inr (Some 4)"
    using expect_found [of 0 "[]" "''MSG ''" "?v @ '' '' @ ?ty @ '' '' @ ?t @ CRLF @ rest"]
    by (simp add: raw msg_head_def numeral_eq_Suc)
  have s1: "scan_until (CHR '' '') ?raw 4 [] = Inr (?v, 4 + length ?v + 1)"
    using scan_simps [of "CHR '' ''" ?v 4 "''MSG ''" "?ty @ '' '' @ ?t @ CRLF @ rest"]
    by (simp add: raw show_int_avoids)
  have s2: "scan_until (CHR '' '') ?raw (4 + length ?v + 1) [] = Inr (?ty, 4 + length ?v + 1 + length ?ty + 1)"
    using scan_simps [of "CHR '' ''" ?ty "4 + length ?v + 1" "''MSG '' @ ?v @ '' ''" "?t @ CRLF @ rest"]
    by (simp add: raw show_int_avoids)
  have s3: "scan_until (CHR 0x0D) ?raw (4 + length ?v + 1 + length ?ty + 1) [] =
      Inr (?t, 4 + length ?v + 1 + length ?ty + 1 + length ?t + 1)"
    using scan_simps [of "CHR 0x0D" ?t "4 + length ?v + 1 + length ?ty + 1"
        "''MSG '' @ ?v @ '' '' @ ?ty @ '' ''" "[CHR 0x0A] @ rest"]
    by (simp add: raw show_int_avoids CRLF_def)
  have e2: "expect [CHR 0x0A] ?raw (4 + length ?v + 1 + length ?ty + 1 + length ?t + 1) =
      Inr (Some (length (head_bytes m)))"
    using expect_found [of "4 + length ?v + 1 + length ?ty + 1 + length ?t + 1"
        "''MSG '' @ ?v @ '' '' @ ?ty @ '' '' @ ?t @ [CHR 0x0D]" "[CHR 0x0A]" rest]
    by (simp add: raw CRLF_def) (simp add: head_bytes_def encode_head_def msg_head_def CRLF_def)
  have st: "stoi ?v = Inr (version m)" "stoi ?ty = Inr (mtype m)" "stoi ?t = Inr (tid m)"
    using assms by (auto simp: head_ok_def MSG_VERSION_def intro!: stoi_show_int)
  have "to_int16 (version m) = MSG_VERSION" "to_int16 (mtype m) = mtype m"
    using assms by (auto simp: head_ok_def to_int16_id MSG_VERSION_def)
  then show ?thesis
    using e1 s1 s2 s3 e2 st by (simp add: decode_head_def)
qed

section \<open>Option lines\<close>

definition add_all :: "opt list \<Rightarrow> message \<Rightarrow> message" where
  "add_all ops m = foldl (\<lambda>m op. addOption (opt_key op) (opt_val op) m) m ops"

lemma c_str_clean: "clean_string s \<Longrightarrow> c_str s = s"
  by (auto simp: c_str_def clean_string_def takeWhile_eq_all_conv)

lemma encode_option_Cons:
  "encode_option op = CHR 0x22 # opt_key op @ [CHR 0x22, CHR '':'', CHR 0x22] @ opt_val op @ [CHR 0x22] @ CRLF"
  by (simp add: encode_option_def)

lemma decode_option_line_encode:
  assumes "clean_option op" and i: "i = Suc (length pre)"
  shows "decode_option_line (pre @ encode_option op @ rest) i =
    Inr (Some (opt_key op, opt_val op, length pre + length (encode_option op)))"
proof -
  let ?raw = "pre @ encode_option op @ rest" and ?k = "opt_key op" and ?v = "opt_val op"
  let ?i1 = "i + length ?k + 1"
  let ?i2 = "?i1 + 2"
  let ?i3 = "?i2 + length ?v + 1"
  have k: "CHR 0x22 \<notin> set ?k" and v: "CHR 0x22 \<notin> set ?v"
    using assms(1) by (auto simp: clean_option_def clean_string_def)
  have 1: "scan_until (CHR 0x22) ?raw i [] = Inr (?k, ?i1)"
    using scan_simps [OF k, of i "pre @ [CHR 0x22]" "[CHR '':'', CHR 0x22] @ ?v @ [CHR 0x22] @ CRLF @ rest"] i
    by (simp add: encode_option_Cons)
  have 2: "expect [CHR '':'', CHR 0x22] ?raw ?i1 = Inr (Some ?i2)"
    using expect_found [of ?i1 "pre @ [CHR 0x22] @ ?k @ [CHR 0x22]" "[CHR '':'', CHR 0x22]" "?v @ [CHR 0x22] @ CRLF @ rest"] i
    by (simp add: encode_option_Cons)
  have 3: "scan_until (CHR 0x22) ?raw ?i2 [] = Inr (?v, ?i3)"
    using scan_simps [OF v, of ?i2 "pre @ [CHR 0x22] @ ?k @ [CHR 0x22, CHR '':'', CHR 0x22]" "CRLF @ rest"] i
    by (simp add: encode_option_Cons)
  have 4: "expect CRLF ?raw ?i3 = Inr (Some (length pre + length (encode_option op)))"
    using expect_found [of ?i3 "pre @ [CHR 0x22] @ ?k @ [CHR 0x22, CHR '':'', CHR 0x22] @ ?v @ [CHR 0x22]" CRLF rest] i
    by (simp add: encode_option_Cons)
  show ?thesis
    using 1 2 3 4 by (simp add: decode_option_line_def)
qed

lemma decode_option_lines_encode:
  assumes "\<forall>op \<in> set ops. clean_option op" and "c \<noteq> CHR 0x22"
  shows "decode_option_lines (pre @ option_bytes ops @ c # rest) (length pre) m =
    Inr (add_all ops m, Some (Suc (length pre + length (option_bytes ops))))"
  using assms(1)
proof (induction ops arbitrary: pre m)
  case Nil
  with assms(2) show ?case
    by (subst decode_option_lines.simps) (simp add: option_bytes_def at_middle add_all_def)
next
  case (Cons op ops)
  let ?tail = "option_bytes ops @ c # rest"
  have op: "clean_option op" using Cons.prems by simp
  then have c: "c_str (opt_key op) = opt_key op" "c_str (opt_val op) = opt_val op"
    by (simp_all add: c_str_clean clean_option_def)
  have line: "decode_option_line (pre @ encode_option op @ ?tail) (Suc (length pre)) =
      Inr (Some (opt_key op, opt_val op, length pre + length (encode_option op)))"
    by (rule decode_option_line_encode [OF op]) simp
  have quote: "at (pre @ encode_option op @ ?tail) (length pre) = Inr (CHR 0x22)"
    by (simp add: encode_option_Cons at_middle)
  have rec: "decode_option_lines (pre @ encode_option op @ ?tail) (length pre + length (encode_option op))
      (addOption (opt_key op) (opt_val op) m) =
      Inr (add_all ops (addOption (opt_key op) (opt_val op) m),
        Some (Suc (length pre + length (encode_option op) + length (option_bytes ops))))"
    using Cons.IH [of "pre @ encode_option op"] Cons.prems by simp
  show ?case
    using line quote rec c
    by (subst decode_option_lines.simps) (simp add: option_bytes_def add_all_def)
qed

lemma add_all_distinct:
  assumes "distinct (map opt_key ops)" and "opt_key ` set ops \<inter> opt_key ` set (options m) = {}"
  shows "add_all ops m = m\<lparr>options := options m @ ops\<rparr>"
  using assms
proof (induction ops arbitrary: m)
  case Nil
  then show ?case by (simp add: add_all_def)
next
  case (Cons op ops)
  then have new: "opt_key op \<notin> opt_key ` set (options m)" by auto
  let ?m = "addOption (opt_key op) (opt_val op) m"
  have m: "?m = m\<lparr>options := options m @ [op]\<rparr>"
    using new by (simp add: addOption_def add_option_new)
  have "add_all ops ?m = ?m\<lparr>options := options ?m @ ops\<rparr>"
    using Cons.prems by (intro Cons.IH) (auto simp: m)
  then show ?case by (simp add: add_all_def m)
qed

lemma schar_sum_append: "sum_list (map schar (xs @ ys)) = sum_list (map schar xs) + sum_list (map schar ys)"
  by simp

definition hash_of :: "string \<Rightarrow> int" where
  "hash_of raw = to_int16 (sum_list (map schar raw))"

lemma encode_options_bytes:
  assumes "raw @ option_bytes (options m) \<noteq> []" and "length (raw @ option_bytes (options m)) < 2 ^ 31"
  shows "encode_options m raw = Inr (raw @ option_bytes (options m)
    @ show_int (hash_of (raw @ option_bytes (options m))) @ CRLF @ CRLF)"
proof -
  let ?raw1 = "raw @ option_bytes (options m)"
  have "to_int32 (int (length ?raw1) - 1) = int (length ?raw1) - 1"
    using assms by (intro to_int32_id) auto
  moreover have "calculate_options_hash ?raw1 (int (length ?raw1) - 1) = Inr (hash_of ?raw1)"
    using hash_prefix [OF assms(1), of _ "[]"] by (simp add: hash_of_def)
  ultimately show ?thesis
    by (simp add: encode_options_def Let_def option_bytes_def)
qed

text \<open>
  The option block: lines, then the checksum digits, then an empty line. \<open>h\<close> is the checksum that
  the block carries; the decoder compares it with the sum over everything before it in its buffer.
\<close>

definition option_block :: "opt list \<Rightarrow> int \<Rightarrow> string" where
  "option_block ops h = option_bytes ops @ show_int h @ CRLF @ CRLF"

lemma decode_options_block:
  assumes clean: "\<forall>op \<in> set ops. clean_option op"
    and ne: "pre @ option_bytes ops \<noteq> []" and len: "length (pre @ option_bytes ops) < 2 ^ 31"
    and h: "- (2 ^ 15) \<le> h" "h < 2 ^ 15"
  shows "decode_options (pre @ option_block ops h @ rest) (length pre) m =
    Inr (add_all ops m, if h = hash_of (pre @ option_bytes ops)
      then Some (length pre + length (option_block ops h)) else None)"
proof -
  let ?raw = "pre @ option_block ops h @ rest" and ?p = "length pre + length (option_bytes ops)"
  obtain c cs where c: "show_int h = c # cs" by (cases "show_int h") auto
  then have "c \<noteq> CHR 0x22" using show_int_avoids(3) [of h] by auto
  with decode_option_lines_encode [OF clean, of c pre "cs @ CRLF @ CRLF @ rest" m]
  have lines: "decode_option_lines ?raw (length pre) m = Inr (add_all ops m, Some (Suc ?p))"
    by (simp add: option_block_def c)
  have range: "to_int32 (int (Suc ?p) - 2) = int (length (pre @ option_bytes ops)) - 1"
    using len ne by (subst to_int32_id) auto
  have scan: "scan_until (CHR 0x0D) ?raw ?p [] = Inr (show_int h, ?p + length (show_int h) + 1)"
    using scan_simps [of "CHR 0x0D" "show_int h" ?p "pre @ option_bytes ops" "[CHR 0x0A] @ CRLF @ rest"]
    by (simp add: option_block_def show_int_avoids CRLF_def)
  have lf: "expect [CHR 0x0A] ?raw (?p + length (show_int h) + 1) = Inr (Some (?p + length (show_int h) + 2))"
    using expect_found [of "?p + length (show_int h) + 1" "pre @ option_bytes ops @ show_int h @ [CHR 0x0D]" "[CHR 0x0A]" "CRLF @ rest"]
    by (simp add: option_block_def CRLF_def)
  have e: "expect CRLF ?raw (?p + length (show_int h) + 2) = Inr (Some (length pre + length (option_block ops h)))"
    using expect_found [of "?p + length (show_int h) + 2" "pre @ option_bytes ops @ show_int h @ CRLF" CRLF rest]
    by (simp add: option_block_def CRLF_def)
  have st: "stoi (show_int h) = Inr h" using h by (intro stoi_show_int) auto
  have hash: "calculate_options_hash ?raw (int (length (pre @ option_bytes ops)) - 1) = Inr (hash_of (pre @ option_bytes ops))"
    using hash_prefix [OF ne, of _ "show_int h @ CRLF @ CRLF @ rest"] by (simp add: hash_of_def option_block_def)
  have "to_int16 h = h" using h by (rule to_int16_id)
  then show ?thesis
    using lines range scan lf e st hash by (auto simp: decode_options_def Let_def)
qed

section \<open>Body, tail and whole messages\<close>

lemma decode_body_data:
  assumes "getValue m ''size'' = Inr (show_nat (length d))" and "length d < 2 ^ 31"
  shows "decode_body (pre @ d @ CRLF @ rest) (length pre) m =
    Inr (pushData d m, Some (length pre + length d + 2))"
proof -
  have "expect CRLF (pre @ d @ CRLF @ rest) (length pre + length d) = Inr (Some (length pre + length d + 2))"
    using expect_found [of "length pre + length d" "pre @ d" CRLF rest] by (simp add: CRLF_def)
  moreover have "cut (pre @ d @ CRLF @ rest) (length pre) (length d) = Inr d"
    by (rule cut_middle) simp_all
  ultimately show ?thesis
    using assms by (simp add: decode_body_def stoi_show_nat Let_def)
qed

lemma length_CRLF [simp]: "length CRLF = 2"
  by (simp add: CRLF_def)

lemma decode_tail_tail: "decode_tail (pre @ msg_tail @ rest) (length pre) m = Inr (m, Some (length pre + 3))"
  using expect_found [of "length pre" pre msg_tail rest] by (simp add: decode_tail_def msg_tail_def)

lemma pushData_same_size:
  assumes "data m = []" and "getValue m ''size'' = Inr (show_nat (length d))"
  shows "pushData d m = m\<lparr>data := d\<rparr>"
  using assms by (simp add: pushData_def addOption_def getValue_def add_option_idem)

lemma encodeMessage_bytes:
  assumes m': "m' = addOption ''sign'' (sha (data m)) m"
    and len: "length (head_bytes m' @ option_bytes (options m')) < 2 ^ 31"
  shows "encodeMessage sha m [] = Inr (m', head_bytes m'
    @ option_block (options m') (hash_of (head_bytes m' @ option_bytes (options m'))) @ data m' @ CRLF @ msg_tail)"
  using assms encode_options_bytes [of "head_bytes m'" m']
  by (simp add: encodeMessage_def Let_def encode_head_append encode_body_def encode_tail_def option_block_def)

lemma clean_add_option:
  assumes "\<forall>op \<in> set ops. clean_option op" "clean_option (mk_option k v)"
  shows "\<forall>op \<in> set (add_option k v ops). clean_option op"
  using assms(1)
proof (induction ops)
  case (Cons op ops)
  have "clean_option (update_value v op)" if "opt_key op = k"
    using that assms(2) by (simp add: clean_option_def mk_option_def update_value_def)
  with Cons show ?case by simp
qed (use assms(2) in simp)

lemma wf_message_sign:
  assumes "wf_message m" and "clean_string s"
  shows "wf_message (addOption ''sign'' s m)"
proof -
  have "clean_option (mk_option ''sign'' s)"
    using assms(2) by (simp add: clean_option_def mk_option_def clean_string_def)
  moreover have "distinct_keys m" and "\<forall>op \<in> set (options m). clean_option op"
    using assms(1) by (simp_all add: wf_message_def)
  ultimately have "distinct_keys (addOption ''sign'' s m)"
    "\<forall>op \<in> set (options (addOption ''sign'' s m)). clean_option op"
    by (auto simp: addOption_def intro: msg_opts.inv_put [unfolded addOption_def]
        dest: clean_add_option [THEN bspec, rotated 2])
  with assms(1) show ?thesis by (simp add: wf_message_def head_ok_def)
qed

lemma decode_head_options:
  assumes "head_ok m" and "distinct_keys m" and "\<forall>op \<in> set (options m). clean_option op"
    and "length (head_bytes m @ option_bytes (options m)) < 2 ^ 31"
    and "- (2 ^ 15) \<le> h" "h < 2 ^ 15"
  shows "decodeMessage (head_bytes m @ option_block (options m) h @ rest) m0 =
    (let m1 = (setHead (tid m) (mtype m) (clear m0))\<lparr>options := options m\<rparr> in
     if h = hash_of (head_bytes m @ option_bytes (options m)) then
       bind_res (decode_body (head_bytes m @ option_block (options m) h @ rest)
         (length (head_bytes m @ option_block (options m) h)) m1) (\<lambda>(m2, r). case r of None \<Rightarrow> Inr (m2, False) | Some i \<Rightarrow>
       bind_res (decode_tail (head_bytes m @ option_block (options m) h @ rest) i m2) (\<lambda>(m2, r). Inr (m2, r \<noteq> None)))
     else Inr (m1, False))"
proof -
  have 1: "decode_head (head_bytes m @ option_block (options m) h @ rest) (clear m0) =
      Inr (setHead (tid m) (mtype m) (clear m0), Some (length (head_bytes m)))"
    by (rule decode_head_encode [OF assms(1)])
  have 2: "add_all (options m) (setHead (tid m) (mtype m) (clear m0)) =
      (setHead (tid m) (mtype m) (clear m0))\<lparr>options := options m\<rparr>"
    using assms(2) by (subst add_all_distinct) (auto simp: distinct_keys_def setHead_def clear_def)
  show ?thesis
    using 1 2 decode_options_block [OF assms(3) _ assms(4-6), of rest]
    by (simp add: decodeMessage_def Let_def)
qed

text \<open>
  C4. Round trip: decoding what the factory encoded succeeds and gives back the signed message (head,
  options in order, data), into whatever message object the caller passes; and the signature check
  passes on the result. The checksum header fields are in range, the options are free of quotes and
  NUL bytes, and the \<open>size\<close> option is the one \<open>pushData\<close> maintains.
\<close>

theorem decode_encode_message:
  assumes wf: "wf_message m" and sha: "clean_string (sha (data m))"
    and m': "m' = addOption ''sign'' (sha (data m)) m"
    and len: "length (head_bytes m' @ option_bytes (options m')) < 2 ^ 31"
    and m0: "version m0 = MSG_VERSION"
  shows "\<exists>raw. encodeMessage sha m [] = Inr (m', raw) \<and> decodeMessage raw m0 = Inr (m', True)
    \<and> checkMessageSign sha m' = Inr True"
proof -
  let ?h = "hash_of (head_bytes m' @ option_bytes (options m'))"
  let ?pre = "head_bytes m' @ option_block (options m') ?h"
  let ?raw = "?pre @ data m' @ CRLF @ msg_tail"
  let ?m1 = "(setHead (tid m') (mtype m') (clear m0))\<lparr>options := options m'\<rparr>"
  have wf': "wf_message m'" unfolding m' using wf sha by (rule wf_message_sign)
  then have size: "getValue ?m1 ''size'' = Inr (show_nat (length (data m')))" and dl: "length (data m') < 2 ^ 31"
    by (auto simp: wf_message_def getValue_def)
  have h: "- (2 ^ 15) \<le> ?h" "?h < 2 ^ 15"
    using to_int16_range by (auto simp: hash_of_def)
  have "pushData (data m') ?m1 = ?m1\<lparr>data := data m'\<rparr>"
    by (rule pushData_same_size [OF _ size]) (simp add: setHead_def clear_def)
  also have "\<dots> = m'"
    using wf' m0 by (simp add: wf_message_def head_ok_def setHead_def clear_def)
  finally have push: "pushData (data m') ?m1 = m'" .
  have body: "decode_body ?raw (length ?pre) ?m1 = Inr (m', Some (length ?pre + length (data m') + 2))"
    using decode_body_data [OF size dl, of ?pre msg_tail] push by simp
  have tail: "decode_tail ?raw (length ?pre + length (data m') + 2) m' = Inr (m', Some (length ?pre + length (data m') + 5))"
    using decode_tail_tail [of "?pre @ data m' @ CRLF" "[]" m'] by (simp add: add.commute add.left_commute)
  have "decodeMessage ?raw m0 = Inr (m', True)"
    using decode_head_options [of m' ?h "data m' @ CRLF @ msg_tail" m0] wf' h len body tail
    by (simp add: wf_message_def Let_def)
  moreover have "checkMessageSign sha m' = Inr True"
    by (simp add: checkMessageSign_def m')
  ultimately show ?thesis
    using encodeMessage_bytes [where sha = sha and m = m, OF m' len] by simp
qed

text \<open>A message built by the public operations is well formed.\<close>

lemma wf_new_message:
  assumes "clean_string date" and "length buf < 2 ^ 31"
    and "- (2 ^ 31) \<le> t" "t < 2 ^ 31" "- (2 ^ 15) \<le> ty" "ty < 2 ^ 15"
  shows "wf_message (pushData buf (setHead t ty (new_message date)))"
proof -
  have digits: "clean_string (show_nat n)" for n
    using show_nat_digits [of n] by (auto simp: clean_string_def is_digit_def code_def)
  have "clean_string ''date''" "clean_string ''size''" by (simp_all add: clean_string_def)
  with assms digits show ?thesis
    by (auto simp: wf_message_def head_ok_def pushData_def Let_def setHead_def new_message_def
        blank_message_def addOption_def distinct_keys_def mk_option_def clean_option_def getValue_def)
qed

lemma head_bytes_setHead: "head_bytes (addOption k v m) = head_bytes m"
  by (simp add: head_bytes_def encode_head_def)

theorem decode_encode_message_witness:
  "\<exists>raw m'. m' = addOption ''sign'' ''ab'' (pushData ''hi'' (setHead 7 1 (new_message ''d'')))
     \<and> encodeMessage (\<lambda>_. ''ab'') (pushData ''hi'' (setHead 7 1 (new_message ''d''))) [] = Inr (m', raw)
     \<and> decodeMessage raw blank_message = Inr (m', True)"
proof -
  let ?m = "pushData ''hi'' (setHead 7 1 (new_message ''d''))"
  let ?m' = "addOption ''sign'' ''ab'' ?m"
  have wf: "wf_message ?m" by (rule wf_new_message) (simp_all add: clean_string_def)
  have opts: "options ?m' = [mk_option ''date'' ''d'', mk_option ''size'' ''2'', mk_option ''sign'' ''ab'']"
    by (simp add: pushData_def setHead_def new_message_def blank_message_def addOption_def mk_option_def
        show_nat.simps)
  have len: "length (head_bytes ?m' @ option_bytes (options ?m')) < 2 ^ 31"
    unfolding opts
    by (simp add: head_bytes_setHead option_bytes_def encode_option_def mk_option_def)
      (simp add: head_bytes_def encode_head_def pushData_def setHead_def new_message_def blank_message_def
        msg_head_def MSG_VERSION_def show_int_def show_nat.simps)
  show ?thesis
    using decode_encode_message [OF wf, of "\<lambda>_. ''ab''" ?m' blank_message] len
    by (auto simp: clean_string_def)
qed

text \<open>
  Integrity of head and options: a message whose checksum field differs from the sum over its head
  and option bytes is rejected, whatever follows.
\<close>

theorem wrong_hash_rejected:
  assumes "head_ok m" and "distinct_keys m" and "\<forall>op \<in> set (options m). clean_option op"
    and "length (head_bytes m @ option_bytes (options m)) < 2 ^ 31"
    and "- (2 ^ 15) \<le> h" "h < 2 ^ 15" and "h \<noteq> hash_of (head_bytes m @ option_bytes (options m))"
  shows "\<exists>m'. decodeMessage (head_bytes m @ option_block (options m) h @ rest) m0 = Inr (m', False)"
  using decode_head_options [OF assms(1-6)] assms(7) by (simp add: Let_def)

theorem wrong_hash_rejected_witness:
  "\<exists>m'. decodeMessage (head_bytes blank_message @ option_block [] 0 @ ''x'') blank_message = Inr (m', False)"
proof -
  have head: "head_bytes blank_message = ''MSG 0 0 -1'' @ CRLF"
    by (simp add: head_bytes_def encode_head_def blank_message_def msg_head_def MSG_VERSION_def
        show_int_def show_nat.simps)
  have "hash_of (head_bytes blank_message @ option_bytes []) \<noteq> 0"
    unfolding head by (simp add: hash_of_def option_bytes_def CRLF_def schar_def to_int16_def)
  moreover have "length (head_bytes blank_message) < 2 ^ 31" unfolding head by simp
  ultimately show ?thesis
    using wrong_hash_rejected [of blank_message 0 "''x''" blank_message]
    by (simp add: head_ok_def distinct_keys_def option_bytes_def)
qed

text \<open>
  A message with intact head and option block but without a \<open>size\<close> option does not make
  \<open>decodeMessage\<close> return false: \<open>getValue\<close> throws a pointer, which the handler in \<open>decode_body\<close>
  (it catches \<open>std::runtime_error\<close> by value) lets through to the caller.
\<close>

theorem missing_size_escapes:
  assumes "head_ok m" and "distinct_keys m" and "\<forall>op \<in> set (options m). clean_option op"
    and "length (head_bytes m @ option_bytes (options m)) < 2 ^ 31"
    and "''size'' \<notin> opt_key ` set (options m)"
    and "h = hash_of (head_bytes m @ option_bytes (options m))"
  shows "decodeMessage (head_bytes m @ option_block (options m) h @ rest) m0
    = Inl (ThrownPointer ''key not found'')"
proof -
  have "get_value (options m) ''size'' = Inl (ThrownPointer ''key not found'')"
    using assms(5) by (auto simp: get_value_find find_None_iff split: option.splits)
      (metis imageI nth_mem)
  moreover have "- (2 ^ 15) \<le> h \<and> h < 2 ^ 15"
    using to_int16_range by (simp add: assms(6) hash_of_def)
  ultimately show ?thesis
    using decode_head_options [OF assms(1-4), of h] assms(6)
    by (simp add: Let_def decode_body_def getValue_def)
qed

theorem missing_size_escapes_witness:
  "\<exists>h. decodeMessage (head_bytes blank_message @ option_block [] h) blank_message
    = Inl (ThrownPointer ''key not found'')"
proof -
  have "length (head_bytes blank_message @ option_bytes []) < 2 ^ 31"
    by (simp add: head_bytes_def encode_head_def blank_message_def msg_head_def MSG_VERSION_def
        show_int_def show_nat.simps option_bytes_def)
  then show ?thesis
    using missing_size_escapes [of blank_message _ "[]" blank_message]
    by (intro exI [of _ "hash_of (head_bytes blank_message @ option_bytes [])"])
      (simp add: head_ok_def distinct_keys_def blank_message_def MSG_VERSION_def)
qed

end
