(* ===== verification/MessageParser.thy ===== *)
theory MessageParser
  imports MessageFactory
begin

text \<open>
  The streaming parser \<^theory_text>\<open>src/src/communicate/message_parser.cpp\<close>: a byte queue, a buffer for the
  part of the message that is being located, four state counters and a queue of finished messages.
  Each \<open>locate_\<dots>\<close> loop pops bytes until it breaks or the queue is empty; its body is a function of
  one byte that returns the new state and whether the loop was left. An exception leaves \<open>parse\<close>
  (nothing in the parser catches it), so it is the \<open>Inl\<close> of the whole call. \<open>new\<close> is what the
  \<open>Message\<close> constructor returns during the call.
\<close>

record parser =
  head_state :: int
  option_state :: int
  body_state :: int
  tail_state :: int
  msgs :: "message list"
  buffer :: "char list"
  temp_buffer :: "char list"
  temp_msg :: "message option"

definition init_parser :: parser where
  "init_parser = \<lparr>head_state = -5, option_state = -4, body_state = -1, tail_state = -4,
     msgs = [], buffer = [], temp_buffer = [], temp_msg = None\<rparr>"

definition reset_state :: "parser \<Rightarrow> parser" where
  "reset_state p = p\<lparr>temp_buffer := [], temp_msg := map_option clear (temp_msg p),
     head_state := -5, option_state := -4, body_state := -1, tail_state := -4\<rparr>"

text \<open>\<open>factory.decode\<dots>(temp_buffer, *temp_msg)\<close>: the message is updated in place.\<close>

definition decode_temp :: "(string \<Rightarrow> message \<Rightarrow> (message \<times> bool) res) \<Rightarrow> parser \<Rightarrow> (parser \<times> bool) res" where
  "decode_temp dec p = (case temp_msg p of None \<Rightarrow> Inl NullDeref | Some m \<Rightarrow>
     bind_res (dec (temp_buffer p) m) (\<lambda>(m', ok). Inr (p\<lparr>temp_msg := Some m'\<rparr>, ok)))"

section \<open>One byte of each loop\<close>

definition head_byte :: "char \<Rightarrow> parser \<Rightarrow> (parser \<times> bool) res" where
  "head_byte c p =
     (if head_state p = -5 then
        Inr (if c = CHR ''M'' then p\<lparr>head_state := head_state p + 1\<rparr> else p, False)
      else if head_state p = -4 then
        Inr (if c \<noteq> CHR ''S'' then reset_state p else p\<lparr>head_state := head_state p + 1\<rparr>, False)
      else if head_state p = -3 then
        Inr (if c \<noteq> CHR ''G'' then reset_state p else p\<lparr>head_state := head_state p + 1\<rparr>, False)
      else if head_state p = -2 then
        Inr (if c = CHR 0x0D then p\<lparr>head_state := head_state p + 1\<rparr> else p, False)
      else if head_state p = -1 then
        (if c \<noteq> CHR 0x0A then Inr (reset_state p, False)
         else bind_res (decode_temp decodeMessageHead (p\<lparr>head_state := head_state p + 1\<rparr>)) (\<lambda>(p, ok).
           Inr ((if ok then p else reset_state p)\<lparr>temp_buffer := []\<rparr>, True)))
      else Inr (p, False))"

definition option_byte :: "char \<Rightarrow> parser \<Rightarrow> (parser \<times> bool) res" where
  "option_byte c p =
     (if option_state p = -4 then
        Inr (if c = CHR 0x22 then p\<lparr>option_state := option_state p + 1\<rparr>
             else if c = CHR 0x0D then p\<lparr>option_state := -1\<rparr>
             else if 47 < schar c \<and> schar c < 58 then p\<lparr>option_state := option_state p + 1\<rparr>
             else p, False)
      else if option_state p = -3 then
        Inr (if c = CHR 0x0D then p\<lparr>option_state := option_state p + 1\<rparr> else p, False)
      else if option_state p = -2 then
        (if c = CHR 0x0A then Inr (p\<lparr>option_state := -4\<rparr>, False) else Inr (reset_state p, True))
      else if option_state p = -1 then
        (if c \<noteq> CHR 0x0A then Inr (reset_state p, True)
         else bind_res (decode_temp decodeMessageOption p) (\<lambda>(p, ok).
           if \<not> ok then Inr (reset_state p, True)
           else Inr (p\<lparr>option_state := option_state p + 1, temp_buffer := []\<rparr>, True)))
      else Inr (p, False))"

text \<open>
  \<open>body_state = std::stoul(s_size) + 2\<close> is computed in \<open>unsigned long\<close> and stored in a \<open>ssize_t\<close>.
  The test for \<open>body_state == 2\<close> that follows \<open>body_state > 1\<close> in the source can never succeed.
\<close>

definition body_size :: "parser \<Rightarrow> parser res" where
  "body_size p =
     (if body_state p = -1 then
        (case temp_msg p of None \<Rightarrow> Inl NullDeref | Some m \<Rightarrow>
         bind_res (getValue m ''size'') (\<lambda>s_size.
         bind_res (stoul s_size) (\<lambda>n. Inr (p\<lparr>body_state := sint (n + 2)\<rparr>))))
      else Inr p)"

definition body_byte :: "char \<Rightarrow> parser \<Rightarrow> (parser \<times> bool) res" where
  "body_byte c p =
     bind_res (body_size p) (\<lambda>p.
     if 1 < body_state p then Inr (p\<lparr>body_state := body_state p - 1\<rparr>, False)
     else if body_state p = 1 then
       (if c \<noteq> CHR 0x0A then Inr (reset_state p, True)
        else bind_res (decode_temp decodeMessageBody p) (\<lambda>(p, ok).
          if \<not> ok then Inr (reset_state p, True)
          else Inr (p\<lparr>temp_buffer := [], body_state := body_state p - 1\<rparr>, True)))
     else Inr (p, False))"

definition tail_byte :: "char \<Rightarrow> parser \<Rightarrow> (parser \<times> bool) res" where
  "tail_byte c p =
     (if tail_state p = -4 then
        (if c = CHR ''G'' then Inr (p\<lparr>tail_state := tail_state p + 1\<rparr>, False) else Inr (reset_state p, True))
      else if tail_state p = -3 then
        (if c = CHR ''S'' then Inr (p\<lparr>tail_state := tail_state p + 1\<rparr>, False) else Inr (reset_state p, True))
      else if tail_state p = -2 \<and> c \<noteq> CHR ''M'' then Inr (reset_state p, True)
      else if tail_state p = -2 \<or> tail_state p = -1 then
        (let p = (if tail_state p = -2 then p\<lparr>tail_state := tail_state p + 1\<rparr> else p) in
         bind_res (decode_temp decodeMessageTail p) (\<lambda>(p, ok).
           if \<not> ok then Inr (reset_state p, True)
           else Inr (p\<lparr>tail_state := tail_state p + 1, temp_buffer := []\<rparr>, True)))
      else Inr (p, False))"

section \<open>The loops\<close>

text \<open>\<open>drain\<close> holds the queue of its loop; the bodies neither read nor write the queue themselves.\<close>

fun drain :: "(char \<Rightarrow> parser \<Rightarrow> (parser \<times> bool) res) \<Rightarrow> char list \<Rightarrow> parser \<Rightarrow> (parser \<times> char list) res" where
  "drain f [] p = Inr (p, [])"
| "drain f (c # cs) p =
     bind_res (f c (p\<lparr>temp_buffer := temp_buffer p @ [c]\<rparr>)) (\<lambda>(p', stop).
       if stop then Inr (p', cs) else drain f cs p')"

definition locate :: "(char \<Rightarrow> parser \<Rightarrow> (parser \<times> bool) res) \<Rightarrow> parser \<Rightarrow> parser res" where
  "locate f p = bind_res (drain f (buffer p) (p\<lparr>buffer := []\<rparr>)) (\<lambda>(p', rest). Inr (p'\<lparr>buffer := rest\<rparr>))"

definition locate_head :: "parser \<Rightarrow> parser res" where "locate_head = locate head_byte"

definition locate_option :: "parser \<Rightarrow> parser res" where "locate_option = locate option_byte"

definition locate_body :: "parser \<Rightarrow> parser res" where "locate_body = locate body_byte"

definition locate_tail :: "parser \<Rightarrow> parser res" where "locate_tail = locate tail_byte"

definition ensure_msg :: "message \<Rightarrow> parser \<Rightarrow> parser" where
  "ensure_msg new p = (if temp_msg p = None then p\<lparr>temp_msg := Some new\<rparr> else p)"

definition dispatch :: "parser \<Rightarrow> parser res" where
  "dispatch p =
     (if head_state p < 0 then locate_head p
      else if option_state p < 0 then locate_option p
      else if body_state p \<noteq> 0 then locate_body p
      else if tail_state p < 0 then locate_tail p
      else Inr p)"

definition finish_msg :: "parser \<Rightarrow> parser" where
  "finish_msg p =
     (if tail_state p = 0 then
        reset_state (p\<lparr>msgs := msgs p @ (case temp_msg p of None \<Rightarrow> [] | Some m \<Rightarrow> [m]), temp_msg := None\<rparr>)
      else p)"

text \<open>
  \<open>while (!buffer.empty())\<close> of \<open>parse\<close>; \<open>None\<close> would be a call that does not return. That it never
  happens from the states the parser can be in is proved below.
\<close>

partial_function (option) parse_loop :: "message \<Rightarrow> parser \<Rightarrow> parser res option" where
  "parse_loop new p =
     (if buffer p = [] then Some (Inr p)
      else case dispatch (ensure_msg new p) of
             Inl e \<Rightarrow> Some (Inl e)
           | Inr p' \<Rightarrow> parse_loop new (finish_msg p'))"

definition parse :: "message \<Rightarrow> string \<Rightarrow> parser \<Rightarrow> parser res option" where
  "parse new buf p = parse_loop new (p\<lparr>buffer := buffer p @ buf\<rparr>)"

definition getMessage :: "parser \<Rightarrow> message option \<times> parser" where
  "getMessage p = (case msgs p of [] \<Rightarrow> (None, p) | m # ms \<Rightarrow> (Some m, p\<lparr>msgs := ms\<rparr>))"

definition getMessageCount :: "parser \<Rightarrow> nat" where
  "getMessageCount p = length (msgs p)"


section \<open>The loops as modes of one machine\<close>

text \<open>
  \<open>runs f p\<close>: the loop with body \<open>f\<close> is the one that \<open>dispatch\<close> selects in \<open>p\<close>, or the body
  loop has been entered by a \<open>size\<close> that wraps to a zero counter and now eats the rest of the queue.
\<close>

definition swallowing :: "parser \<Rightarrow> bool" where
  "swallowing p \<longleftrightarrow> 0 \<le> head_state p \<and> 0 \<le> option_state p \<and> body_state p = 0
     \<and> tail_state p = -4 \<and> temp_buffer p \<noteq> []"

definition mode_ok :: "parser \<Rightarrow> bool" where
  "mode_ok p \<longleftrightarrow> tail_state p < 0
     \<and> (tail_state p \<noteq> -4 \<longrightarrow> 0 \<le> head_state p \<and> 0 \<le> option_state p \<and> body_state p = 0)"

definition current :: "parser \<Rightarrow> char \<Rightarrow> parser \<Rightarrow> (parser \<times> bool) res" where
  "current p = (if head_state p < 0 then head_byte else if option_state p < 0 then option_byte
     else if body_state p \<noteq> 0 then body_byte else tail_byte)"

lemma reset_state_sel [simp]:
  "head_state (reset_state p) = -5" "option_state (reset_state p) = -4"
  "body_state (reset_state p) = -1" "tail_state (reset_state p) = -4"
  "msgs (reset_state p) = msgs p" "buffer (reset_state p) = buffer p"
  "temp_buffer (reset_state p) = []" "temp_msg (reset_state p) = map_option clear (temp_msg p)"
  by (simp_all add: reset_state_def)

lemma decode_temp_InrD:
  "decode_temp dec p = Inr (p', ok) \<Longrightarrow> \<exists>m. p' = p\<lparr>temp_msg := Some m\<rparr>"
  by (auto simp: decode_temp_def split: option.splits prod.splits)

lemma dispatch_current:
  "tail_state p < 0 \<Longrightarrow> dispatch p = locate (current p) p"
  by (simp add: dispatch_def current_def locate_head_def locate_option_def locate_body_def locate_tail_def)


lemma current_cong:
  "head_state p = head_state q \<Longrightarrow> option_state p = option_state q \<Longrightarrow> body_state p = body_state q
   \<Longrightarrow> current p = current q"
  by (simp add: current_def)

text \<open>The fields that a byte of any loop leaves alone, and what it does to the counters.\<close>

lemma head_byte_step:
  assumes "head_byte c p = Inr (p', stop)" "mode_ok p" "head_state p < 0"
  shows "buffer p' = buffer p \<and> msgs p' = msgs p \<and> (temp_msg p \<noteq> None \<longrightarrow> temp_msg p' \<noteq> None)
    \<and> mode_ok p' \<and> (stop \<longrightarrow> temp_buffer p' = []) \<and> (\<not> stop \<longrightarrow> head_state p' < 0)"
proof -
  have t: "tail_state p = -4"
    using assms(2,3) by (auto simp: mode_ok_def)
  show ?thesis
    using assms(1,3) t by (auto simp: head_byte_def mode_ok_def split: if_splits dest!: decode_temp_InrD)
qed

lemma option_byte_step:
  assumes "option_byte c p = Inr (p', stop)" "mode_ok p" "0 \<le> head_state p" "option_state p < 0"
  shows "buffer p' = buffer p \<and> msgs p' = msgs p \<and> (temp_msg p \<noteq> None \<longrightarrow> temp_msg p' \<noteq> None)
    \<and> mode_ok p' \<and> (stop \<longrightarrow> temp_buffer p' = []) \<and> (\<not> stop \<longrightarrow> 0 \<le> head_state p' \<and> option_state p' < 0)"
proof -
  have t: "tail_state p = -4"
    using assms(2,4) by (auto simp: mode_ok_def)
  show ?thesis
    using assms(1,3,4) t by (auto simp: option_byte_def mode_ok_def split: if_splits dest!: decode_temp_InrD)
qed

lemma body_size_InrD:
  "body_size p = Inr p' \<Longrightarrow> \<exists>b. p' = p\<lparr>body_state := b\<rparr>"
  by (auto simp: body_size_def split: if_splits option.splits intro: exI [of _ "body_state p"])

lemma body_byte_step:
  assumes "body_byte c p = Inr (p', stop)" "mode_ok p" "0 \<le> head_state p" "0 \<le> option_state p"
    "body_state p \<noteq> 0"
  shows "buffer p' = buffer p \<and> msgs p' = msgs p \<and> (temp_msg p \<noteq> None \<longrightarrow> temp_msg p' \<noteq> None)
    \<and> mode_ok p' \<and> (stop \<longrightarrow> temp_buffer p' = []) \<and> (\<not> stop \<longrightarrow> 0 \<le> head_state p' \<and> 0 \<le> option_state p'
       \<and> temp_buffer p' = temp_buffer p \<and> tail_state p' = -4)"
proof -
  have t: "tail_state p = -4"
    using assms(2,5) by (auto simp: mode_ok_def)
  obtain b where "body_size p = Inr (p\<lparr>body_state := b\<rparr>)"
    using assms(1) body_size_InrD by (fastforce simp: body_byte_def)
  then show ?thesis
    using assms(1,3,4) t by (auto simp: body_byte_def mode_ok_def split: if_splits dest!: decode_temp_InrD)
qed

lemma tail_decode_step:
  assumes "bind_res (decode_temp decodeMessageTail q) (\<lambda>(p, ok).
      if \<not> ok then Inr (reset_state p, True)
      else Inr (p\<lparr>tail_state := tail_state p + 1, temp_buffer := []\<rparr>, True)) = Inr (p', stop)"
    "tail_state q = -1"
  shows "stop \<and> temp_buffer p' = [] \<and> buffer p' = buffer q \<and> msgs p' = msgs q \<and> temp_msg p' \<noteq> None
    \<and> (mode_ok p' \<or> tail_state p' = 0)"
proof -
  obtain r ok where d: "decode_temp decodeMessageTail q = Inr (r, ok)"
    using assms(1) by fastforce
  then obtain m where r: "r = q\<lparr>temp_msg := Some m\<rparr>"
    by (blast dest: decode_temp_InrD)
  show ?thesis
  proof (cases ok)
    case True
    then have "p' = q\<lparr>temp_msg := Some m, tail_state := 0, temp_buffer := []\<rparr> \<and> stop"
      using assms d r by simp
    then show ?thesis by simp
  next
    case False
    then have "p' = reset_state (q\<lparr>temp_msg := Some m\<rparr>) \<and> stop"
      using assms d r by simp
    then show ?thesis by (simp add: mode_ok_def)
  qed
qed

lemma tail_byte_step:
  assumes "tail_byte c p = Inr (p', stop)" "mode_ok p" "0 \<le> head_state p" "0 \<le> option_state p"
    "body_state p = 0"
  shows "buffer p' = buffer p \<and> msgs p' = msgs p \<and> (temp_msg p \<noteq> None \<longrightarrow> temp_msg p' \<noteq> None)
    \<and> (mode_ok p' \<or> tail_state p' = 0 \<and> stop) \<and> (stop \<longrightarrow> temp_buffer p' = [])
    \<and> (\<not> stop \<longrightarrow> 0 \<le> head_state p' \<and> 0 \<le> option_state p' \<and> body_state p' = 0)"
proof -
  have t: "tail_state p < 0" using assms(2) by (simp add: mode_ok_def)
  consider "tail_state p = -4" | "tail_state p = -3" | "tail_state p = -2 \<and> c \<noteq> CHR ''M''"
    | "tail_state p = -2 \<and> c = CHR ''M''" | "tail_state p = -1" | "tail_state p < -4"
    using t by linarith
  then show ?thesis
  proof cases
    case 4 then show ?thesis using assms(1) tail_decode_step [of "p\<lparr>tail_state := -1\<rparr>" p' stop]
      by (simp add: tail_byte_def)
  next
    case 5 then show ?thesis using assms(1) tail_decode_step [of p p' stop]
      by (simp add: tail_byte_def)
  qed (use assms in \<open>auto simp: tail_byte_def mode_ok_def split: if_splits\<close>)
qed

definition settled :: "parser \<Rightarrow> bool" where
  "settled p \<longleftrightarrow> mode_ok p \<and> temp_msg p \<noteq> None \<and> buffer p = []"

lemma current_step:
  assumes "current p c (p\<lparr>temp_buffer := temp_buffer p @ [c]\<rparr>) = Inr (p', stop)" "settled p"
  shows "msgs p' = msgs p \<and> buffer p' = [] \<and> temp_msg p' \<noteq> None
    \<and> (mode_ok p' \<or> tail_state p' = 0 \<and> stop) \<and> (stop \<longrightarrow> temp_buffer p' = [])
    \<and> (\<not> stop \<longrightarrow> settled p' \<and> (current p' = current p \<or> swallowing p' \<and> current p = body_byte))"
proof -
  let ?q = "p\<lparr>temp_buffer := temp_buffer p @ [c]\<rparr>"
  have q: "mode_ok ?q" "temp_msg p \<noteq> None" "buffer p = []"
    using assms(2) by (simp_all add: settled_def mode_ok_def)
  consider "head_state p < 0" | "0 \<le> head_state p" "option_state p < 0"
    | "0 \<le> head_state p" "0 \<le> option_state p" "body_state p \<noteq> 0"
    | "0 \<le> head_state p" "0 \<le> option_state p" "body_state p = 0" by linarith
  then show ?thesis
  proof cases
    case 1
    then show ?thesis
      using head_byte_step [of c ?q p' stop] assms(1) q by (auto simp: current_def settled_def)
  next
    case 2
    then show ?thesis
      using option_byte_step [of c ?q p' stop] assms(1) q by (auto simp: current_def settled_def)
  next
    case 3
    then show ?thesis
      using body_byte_step [of c ?q p' stop] assms(1) q
      by (auto simp: current_def settled_def swallowing_def mode_ok_def)
  next
    case 4
    then show ?thesis
      using tail_byte_step [of c ?q p' stop] assms(1) q by (auto simp: current_def settled_def mode_ok_def)
  qed
qed

text \<open>
  Draining \<open>xs @ ys\<close> in one call: either the loop was left within \<open>xs\<close>, or it used \<open>xs\<close> up and
  goes on with \<open>ys\<close> exactly where a later call would take it up.
\<close>

lemma swallowing_stays:
  assumes "swallowing p" "settled p"
  shows "drain body_byte xs p = Inr (p\<lparr>temp_buffer := temp_buffer p @ xs\<rparr>, [])"
  using assms
proof (induction xs arbitrary: p)
  case (Cons x xs)
  let ?q = "p\<lparr>temp_buffer := temp_buffer p @ [x]\<rparr>"
  have "body_byte x ?q = Inr (?q, False)"
    using Cons.prems by (simp add: body_byte_def body_size_def swallowing_def)
  moreover have "swallowing ?q" "settled ?q"
    using Cons.prems by (simp_all add: swallowing_def settled_def mode_ok_def)
  ultimately show ?case using Cons.IH [of ?q] by simp
qed simp

lemma drain_result:
  assumes "settled p" "drain (current p) xs p = Inr (p', rest)" "xs \<noteq> []"
  shows "length rest < length xs \<and> buffer p' = [] \<and> temp_msg p' \<noteq> None
    \<and> (mode_ok p' \<or> tail_state p' = 0) \<and> (rest \<noteq> [] \<longrightarrow> temp_buffer p' = [])"
  using assms
proof (induction xs arbitrary: p)
  case (Cons x xs)
  obtain p1 stop where b: "current p x (p\<lparr>temp_buffer := temp_buffer p @ [x]\<rparr>) = Inr (p1, stop)"
    and d: "(if stop then Inr (p1, xs) else drain (current p) xs p1) = Inr (p', rest)"
    using Cons.prems(2) by auto
  note st = current_step [OF b Cons.prems(1)]
  show ?case
  proof (cases "stop \<or> xs = []")
    case True
    then show ?thesis using d st by (auto simp: settled_def split: if_splits)
  next
    case False
    then consider "settled p1" "current p1 = current p" | "settled p1" "swallowing p1" "current p = body_byte"
      using st by blast
    then show ?thesis
    proof cases
      case 1
      then have "drain (current p1) xs p1 = Inr (p', rest)"
        using d False by simp
      from Cons.IH [OF 1(1) this] False show ?thesis by simp
    next
      case 2
      then have "p' = p1\<lparr>temp_buffer := temp_buffer p1 @ xs\<rparr>" "rest = []"
        using d False swallowing_stays [of p1 xs] by auto
      then show ?thesis using 2 by (simp add: settled_def mode_ok_def)
    qed
  qed
qed simp

lemma drain_append:
  assumes "settled p" "drain (current p) xs p = Inr (p', rest)" "\<not> swallowing p'"
  shows "drain (current p) (xs @ ys) p = Inr (p', rest @ ys)
    \<or> rest = [] \<and> settled p' \<and> drain (current p) (xs @ ys) p = drain (current p') ys p'"
  using assms
proof (induction xs arbitrary: p)
  case (Cons x xs)
  obtain p1 stop where b: "current p x (p\<lparr>temp_buffer := temp_buffer p @ [x]\<rparr>) = Inr (p1, stop)"
    and d: "(if stop then Inr (p1, xs) else drain (current p) xs p1) = Inr (p', rest)"
    using Cons.prems(2) by auto
  note st = current_step [OF b Cons.prems(1)]
  show ?case
  proof (cases stop)
    case True
    then show ?thesis using b d by simp
  next
    case False
    have "\<not> (swallowing p1 \<and> current p = body_byte)"
    proof
      assume sw: "swallowing p1 \<and> current p = body_byte"
      then have "p' = p1\<lparr>temp_buffer := temp_buffer p1 @ xs\<rparr>"
        using d False st swallowing_stays [of p1 xs] by simp
      then show False using sw Cons.prems(3) by (simp add: swallowing_def)
    qed
    then have "settled p1" "current p1 = current p" using st False by blast+
    then show ?thesis using Cons.IH [of p1] Cons.prems(3) b d False by simp
  qed
qed simp

lemma drain_append_Inl: "drain f xs p = Inl e \<Longrightarrow> drain f (xs @ ys) p = Inl e"
proof (induction xs arbitrary: p)
  case (Cons x xs)
  then show ?case
    by (cases "f x (p\<lparr>temp_buffer := temp_buffer p @ [x]\<rparr>)") (auto split: if_splits)
qed simp

section \<open>The main loop\<close>

lemma settled_start:
  "mode_ok p \<Longrightarrow> settled ((ensure_msg new p)\<lparr>buffer := []\<rparr>)"
  by (simp add: settled_def mode_ok_def ensure_msg_def)

lemma current_start [simp]: "current (p\<lparr>buffer := b\<rparr>) = current p" "current (ensure_msg new p) = current p"
  by (simp_all add: current_def ensure_msg_def)

lemma mode_ok_finish: "mode_ok p \<or> tail_state p = 0 \<Longrightarrow> mode_ok (finish_msg p)"
  by (auto simp: finish_msg_def mode_ok_def)

lemma buffer_finish [simp]: "buffer (finish_msg p) = buffer p"
  by (simp add: finish_msg_def)

lemma dispatch_start:
  assumes "mode_ok p"
  shows "dispatch (ensure_msg new p) =
    bind_res (drain (current p) (buffer p) ((ensure_msg new p)\<lparr>buffer := []\<rparr>))
      (\<lambda>(p', rest). Inr (p'\<lparr>buffer := rest\<rparr>))"
proof -
  have "tail_state (ensure_msg new p) < 0" "buffer (ensure_msg new p) = buffer p"
    using assms by (auto simp: mode_ok_def ensure_msg_def)
  then show ?thesis by (simp add: dispatch_current locate_def)
qed

lemma parse_loop_nil [simp]: "buffer p = [] \<Longrightarrow> parse_loop new p = Some (Inr p)"
  by (simp add: parse_loop.simps)

lemma parse_loop_step:
  assumes "mode_ok p" "buffer p \<noteq> []"
  shows "parse_loop new p = (case drain (current p) (buffer p) ((ensure_msg new p)\<lparr>buffer := []\<rparr>) of
      Inl e \<Rightarrow> Some (Inl e)
    | Inr (p', rest) \<Rightarrow> parse_loop new (finish_msg (p'\<lparr>buffer := rest\<rparr>)))"
  by (subst parse_loop.simps)
    (use assms in \<open>simp add: dispatch_start bind_res_def split: sum.splits prod.splits\<close>)

lemma parse_loop_total:
  "mode_ok p \<Longrightarrow> \<exists>r. parse_loop new p = Some r \<and> (\<forall>p'. r = Inr p' \<longrightarrow> buffer p' = [] \<and> mode_ok p')"
proof (induction "length (buffer p)" arbitrary: p rule: less_induct)
  case less
  show ?case
  proof (cases "buffer p = []")
    case True
    then show ?thesis using less.prems by simp
  next
    case False
    let ?s = "(ensure_msg new p)\<lparr>buffer := []\<rparr>"
    show ?thesis
    proof (cases "drain (current ?s) (buffer p) ?s")
      case (Inl e)
      then show ?thesis using less.prems False by (simp add: parse_loop_step)
    next
      case (Inr r)
      obtain p' rest where r: "r = (p', rest)" by fastforce
      have res: "length rest < length (buffer p) \<and> (mode_ok p' \<or> tail_state p' = 0)"
        using drain_result [OF settled_start [OF less.prems] Inr [unfolded r] False] by blast
      then have "mode_ok (finish_msg (p'\<lparr>buffer := rest\<rparr>))"
        by (intro mode_ok_finish) (auto simp: mode_ok_def)
      from less.hyps [OF _ this] res obtain r' where
        "parse_loop new (finish_msg (p'\<lparr>buffer := rest\<rparr>)) = Some r'
         \<and> (\<forall>p'. r' = Inr p' \<longrightarrow> buffer p' = [] \<and> mode_ok p')"
        by auto
      then show ?thesis using less.prems False Inr r by (simp add: parse_loop_step)
    qed
  qed
qed

lemma mode_ok_buffer [simp]: "mode_ok (p\<lparr>buffer := b\<rparr>) = mode_ok p"
  by (simp add: mode_ok_def)

text \<open>The states a parser goes through: created, fed any bytes, and emptied of messages.\<close>

inductive reached :: "parser \<Rightarrow> bool" where
  start: "reached init_parser"
| fed: "reached p \<Longrightarrow> parse new buf p = Some (Inr p') \<Longrightarrow> reached p'"
| taken: "reached p \<Longrightarrow> getMessage p = (m, p') \<Longrightarrow> reached p'"

lemma reached_mode_ok: "reached p \<Longrightarrow> mode_ok p \<and> buffer p = []"
proof (induction rule: reached.induct)
  case start
  show ?case by (simp add: mode_ok_def init_parser_def)
next
  case (fed p new buf p')
  then show ?case using parse_loop_total [of "p\<lparr>buffer := buffer p @ buf\<rparr>" new] by (auto simp: parse_def)
next
  case (taken p m p')
  then show ?case by (auto simp: getMessage_def mode_ok_def split: list.splits)
qed

text \<open>
  C7. Whatever bytes it has been fed, the parser returns from every further call of \<open>parse\<close>, by an
  exception or normally; a normal return leaves no byte in the queue, an unfinished tail, and a state
  from which the next call returns again.
\<close>

theorem parse_returns:
  assumes "reached p"
  shows "\<exists>r. parse new buf p = Some r
    \<and> (\<forall>p'. r = Inr p' \<longrightarrow> buffer p' = [] \<and> tail_state p' < 0 \<and> reached p')"
proof -
  have "mode_ok (p\<lparr>buffer := buffer p @ buf\<rparr>)"
    using reached_mode_ok [OF assms] by simp
  from parse_loop_total [OF this, of new] obtain r where r: "parse new buf p = Some r"
    "\<forall>p'. r = Inr p' \<longrightarrow> buffer p' = [] \<and> mode_ok p'"
    by (auto simp: parse_def)
  then show ?thesis using reached.fed [OF assms, of new buf] by (auto simp: mode_ok_def)
qed

theorem parse_returns_witness:
  "\<exists>r. parse blank_message ''MSG'' init_parser = Some r
    \<and> (\<forall>p'. r = Inr p' \<longrightarrow> buffer p' = [] \<and> tail_state p' < 0 \<and> reached p')"
  by (rule parse_returns [OF reached.start])

lemma finish_msg_buffer: "finish_msg (p\<lparr>buffer := b\<rparr>) = (finish_msg p)\<lparr>buffer := b\<rparr>"
  by (simp add: finish_msg_def reset_state_def)

lemma ensure_msg_buffer: "ensure_msg new (p\<lparr>buffer := b\<rparr>) = (ensure_msg new p)\<lparr>buffer := b\<rparr>"
  by (simp add: ensure_msg_def)

lemma settled_same: "settled p \<Longrightarrow> ensure_msg new p = p \<and> finish_msg p = p \<and> p\<lparr>buffer := []\<rparr> = p"
  by (cases p) (auto simp: settled_def mode_ok_def ensure_msg_def finish_msg_def)

lemma settled_buffer: "settled p \<Longrightarrow> p\<lparr>buffer := []\<rparr> = p"
  using settled_same by blast

lemma parse_loop_append_step:
  assumes "mode_ok p" "buffer p \<noteq> []"
    and "drain (current p) (buffer p) ((ensure_msg new p)\<lparr>buffer := []\<rparr>) = Inr (p', rest)"
    and "parse_loop new (finish_msg (p'\<lparr>buffer := rest\<rparr>)) = Some (Inr p1)" "\<not> swallowing p1"
    and IH: "parse_loop new ((finish_msg p')\<lparr>buffer := rest @ ys\<rparr>) = parse_loop new (p1\<lparr>buffer := ys\<rparr>)"
  shows "parse_loop new (p\<lparr>buffer := buffer p @ ys\<rparr>) = parse_loop new (p1\<lparr>buffer := ys\<rparr>)"
proof -
  let ?s = "(ensure_msg new p)\<lparr>buffer := []\<rparr>"
  note s = settled_start [OF assms(1), of new]
  have d: "drain (current ?s) (buffer p) ?s = Inr (p', rest)" using assms(3) by simp
  note res = drain_result [OF s d assms(2)]
  have nsw: "\<not> swallowing p'"
  proof
    assume sw: "swallowing p'"
    then have rest: "rest = []" using res by (auto simp: swallowing_def)
    have "finish_msg (p'\<lparr>buffer := rest\<rparr>) = p'\<lparr>buffer := rest\<rparr>"
      using sw by (simp add: finish_msg_def swallowing_def)
    then have "p1 = p'\<lparr>buffer := rest\<rparr>" using rest assms(4) by simp
    then show False using sw assms(5) by (simp add: swallowing_def)
  qed
  have eq: "parse_loop new (p\<lparr>buffer := buffer p @ ys\<rparr>) = (case drain (current p) (buffer p @ ys) ?s of
      Inl e \<Rightarrow> Some (Inl e) | Inr (p', rest) \<Rightarrow> parse_loop new (finish_msg (p'\<lparr>buffer := rest\<rparr>)))"
    using parse_loop_step [of "p\<lparr>buffer := buffer p @ ys\<rparr>" new] assms(1,2)
    by (simp add: ensure_msg_buffer)
  from drain_append [OF s d nsw, of ys] show ?thesis
  proof
    assume "drain (current ?s) (buffer p @ ys) ?s = Inr (p', rest @ ys)"
    then show ?thesis using eq IH by (simp add: finish_msg_buffer)
  next
    assume b: "rest = [] \<and> settled p' \<and> drain (current ?s) (buffer p @ ys) ?s = drain (current p') ys p'"
    then have "p'\<lparr>buffer := rest\<rparr> = p'" "finish_msg p' = p'" and "buffer p' = []"
      using settled_same [of p' new] by (simp_all add: settled_def)
    then have p1: "p1 = p'"
      using assms(4) by (simp only: parse_loop_nil option.inject sum.inject)
    show ?thesis
    proof (cases "ys = []")
      case True
      then show ?thesis using eq b p1 settled_same [of p' new] by simp
    next
      case False
      have "parse_loop new (p'\<lparr>buffer := ys\<rparr>) = (case drain (current p') ys p' of
          Inl e \<Rightarrow> Some (Inl e) | Inr (p', rest) \<Rightarrow> parse_loop new (finish_msg (p'\<lparr>buffer := rest\<rparr>)))"
      proof -
        have "mode_ok p'" "ensure_msg new p' = p'"
          using b settled_same [of p' new] by (simp_all add: settled_def)
        then show ?thesis
          using parse_loop_step [of "p'\<lparr>buffer := ys\<rparr>" new] b False
          by (simp add: ensure_msg_buffer settled_buffer)
      qed
      then show ?thesis using eq b p1 by simp
    qed
  qed
qed

lemma parse_loop_append:
  assumes "mode_ok p" "parse_loop new p = Some (Inr p1)" "\<not> swallowing p1"
  shows "parse_loop new (p\<lparr>buffer := buffer p @ ys\<rparr>) = parse_loop new (p1\<lparr>buffer := ys\<rparr>)"
  using assms(1,2)
proof (induction "length (buffer p)" arbitrary: p rule: less_induct)
  case less
  show ?case
  proof (cases "buffer p = []")
    case True
    then show ?thesis using less.prems by simp
  next
    case False
    obtain p' rest where d: "drain (current p) (buffer p) ((ensure_msg new p)\<lparr>buffer := []\<rparr>) = Inr (p', rest)"
      and l: "parse_loop new (finish_msg (p'\<lparr>buffer := rest\<rparr>)) = Some (Inr p1)"
      using less.prems False by (auto simp: parse_loop_step split: sum.splits prod.splits)
    have res: "length rest < length (buffer p) \<and> (mode_ok p' \<or> tail_state p' = 0)"
      using drain_result [OF settled_start [OF less.prems(1)], of new "buffer p" p' rest] d False by simp
    then have "mode_ok (finish_msg (p'\<lparr>buffer := rest\<rparr>))"
      by (intro mode_ok_finish) auto
    from less.hyps [OF _ this l] res
    have "parse_loop new ((finish_msg p')\<lparr>buffer := rest @ ys\<rparr>) = parse_loop new (p1\<lparr>buffer := ys\<rparr>)"
      by (simp add: finish_msg_buffer)
    then show ?thesis by (rule parse_loop_append_step [OF less.prems(1) False d l assms(3)])
  qed
qed

text \<open>
  C9. The parser is incremental: feeding \<open>xs\<close> and then \<open>ys\<close> is feeding \<open>xs @ ys\<close>, so the result does
  not depend on how the network cuts the stream. The one exception is the state left by a \<open>size\<close>
  option that wraps the body counter to zero.
\<close>

theorem parse_chunks:
  assumes "reached p" "parse new xs p = Some (Inr p1)" "\<not> swallowing p1"
  shows "parse new (xs @ ys) p = parse new ys p1"
proof -
  note p = reached_mode_ok [OF assms(1)]
  have "buffer p1 = []"
    using reached_mode_ok [OF reached.fed [OF assms(1,2)]] by simp
  then show ?thesis
    using parse_loop_append [of "p\<lparr>buffer := xs\<rparr>" new p1 ys] p assms(2,3) by (simp add: parse_def)
qed

theorem parse_chunks_witness:
  "parse blank_message (''M'' @ ''x'') init_parser =
     parse blank_message ''x'' (init_parser\<lparr>head_state := -4, temp_buffer := ''M'', temp_msg := Some blank_message\<rparr>)"
proof -
  let ?p1 = "init_parser\<lparr>head_state := -4, temp_buffer := ''M'', temp_msg := Some blank_message\<rparr>"
  have "parse blank_message ''M'' init_parser = Some (Inr ?p1)"
    by (simp add: parse_def parse_loop_step mode_ok_def init_parser_def ensure_msg_def current_def
        head_byte_def finish_msg_def)
  moreover have "\<not> swallowing ?p1" by (simp add: swallowing_def)
  ultimately show ?thesis by (rule parse_chunks [OF reached.start])
qed

section \<open>A whole message on the stream\<close>

lemma drain_skip:
  assumes "\<And>c q. c \<in> set xs \<Longrightarrow> P q \<Longrightarrow> f c q = Inr (q, False)"
    and "\<And>q b. P q \<Longrightarrow> P (q\<lparr>temp_buffer := b\<rparr>)" and "P p"
  shows "drain f (xs @ ys) p = drain f ys (p\<lparr>temp_buffer := temp_buffer p @ xs\<rparr>)"
  using assms(1,3)
proof (induction xs arbitrary: p)
  case (Cons x xs)
  let ?q = "p\<lparr>temp_buffer := temp_buffer p @ [x]\<rparr>"
  have "P ?q" using Cons.prems(2) assms(2) by blast
  moreover have "f x ?q = Inr (?q, False)" using Cons.prems(1) \<open>P ?q\<close> by simp
  ultimately show ?case using Cons.IH [of ?q] Cons.prems(1) by simp
qed simp

definition no_CR :: "opt \<Rightarrow> bool" where
  "no_CR op \<longleftrightarrow> CHR 0x0D \<notin> set (opt_key op) \<and> CHR 0x0D \<notin> set (opt_val op)"

lemma show_int_CR: "CHR 0x0D \<notin> set (show_int i)"
  by (rule show_int_avoids)

lemma drain_head:
  assumes "head_ok m" "head_state p = -5" "temp_buffer p = []" "temp_msg p = Some m0"
  shows "drain head_byte (head_bytes m @ rest) p =
    Inr (p\<lparr>head_state := 0, temp_msg := Some (setHead (tid m) (mtype m) m0), temp_buffer := []\<rparr>, rest)"
proof -
  let ?mid = "'' '' @ show_int (version m) @ '' '' @ show_int (mtype m) @ '' '' @ show_int (tid m)"
  have bytes: "head_bytes m = ''MSG'' @ ?mid @ CRLF"
    by (simp add: head_bytes_def encode_head_def msg_head_def)
  have "drain head_byte (head_bytes m @ rest) p =
      drain head_byte (?mid @ CRLF @ rest) (p\<lparr>head_state := -2, temp_buffer := ''MSG''\<rparr>)"
    using assms(2,3) by (simp add: bytes head_byte_def)
  also have "\<dots> = drain head_byte (CRLF @ rest) (p\<lparr>head_state := -2, temp_buffer := ''MSG'' @ ?mid\<rparr>)"
    by (subst drain_skip [where P = "\<lambda>q. head_state q = -2"])
      (auto simp: head_byte_def show_int_CR)
  also have "\<dots> = Inr (p\<lparr>head_state := 0, temp_msg := Some (setHead (tid m) (mtype m) m0), temp_buffer := []\<rparr>, rest)"
    using decode_head_encode [OF assms(1), of "[]" m0] assms(4) bytes
    by (simp add: CRLF_def head_byte_def decode_temp_def decodeMessageHead_def)
  finally show ?thesis .
qed

lemma drain_option:
  assumes "no_CR op" "option_state p = -4"
  shows "drain option_byte (encode_option op @ rest) p =
    drain option_byte rest (p\<lparr>temp_buffer := temp_buffer p @ encode_option op\<rparr>)"
proof -
  let ?mid = "opt_key op @ [CHR 0x22, CHR '':'', CHR 0x22] @ opt_val op @ [CHR 0x22]"
  have bytes: "encode_option op = CHR 0x22 # ?mid @ CRLF"
    by (simp add: encode_option_Cons)
  have "drain option_byte (encode_option op @ rest) p =
      drain option_byte (?mid @ CRLF @ rest) (p\<lparr>temp_buffer := temp_buffer p @ [CHR 0x22], option_state := -3\<rparr>)"
    using assms(2) by (simp add: bytes option_byte_def)
  also have "\<dots> = drain option_byte (CRLF @ rest)
      (p\<lparr>option_state := -3, temp_buffer := temp_buffer p @ CHR 0x22 # ?mid\<rparr>)"
    using assms(1) by (subst drain_skip [where P = "\<lambda>q. option_state q = -3"])
      (auto simp: option_byte_def no_CR_def)
  also have "\<dots> = drain option_byte rest (p\<lparr>temp_buffer := temp_buffer p @ encode_option op\<rparr>)"
  proof -
    have "p\<lparr>temp_buffer := b, option_state := -4\<rparr> = p\<lparr>temp_buffer := b\<rparr>" for b
      using assms(2) by (cases p) simp
    then show ?thesis by (simp add: CRLF_def option_byte_def bytes)
  qed
  finally show ?thesis .
qed

lemma drain_options:
  assumes "\<forall>op \<in> set ops. no_CR op" "option_state p = -4"
  shows "drain option_byte (option_bytes ops @ rest) p =
    drain option_byte rest (p\<lparr>temp_buffer := temp_buffer p @ option_bytes ops\<rparr>)"
  using assms
proof (induction ops arbitrary: p)
  case Nil
  then show ?case by (simp add: option_bytes_def)
next
  case (Cons op ops)
  then show ?case
    using drain_option [of op p "option_bytes ops @ rest"] by (simp add: option_bytes_def)
qed

lemma drain_digits:
  assumes "\<forall>c \<in> set ds. is_digit c" "ds \<noteq> []" "option_state p = -4"
  shows "drain option_byte (ds @ rest) p =
    drain option_byte rest (p\<lparr>option_state := -3, temp_buffer := temp_buffer p @ ds\<rparr>)"
proof -
  obtain d ds' where ds: "ds = d # ds'" using assms(2) by (cases ds) auto
  have "option_byte d q = Inr (q\<lparr>option_state := -3\<rparr>, False)" if "option_state q = -4" for q
  proof -
    have "47 < schar d \<and> schar d < 58"
      using assms(1) ds by (auto simp: is_digit_def schar_code)
    moreover from this have "d \<noteq> CHR 0x22" "d \<noteq> CHR 0x0D" by (auto simp: schar_def code_def)
    ultimately show ?thesis using that by (simp add: option_byte_def)
  qed
  then have "drain option_byte (ds @ rest) p =
      drain option_byte (ds' @ rest) (p\<lparr>temp_buffer := temp_buffer p @ [d], option_state := -3\<rparr>)"
    using assms(3) by (simp add: ds)
  also have "\<dots> = drain option_byte rest (p\<lparr>option_state := -3, temp_buffer := temp_buffer p @ ds\<rparr>)"
    using assms(1) by (subst drain_skip [where P = "\<lambda>q. option_state q = -3"])
      (auto simp: option_byte_def ds is_digit_def code_def)
  finally show ?thesis .
qed

lemma drain_hash:
  assumes "option_state p = -4"
  shows "drain option_byte (show_int h @ rest) p =
    drain option_byte rest (p\<lparr>option_state := -3, temp_buffer := temp_buffer p @ show_int h\<rparr>)"
proof (cases "h < 0")
  case True
  have minus: "option_byte (CHR ''-'') q = Inr (q, False)" if "option_state q = -4" for q
    using that by (simp add: option_byte_def schar_def code_def)
  show ?thesis
    using drain_digits [of "show_nat (nat (- h))" "p\<lparr>temp_buffer := temp_buffer p @ ''-''\<rparr>" rest]
      assms True minus show_nat_digits by (simp add: show_int_def)
next
  case False
  then show ?thesis
    using drain_digits [of "show_nat (nat h)" p rest] assms show_nat_digits by (simp add: show_int_def)
qed

lemma drain_option_block:
  assumes clean: "\<forall>op \<in> set ops. clean_option op \<and> no_CR op" and "ops \<noteq> []"
    and "length (option_bytes ops) < 2 ^ 31" and h: "- (2 ^ 15) \<le> h" "h < 2 ^ 15"
    and p: "option_state p = -4" "temp_buffer p = []" "temp_msg p = Some m"
  shows "drain option_byte (option_block ops h @ rest) p =
    Inr (if h = hash_of (option_bytes ops)
         then p\<lparr>option_state := 0, temp_msg := Some (add_all ops m)\<rparr>
         else reset_state (p\<lparr>temp_msg := Some (add_all ops m)\<rparr>), rest)"
proof -
  have ne: "option_bytes ops \<noteq> []"
    using assms(2) by (cases ops) (simp_all add: option_bytes_def encode_option_def)
  have "drain option_byte (option_block ops h @ rest) p =
      drain option_byte (CRLF @ CRLF @ rest)
        (p\<lparr>option_state := -3, temp_buffer := option_bytes ops @ show_int h\<rparr>)"
    using clean p by (simp add: option_block_def drain_options drain_hash)
  also have "\<dots> = bind_res (decode_temp decodeMessageOption
      (p\<lparr>option_state := -1, temp_buffer := option_block ops h\<rparr>)) (\<lambda>(p, ok).
        if \<not> ok then Inr (reset_state p, rest)
        else Inr (p\<lparr>option_state := option_state p + 1, temp_buffer := []\<rparr>, rest))"
    by (simp add: CRLF_def option_byte_def option_block_def bind_res_def split: sum.splits prod.splits)
  also have "decode_temp decodeMessageOption (p\<lparr>option_state := -1, temp_buffer := option_block ops h\<rparr>) =
      Inr (p\<lparr>option_state := -1, temp_buffer := option_block ops h, temp_msg := Some (add_all ops m)\<rparr>,
        h = hash_of (option_bytes ops))"
    using decode_options_block [of ops "[]" h "[]" m] assms ne
    by (simp add: decode_temp_def decodeMessageOption_def)
  finally show ?thesis
    using p by (auto simp: reset_state_def)
qed

lemma drain_body_count:
  assumes "body_state p = int n + int k" "0 < n" "length xs = k"
  shows "drain body_byte (xs @ rest) p =
    drain body_byte rest (p\<lparr>temp_buffer := temp_buffer p @ xs, body_state := int n\<rparr>)"
  using assms
proof (induction xs arbitrary: p k)
  case Nil
  then have "p\<lparr>body_state := int n\<rparr> = p" by (cases p) simp
  moreover have "p\<lparr>temp_buffer := temp_buffer p\<rparr> = p" by simp
  ultimately show ?case by simp
next
  case (Cons x xs)
  then obtain k' where k: "k = Suc k'" by (cases k) auto
  let ?q = "p\<lparr>temp_buffer := temp_buffer p @ [x], body_state := body_state p - 1\<rparr>"
  have "body_byte x (p\<lparr>temp_buffer := temp_buffer p @ [x]\<rparr>) = Inr (?q, False)"
    using Cons.prems k by (simp add: body_byte_def body_size_def)
  then show ?case
    using Cons.IH [of ?q k'] Cons.prems k by simp
qed

lemma body_byte_start:
  assumes "body_state p = -1" "temp_msg p = Some m" "getValue m ''size'' = Inr (show_nat n)" "n < 2 ^ 31"
  shows "body_byte c p = Inr (p\<lparr>body_state := int n + 1\<rparr>, False)"
proof -
  have "stoul (show_nat n) = Inr (word_of_nat n)"
    using assms(4) by (intro stoul_show_nat) simp
  moreover have "sint (word_of_nat n + 2 :: u64) = int n + 2"
  proof -
    have "(word_of_nat n + 2 :: u64) = word_of_int (int n + 2)" by simp
    then show ?thesis using assms(4) by (simp only: sint_sbintrunc') (simp add: signed_take_bit_int_eq_self)
  qed
  ultimately show ?thesis
    using assms by (simp add: body_byte_def body_size_def)
qed

lemma drain_body:
  assumes "body_state p = -1" "temp_buffer p = []" "temp_msg p = Some m"
    and "getValue m ''size'' = Inr (show_nat (length d))" "length d < 2 ^ 31"
  shows "drain body_byte (d @ CRLF @ rest) p =
    Inr (p\<lparr>body_state := 0, temp_msg := Some (pushData d m)\<rparr>, rest)"
proof -
  obtain x xs where x: "d @ [CHR 0x0D] = x # xs" by (cases "d @ [CHR 0x0D]") auto
  then have len: "length xs = length d" by (metis length_append_singleton length_Cons nat.inject)
  have split: "d @ CRLF @ rest = x # xs @ [CHR 0x0A] @ rest"
    using x by (simp add: CRLF_def flip: append_Cons)
  have "drain body_byte (d @ CRLF @ rest) p =
      drain body_byte (xs @ [CHR 0x0A] @ rest) (p\<lparr>temp_buffer := [x], body_state := int (length d) + 1\<rparr>)"
    using assms body_byte_start [of "p\<lparr>temp_buffer := [x]\<rparr>" m "length d" x] by (simp add: split)
  also have "\<dots> = drain body_byte ([CHR 0x0A] @ rest) (p\<lparr>body_state := 1, temp_buffer := d @ [CHR 0x0D]\<rparr>)"
    using drain_body_count [of "p\<lparr>temp_buffer := [x], body_state := int (length d) + 1\<rparr>" 1 "length d" xs] len x
    by simp
  also have "\<dots> = Inr (p\<lparr>body_state := 0, temp_msg := Some (pushData d m)\<rparr>, rest)"
    using decode_body_data [OF assms(4,5), of "[]" "[]"] assms(2,3)
    by (simp add: body_byte_def body_size_def decode_temp_def decodeMessageBody_def CRLF_def)
  finally show ?thesis .
qed

lemma drain_tail:
  assumes "tail_state p = -4" "temp_buffer p = []" "temp_msg p = Some m"
  shows "drain tail_byte (msg_tail @ rest) p = Inr (p\<lparr>tail_state := 0\<rparr>, rest)"
  using assms decode_tail_tail [of "[]" "[]" m]
  by (simp add: msg_tail_def tail_byte_def decode_temp_def decodeMessageTail_def)

definition fresh :: "parser \<Rightarrow> bool" where
  "fresh p \<longleftrightarrow> head_state p = -5 \<and> option_state p = -4 \<and> body_state p = -1 \<and> tail_state p = -4
     \<and> buffer p = [] \<and> temp_buffer p = []"

definition started :: "message \<Rightarrow> parser \<Rightarrow> message" where
  "started new p = (case temp_msg p of None \<Rightarrow> new | Some m \<Rightarrow> m)"

lemma parse_segment:
  assumes "mode_ok p" "buffer p = seg @ rest" "seg \<noteq> []"
    and "drain (current p) (seg @ rest) ((ensure_msg new p)\<lparr>buffer := []\<rparr>) = Inr (p', rest)"
  shows "parse_loop new p = parse_loop new (finish_msg (p'\<lparr>buffer := rest\<rparr>))"
  using assms by (simp add: parse_loop_step)

lemma ensure_started: "ensure_msg new p = p\<lparr>temp_msg := Some (started new p)\<rparr>"
  by (cases p; cases "temp_msg p") (simp_all add: ensure_msg_def started_def)

lemma getValue_add_all:
  assumes "distinct (map opt_key ops)" "get_value ops k = Inr v"
  shows "getValue (add_all ops m) k = Inr v"
  using assms
proof (induction ops arbitrary: m)
  case (Cons op ops)
  show ?case
  proof (cases "opt_key op = k")
    case True
    have "getValue (add_all ops m') k = getValue m' k" if "k \<notin> opt_key ` set ops" for ops m'
      using that by (induction ops arbitrary: m') (auto simp: add_all_def)
    from this [of ops "addOption (opt_key op) (opt_val op) m"] show ?thesis
      using True Cons.prems by (auto simp: add_all_def)
  next
    case False
    then show ?thesis
      using Cons.IH [of "addOption (opt_key op) (opt_val op) m"] Cons.prems by (simp add: add_all_def)
  qed
qed simp

lemma parse_head_segment:
  assumes "fresh p" "head_ok m"
  shows "parse_loop new (p\<lparr>buffer := head_bytes m @ rest\<rparr>) =
    parse_loop new (p\<lparr>head_state := 0, temp_msg := Some (setHead (tid m) (mtype m) (started new p)), buffer := rest\<rparr>)"
proof -
  let ?p = "p\<lparr>buffer := head_bytes m @ rest\<rparr>"
  let ?p' = "p\<lparr>head_state := 0, temp_msg := Some (setHead (tid m) (mtype m) (started new p))\<rparr>"
  have "drain (current ?p) (head_bytes m @ rest) ((ensure_msg new ?p)\<lparr>buffer := []\<rparr>) = Inr (?p', rest)"
    using assms drain_head [OF assms(2), of "p\<lparr>temp_msg := Some (started new p)\<rparr>" "started new p" rest]
    by (cases p) (simp add: fresh_def current_def ensure_started started_def)
  from parse_segment [OF _ _ _ this] show ?thesis
    using assms by (simp add: fresh_def mode_ok_def finish_msg_def)
qed

lemma parser_stream_lemma:
  assumes "fresh p" and wf: "wf_message m" "\<forall>op \<in> set (options m). no_CR op"
    and len: "length (option_bytes (options m)) < 2 ^ 31" and h: "- (2 ^ 15) \<le> h" "h < 2 ^ 15"
    and m1: "m1 = add_all (options m) (setHead (tid m) (mtype m) (started new p))"
  shows "parse new (head_bytes m @ option_block (options m) h @ data m @ CRLF @ msg_tail) p =
    (if h = hash_of (option_bytes (options m))
     then Some (Inr (p\<lparr>msgs := msgs p @ [pushData (data m) m1], temp_msg := None\<rparr>))
     else parse new (data m @ CRLF @ msg_tail) (p\<lparr>temp_msg := Some (clear m1)\<rparr>))"
proof -
  let ?d = "data m @ CRLF @ msg_tail"
  let ?p1 = "p\<lparr>head_state := 0, temp_msg := Some (setHead (tid m) (mtype m) (started new p)), buffer := option_block (options m) h @ ?d\<rparr>"
  let ?p2 = "p\<lparr>head_state := 0, option_state := 0, temp_msg := Some m1\<rparr>"
  let ?ok = "h = hash_of (option_bytes (options m))"
  have head: "parse new (head_bytes m @ option_block (options m) h @ ?d) p = parse_loop new ?p1"
    using parse_head_segment [OF assms(1), of m new] assms(1) wf(1)
    by (simp add: parse_def fresh_def wf_message_def)
  have size: "getValue m ''size'' = Inr (show_nat (length (data m)))" and ne: "options m \<noteq> []"
    using wf(1) by (auto simp: wf_message_def getValue_def)
  have blk: "option_block (options m) h \<noteq> []" by (simp add: option_block_def)
  have "drain (current ?p1) (option_block (options m) h @ ?d) ((ensure_msg new ?p1)\<lparr>buffer := []\<rparr>) =
      Inr (if ?ok then ?p2 else p\<lparr>temp_msg := Some (clear m1)\<rparr>, ?d)"
    using drain_option_block [of "options m" h "(ensure_msg new ?p1)\<lparr>buffer := []\<rparr>"
        "setHead (tid m) (mtype m) (started new p)" ?d] ne wf len h assms(1)
    by (cases p) (auto simp: current_def fresh_def ensure_msg_def wf_message_def m1 reset_state_def)
  from parse_segment [OF _ _ blk this]
  have opts: "parse_loop new ?p1 = parse_loop new ((if ?ok then ?p2 else p\<lparr>temp_msg := Some (clear m1)\<rparr>)\<lparr>buffer := ?d\<rparr>)"
    using assms(1) by (simp add: mode_ok_def fresh_def finish_msg_def)
  show ?thesis
  proof (cases ?ok)
    case False
    then show ?thesis using head opts assms(1) by (simp add: parse_def fresh_def)
  next
    case True
    let ?p3 = "p\<lparr>head_state := 0, option_state := 0, body_state := 0, temp_msg := Some (pushData (data m) m1)\<rparr>"
    have "getValue m1 ''size'' = Inr (show_nat (length (data m)))"
      unfolding m1 using wf(1) size
      by (intro getValue_add_all) (simp_all add: wf_message_def distinct_keys_def getValue_def)
    then have "drain (current ?p2) ((data m @ CRLF) @ msg_tail) ?p2 = Inr (?p3, msg_tail)"
      using drain_body [of ?p2 m1 "data m" msg_tail] assms(1) wf(1)
      by (cases p) (auto simp: current_def fresh_def wf_message_def)
    then have "parse_loop new (?p2\<lparr>buffer := ?d\<rparr>) = parse_loop new (?p3\<lparr>buffer := msg_tail\<rparr>)"
      using parse_segment [of "?p2\<lparr>buffer := ?d\<rparr>" "data m @ CRLF" msg_tail new ?p3] assms(1)
      by (cases p) (simp add: mode_ok_def fresh_def finish_msg_def ensure_msg_def CRLF_def current_def)
    also have "\<dots> = Some (Inr (p\<lparr>msgs := msgs p @ [pushData (data m) m1], temp_msg := None\<rparr>))"
    proof -
      have "drain (current ?p3) (msg_tail @ []) ?p3 = Inr (?p3\<lparr>tail_state := 0\<rparr>, [])"
        using drain_tail [of ?p3 "pushData (data m) m1" "[]"] assms(1) by (simp add: current_def fresh_def)
      then have "parse_loop new (?p3\<lparr>buffer := msg_tail\<rparr>) =
          parse_loop new (finish_msg (?p3\<lparr>tail_state := 0, buffer := []\<rparr>))"
        using parse_segment [of "?p3\<lparr>buffer := msg_tail\<rparr>" msg_tail "[]" new "?p3\<lparr>tail_state := 0\<rparr>"] assms(1)
        by (cases p) (simp add: mode_ok_def fresh_def ensure_msg_def msg_tail_def current_def)
      also have "finish_msg (?p3\<lparr>tail_state := 0, buffer := []\<rparr>) =
          p\<lparr>msgs := msgs p @ [pushData (data m) m1], temp_msg := None\<rparr>"
        using assms(1) by (cases p) (simp add: finish_msg_def reset_state_def fresh_def)
      finally show ?thesis using assms(1) by (simp add: fresh_def)
    qed
    finally show ?thesis using head opts True by simp
  qed
qed

text \<open>
  C5. What the streaming parser does with a message on the wire: it accepts it, with the transmitted
  head, options and data, when the checksum is the sum over the option lines alone; with any other
  checksum it throws the part read so far away and starts over with the body of the message.
\<close>

theorem parser_stream:
  assumes "fresh p" and wf: "wf_message m" "\<forall>op \<in> set (options m). no_CR op"
    and len: "length (option_bytes (options m)) < 2 ^ 31" and h: "- (2 ^ 15) \<le> h" "h < 2 ^ 15"
    and m1: "m1 = add_all (options m) (setHead (tid m) (mtype m) (started new p))"
  shows "parse new (head_bytes m @ option_block (options m) h @ data m @ CRLF @ msg_tail) p =
    (if h = hash_of (option_bytes (options m))
     then Some (Inr (p\<lparr>msgs := msgs p @ [pushData (data m) m1], temp_msg := None\<rparr>))
     else parse new (data m @ CRLF @ msg_tail) (p\<lparr>temp_msg := Some (clear m1)\<rparr>))"
  by (rule parser_stream_lemma [OF assms])

section \<open>The checksum that the factory sends\<close>

lemma length_show_int:
  assumes "\<bar>i\<bar> < 10 ^ 10"
  shows "length (show_int i) \<le> 11"
proof -
  have "length (show_nat (nat \<bar>i\<bar>)) \<le> Suc 9"
    using assms by (intro length_show_nat) simp
  then show ?thesis by (cases "i < 0") (simp_all add: show_int_def)
qed

lemma head_sum:
  assumes "head_ok m"
  shows "0 < sum_list (map schar (head_bytes m)) \<and> sum_list (map schar (head_bytes m)) < 65536"
proof -
  have ascii: "0 < schar c \<and> schar c < 128" if "c \<in> set (head_bytes m)" for c
  proof -
    have "is_digit c \<or> c \<in> set ''MSG -\<newline>'' \<or> c = CHR 0x0D"
      using that by (auto simp: head_bytes_def encode_head_def msg_head_def CRLF_def dest: show_int_chars)
    then have "0 < code c \<and> code c < 128" by (auto simp: is_digit_def code_def)
    then show ?thesis by (simp add: schar_code)
  qed
  have "length (head_bytes m) \<le> 41"
  proof -
    have "\<bar>version m\<bar> < 10 ^ 10" "\<bar>mtype m\<bar> < 10 ^ 10" "\<bar>tid m\<bar> < 10 ^ 10"
      using assms by (auto simp: head_ok_def MSG_VERSION_def)
    then have "length (show_int (version m)) \<le> 11" "length (show_int (mtype m)) \<le> 11"
      "length (show_int (tid m)) \<le> 11" by (blast intro: length_show_int)+
    then show ?thesis by (simp add: head_bytes_def encode_head_def msg_head_def)
  qed
  then have len: "int (length (head_bytes m)) \<le> 41" by simp
  have upper: "sum_list (map schar xs) \<le> 128 * int (length xs)" and
    lower: "0 \<le> sum_list (map schar xs)" if "\<forall>c \<in> set xs. 0 < schar c \<and> schar c < 128" for xs
    using that by (induction xs) auto
  have "sum_list (map schar (head_bytes m)) \<le> 128 * int (length (head_bytes m))"
    using ascii by (intro upper) blast
  with len have "sum_list (map schar (head_bytes m)) \<le> 128 * 41" by linarith
  moreover have "0 < sum_list (map schar (head_bytes m))"
  proof -
    obtain c cs where c: "head_bytes m = c # cs" by (cases "head_bytes m") auto
    then have "0 < schar c" "0 \<le> sum_list (map schar cs)"
      using ascii by (auto intro: lower)
    then show ?thesis by (simp add: c)
  qed
  ultimately show ?thesis by simp
qed

lemma to_int16_eqD:
  assumes "to_int16 x = to_int16 y"
  shows "65536 dvd x - y"
proof -
  have "take_bit 16 x = take_bit 16 y"
    using assms signed_take_bit_eq_iff_take_bit_eq [of 15 x y] by (simp add: to_int16_def)
  then show ?thesis by (simp add: take_bit_eq_mod mod_eq_dvd_iff)
qed

lemma hash_head_differs:
  assumes "head_ok m"
  shows "hash_of (head_bytes m @ xs) \<noteq> hash_of xs"
proof
  assume "hash_of (head_bytes m @ xs) = hash_of xs"
  then have "65536 dvd sum_list (map schar (head_bytes m))"
    by (auto simp: hash_of_def schar_sum_append dest!: to_int16_eqD)
  with head_sum [OF assms] show False by (auto dest: zdvd_imp_le)
qed

lemma parse_no_head:
  assumes "fresh p" "CHR ''M'' \<notin> set d"
  shows "\<exists>p'. parse new (d @ CRLF @ msg_tail) p = Some (Inr p') \<and> msgs p' = msgs p"
proof -
  let ?d = "d @ CRLF @ ''GS''"
  let ?q = "p\<lparr>temp_msg := Some (started new p), buffer := []\<rparr>"
  have "drain head_byte (?d @ [CHR ''M'']) ?q =
      drain head_byte [CHR ''M''] (?q\<lparr>temp_buffer := temp_buffer ?q @ ?d\<rparr>)"
    by (rule drain_skip [where P = "\<lambda>q. head_state q = -5"])
      (use assms in \<open>auto simp: head_byte_def fresh_def CRLF_def\<close>)
  also have "\<dots> = Inr (?q\<lparr>temp_buffer := ?d @ ''M'', head_state := -4\<rparr>, [])"
    using assms(1) by (simp add: head_byte_def fresh_def)
  finally have "drain head_byte (?d @ [CHR ''M'']) ?q = Inr (?q\<lparr>temp_buffer := ?d @ ''M'', head_state := -4\<rparr>, [])" .
  then have "parse_loop new (p\<lparr>buffer := ?d @ ''M''\<rparr>) =
      parse_loop new (finish_msg (?q\<lparr>temp_buffer := ?d @ ''M'', head_state := -4, buffer := []\<rparr>))"
    using assms(1) parse_segment [of "p\<lparr>buffer := ?d @ ''M''\<rparr>" "?d @ ''M''" "[]" new
        "?q\<lparr>temp_buffer := ?d @ ''M'', head_state := -4\<rparr>"]
    by (simp add: fresh_def mode_ok_def current_def ensure_started started_def)
  then show ?thesis
    using assms(1) by (simp add: parse_def fresh_def finish_msg_def msg_tail_def)
qed


definition sample :: message where
  "sample = pushData ''hi'' (setHead 7 1 (new_message ''d''))"

lemma sample_wf: "wf_message sample"
  unfolding sample_def by (rule wf_new_message) (simp_all add: clean_string_def)

lemma sample_options:
  "options sample = [mk_option ''date'' ''d'', mk_option ''size'' ''2'']"
  by (simp add: sample_def pushData_def setHead_def new_message_def blank_message_def addOption_def
      mk_option_def show_nat.simps)

lemma sample_sel [simp]: "data sample = ''hi''" "tid sample = 7" "mtype sample = 1"
  by (simp_all add: sample_def pushData_def setHead_def new_message_def Let_def)

lemma init_fresh: "fresh init_parser"
  by (simp add: fresh_def init_parser_def)

theorem parser_stream_witness:
  "\<exists>p'. parse blank_message
      (head_bytes sample @ option_block (options sample) (hash_of (option_bytes (options sample))) @ ''hi'' @ CRLF @ msg_tail)
      init_parser = Some (Inr p') \<and> map data (msgs p') = [''hi''] \<and> map tid (msgs p') = [7]"
proof -
  let ?h = "hash_of (option_bytes (options sample))"
  let ?m1 = "add_all (options sample) (setHead (tid sample) (mtype sample) (started blank_message init_parser))"
  have "\<forall>op \<in> set (options sample). no_CR op" "length (option_bytes (options sample)) < 2 ^ 31"
    by (simp_all add: sample_options no_CR_def mk_option_def option_bytes_def encode_option_def)
  moreover have "- (2 ^ 15) \<le> ?h" "?h < 2 ^ 15"
    using to_int16_range by (auto simp: hash_of_def)
  ultimately have "parse blank_message
      (head_bytes sample @ option_block (options sample) ?h @ data sample @ CRLF @ msg_tail) init_parser =
      Some (Inr (init_parser\<lparr>msgs := msgs init_parser @ [pushData (data sample) ?m1], temp_msg := None\<rparr>))"
    using parser_stream [OF init_fresh sample_wf, of ?h ?m1 blank_message] by simp
  moreover have "data (pushData ''hi'' ?m1) = ''hi''" "tid (pushData ''hi'' ?m1) = 7"
    by (simp_all add: sample_options add_all_def setHead_def started_def init_parser_def pushData_def)
  ultimately show ?thesis by (simp add: init_parser_def)
qed


text \<open>
  Two inputs that no handler of the parser deals with: a header line cut short makes the decoder read
  behind its buffer, and a header whose version is not a number leaves \<open>parse\<close> with the exception of
  \<open>std::stoi\<close>.
\<close>

theorem parse_bad_heads:
  "parse new (''MSG '' @ CRLF @ rest) init_parser = Some (Inl OutOfBounds)
   \<and> parse new (''MSG x y'' @ CRLF @ rest) init_parser = Some (Inl InvalidArgument)"
proof -
  have step: "parse new (bs @ CRLF @ rest) init_parser = Some (Inl e)"
    if bs: "bs = ''MSG '' @ b" "CHR 0x0D \<notin> set b" and d: "\<And>m. decode_head (bs @ CRLF) m = Inl e" for b bs e
  proof -
    let ?p = "init_parser\<lparr>temp_msg := Some new\<rparr>"
    have "drain head_byte ((''MSG '' @ b) @ CRLF @ rest) ?p =
        drain head_byte (b @ CRLF @ rest) (?p\<lparr>head_state := -2, temp_buffer := ''MSG ''\<rparr>)"
      by (simp add: head_byte_def init_parser_def)
    also have "\<dots> = drain head_byte (CRLF @ rest) (?p\<lparr>head_state := -2, temp_buffer := bs\<rparr>)"
      by (subst drain_skip [where P = "\<lambda>q. head_state q = -2"])
        (use bs in \<open>auto simp: head_byte_def\<close>)
    also have "\<dots> = Inl e"
      using d by (simp add: CRLF_def head_byte_def decode_temp_def decodeMessageHead_def)
    finally show ?thesis
      using bs by (simp add: parse_def parse_loop_step mode_ok_def init_parser_def ensure_msg_def current_def)
  qed
  have 1: "decode_head (''MSG '' @ CRLF) m = Inl OutOfBounds" for m
    by (simp add: decode_head_def msg_head_def CRLF_def numeral_eq_Suc at_def expect.simps scan_until.simps)
  have 2: "decode_head (''MSG x y'' @ CRLF) m = Inl InvalidArgument" for m
    by (simp add: decode_head_def msg_head_def CRLF_def numeral_eq_Suc at_def expect.simps scan_until.simps
        stoi_def strto_def is_space_def is_digit_def code_def)
  show ?thesis using step [OF _ _ 1, of "[]"] step [OF _ _ 2, of "''x y''"] by simp
qed

end
