(* ===== verification/AesCore.thy ===== *)
theory AesCore
  imports Prelude
begin

text \<open>
  The block cipher of \<^theory_text>\<open>src/src/aes.cpp\<close>, built for AES-256 as \<^theory_text>\<open>src/include/aes.h\<close>
  configures it: tables, key schedule, round steps, \<open>Cipher\<close> and \<open>InvCipher\<close>. A \<open>state_t\<close> is the
  flat array of its 16 bytes; the byte \<open>(*state)[i][j]\<close> has index \<open>4 * i + j\<close>. The main result is
  that \<open>InvCipher\<close> undoes \<open>Cipher\<close> for every round key array.
\<close>

section \<open>Tables\<close>

definition Nb :: nat where "Nb = 4"
definition Nk :: nat where "Nk = 8"
definition Nr :: nat where "Nr = 14"

definition sbox :: "byte list" where
  "sbox = [
   0x63, 0x7c, 0x77, 0x7b, 0xf2, 0x6b, 0x6f, 0xc5, 0x30, 0x01, 0x67, 0x2b, 0xfe, 0xd7, 0xab, 0x76,
   0xca, 0x82, 0xc9, 0x7d, 0xfa, 0x59, 0x47, 0xf0, 0xad, 0xd4, 0xa2, 0xaf, 0x9c, 0xa4, 0x72, 0xc0,
   0xb7, 0xfd, 0x93, 0x26, 0x36, 0x3f, 0xf7, 0xcc, 0x34, 0xa5, 0xe5, 0xf1, 0x71, 0xd8, 0x31, 0x15,
   0x04, 0xc7, 0x23, 0xc3, 0x18, 0x96, 0x05, 0x9a, 0x07, 0x12, 0x80, 0xe2, 0xeb, 0x27, 0xb2, 0x75,
   0x09, 0x83, 0x2c, 0x1a, 0x1b, 0x6e, 0x5a, 0xa0, 0x52, 0x3b, 0xd6, 0xb3, 0x29, 0xe3, 0x2f, 0x84,
   0x53, 0xd1, 0x00, 0xed, 0x20, 0xfc, 0xb1, 0x5b, 0x6a, 0xcb, 0xbe, 0x39, 0x4a, 0x4c, 0x58, 0xcf,
   0xd0, 0xef, 0xaa, 0xfb, 0x43, 0x4d, 0x33, 0x85, 0x45, 0xf9, 0x02, 0x7f, 0x50, 0x3c, 0x9f, 0xa8,
   0x51, 0xa3, 0x40, 0x8f, 0x92, 0x9d, 0x38, 0xf5, 0xbc, 0xb6, 0xda, 0x21, 0x10, 0xff, 0xf3, 0xd2,
   0xcd, 0x0c, 0x13, 0xec, 0x5f, 0x97, 0x44, 0x17, 0xc4, 0xa7, 0x7e, 0x3d, 0x64, 0x5d, 0x19, 0x73,
   0x60, 0x81, 0x4f, 0xdc, 0x22, 0x2a, 0x90, 0x88, 0x46, 0xee, 0xb8, 0x14, 0xde, 0x5e, 0x0b, 0xdb,
   0xe0, 0x32, 0x3a, 0x0a, 0x49, 0x06, 0x24, 0x5c, 0xc2, 0xd3, 0xac, 0x62, 0x91, 0x95, 0xe4, 0x79,
   0xe7, 0xc8, 0x37, 0x6d, 0x8d, 0xd5, 0x4e, 0xa9, 0x6c, 0x56, 0xf4, 0xea, 0x65, 0x7a, 0xae, 0x08,
   0xba, 0x78, 0x25, 0x2e, 0x1c, 0xa6, 0xb4, 0xc6, 0xe8, 0xdd, 0x74, 0x1f, 0x4b, 0xbd, 0x8b, 0x8a,
   0x70, 0x3e, 0xb5, 0x66, 0x48, 0x03, 0xf6, 0x0e, 0x61, 0x35, 0x57, 0xb9, 0x86, 0xc1, 0x1d, 0x9e,
   0xe1, 0xf8, 0x98, 0x11, 0x69, 0xd9, 0x8e, 0x94, 0x9b, 0x1e, 0x87, 0xe9, 0xce, 0x55, 0x28, 0xdf,
   0x8c, 0xa1, 0x89, 0x0d, 0xbf, 0xe6, 0x42, 0x68, 0x41, 0x99, 0x2d, 0x0f, 0xb0, 0x54, 0xbb, 0x16]"

definition rsbox :: "byte list" where
  "rsbox = [
   0x52, 0x09, 0x6a, 0xd5, 0x30, 0x36, 0xa5, 0x38, 0xbf, 0x40, 0xa3, 0x9e, 0x81, 0xf3, 0xd7, 0xfb,
   0x7c, 0xe3, 0x39, 0x82, 0x9b, 0x2f, 0xff, 0x87, 0x34, 0x8e, 0x43, 0x44, 0xc4, 0xde, 0xe9, 0xcb,
   0x54, 0x7b, 0x94, 0x32, 0xa6, 0xc2, 0x23, 0x3d, 0xee, 0x4c, 0x95, 0x0b, 0x42, 0xfa, 0xc3, 0x4e,
   0x08, 0x2e, 0xa1, 0x66, 0x28, 0xd9, 0x24, 0xb2, 0x76, 0x5b, 0xa2, 0x49, 0x6d, 0x8b, 0xd1, 0x25,
   0x72, 0xf8, 0xf6, 0x64, 0x86, 0x68, 0x98, 0x16, 0xd4, 0xa4, 0x5c, 0xcc, 0x5d, 0x65, 0xb6, 0x92,
   0x6c, 0x70, 0x48, 0x50, 0xfd, 0xed, 0xb9, 0xda, 0x5e, 0x15, 0x46, 0x57, 0xa7, 0x8d, 0x9d, 0x84,
   0x90, 0xd8, 0xab, 0x00, 0x8c, 0xbc, 0xd3, 0x0a, 0xf7, 0xe4, 0x58, 0x05, 0xb8, 0xb3, 0x45, 0x06,
   0xd0, 0x2c, 0x1e, 0x8f, 0xca, 0x3f, 0x0f, 0x02, 0xc1, 0xaf, 0xbd, 0x03, 0x01, 0x13, 0x8a, 0x6b,
   0x3a, 0x91, 0x11, 0x41, 0x4f, 0x67, 0xdc, 0xea, 0x97, 0xf2, 0xcf, 0xce, 0xf0, 0xb4, 0xe6, 0x73,
   0x96, 0xac, 0x74, 0x22, 0xe7, 0xad, 0x35, 0x85, 0xe2, 0xf9, 0x37, 0xe8, 0x1c, 0x75, 0xdf, 0x6e,
   0x47, 0xf1, 0x1a, 0x71, 0x1d, 0x29, 0xc5, 0x89, 0x6f, 0xb7, 0x62, 0x0e, 0xaa, 0x18, 0xbe, 0x1b,
   0xfc, 0x56, 0x3e, 0x4b, 0xc6, 0xd2, 0x79, 0x20, 0x9a, 0xdb, 0xc0, 0xfe, 0x78, 0xcd, 0x5a, 0xf4,
   0x1f, 0xdd, 0xa8, 0x33, 0x88, 0x07, 0xc7, 0x31, 0xb1, 0x12, 0x10, 0x59, 0x27, 0x80, 0xec, 0x5f,
   0x60, 0x51, 0x7f, 0xa9, 0x19, 0xb5, 0x4a, 0x0d, 0x2d, 0xe5, 0x7a, 0x9f, 0x93, 0xc9, 0x9c, 0xef,
   0xa0, 0xe0, 0x3b, 0x4d, 0xae, 0x2a, 0xf5, 0xb0, 0xc8, 0xeb, 0xbb, 0x3c, 0x83, 0x53, 0x99, 0x61,
   0x17, 0x2b, 0x04, 0x7e, 0xba, 0x77, 0xd6, 0x26, 0xe1, 0x69, 0x14, 0x63, 0x55, 0x21, 0x0c, 0x7d]"

definition Rcon :: "byte list" where
  "Rcon = [0x8d, 0x01, 0x02, 0x04, 0x08, 0x10, 0x20, 0x40, 0x80, 0x1b, 0x36]"

definition getSBoxValue :: "byte \<Rightarrow> byte" where "getSBoxValue num = sbox ! unat num"

definition getSBoxInvert :: "byte \<Rightarrow> byte" where "getSBoxInvert num = rsbox ! unat num"

section \<open>Key schedule\<close>

text \<open>
  \<open>RoundKey\<close> is written front to back; \<open>rk\<close> is the part written so far. One call of \<open>key_word\<close> is one
  iteration of the second loop: \<open>k = (i - 1) * 4\<close> and \<open>k = (i - Nk) * 4\<close> index that part.
\<close>

definition key_word :: "byte list \<Rightarrow> nat \<Rightarrow> byte list" where
  "key_word rk i =
     (let k = (i - 1) * 4;
          tempa = [rk ! (k + 0), rk ! (k + 1), rk ! (k + 2), rk ! (k + 3)];
          tempa = (if i mod Nk = 0
                   then let rot = [tempa ! 1, tempa ! 2, tempa ! 3, tempa ! 0];
                            sub = map getSBoxValue rot
                        in sub[0 := sub ! 0 XOR Rcon ! (i div Nk)]
                   else tempa);
          tempa = (if i mod Nk = 4 then map getSBoxValue tempa else tempa);
          k = (i - Nk) * 4
      in rk @ [rk ! (k + 0) XOR tempa ! 0, rk ! (k + 1) XOR tempa ! 1,
               rk ! (k + 2) XOR tempa ! 2, rk ! (k + 3) XOR tempa ! 3])"

definition KeyExpansion :: "byte list \<Rightarrow> byte list" where
  "KeyExpansion key = foldl key_word (take (4 * Nk) key) [Nk ..< Nb * (Nr + 1)]"

section \<open>Round steps\<close>

definition AddRoundKey :: "nat \<Rightarrow> byte list \<Rightarrow> byte list \<Rightarrow> byte list" where
  "AddRoundKey round st rk =
     map (\<lambda>n. st ! n XOR rk ! (round * Nb * 4 + (n div 4) * Nb + n mod 4)) [0 ..< 16]"

definition SubBytes :: "byte list \<Rightarrow> byte list" where
  "SubBytes st = map getSBoxValue st"

definition ShiftRows :: "byte list \<Rightarrow> byte list" where
  "ShiftRows st =
     (let temp = st ! 1; st = st[1 := st ! 5]; st = st[5 := st ! 9]; st = st[9 := st ! 13]; st = st[13 := temp];
          temp = st ! 2; st = st[2 := st ! 10]; st = st[10 := temp];
          temp = st ! 6; st = st[6 := st ! 14]; st = st[14 := temp];
          temp = st ! 3; st = st[3 := st ! 15]; st = st[15 := st ! 11]; st = st[11 := st ! 7]; st = st[7 := temp]
      in st)"

definition xtime :: "byte \<Rightarrow> byte" where
  "xtime x = push_bit 1 x XOR ((drop_bit 7 x AND 1) * 0x1b)"

definition mix_column :: "byte list \<Rightarrow> nat \<Rightarrow> byte list" where
  "mix_column st i =
     (let p = 4 * i; t = st ! p;
          Tmp = st ! p XOR st ! (p + 1) XOR st ! (p + 2) XOR st ! (p + 3);
          Tm = xtime (st ! p XOR st ! (p + 1)); st = st[p := st ! p XOR (Tm XOR Tmp)];
          Tm = xtime (st ! (p + 1) XOR st ! (p + 2)); st = st[p + 1 := st ! (p + 1) XOR (Tm XOR Tmp)];
          Tm = xtime (st ! (p + 2) XOR st ! (p + 3)); st = st[p + 2 := st ! (p + 2) XOR (Tm XOR Tmp)];
          Tm = xtime (st ! (p + 3) XOR t); st = st[p + 3 := st ! (p + 3) XOR (Tm XOR Tmp)]
      in st)"

definition MixColumns :: "byte list \<Rightarrow> byte list" where
  "MixColumns st = foldl mix_column st [0 ..< 4]"

definition Multiply :: "byte \<Rightarrow> byte \<Rightarrow> byte" where
  "Multiply x y =
     ((y AND 1) * x) XOR
     ((drop_bit 1 y AND 1) * xtime x) XOR
     ((drop_bit 2 y AND 1) * xtime (xtime x)) XOR
     ((drop_bit 3 y AND 1) * xtime (xtime (xtime x))) XOR
     ((drop_bit 4 y AND 1) * xtime (xtime (xtime (xtime x))))"

definition inv_mix_column :: "byte list \<Rightarrow> nat \<Rightarrow> byte list" where
  "inv_mix_column st i =
     (let p = 4 * i; a = st ! p; b = st ! (p + 1); c = st ! (p + 2); d = st ! (p + 3);
          st = st[p := Multiply a 0x0e XOR Multiply b 0x0b XOR Multiply c 0x0d XOR Multiply d 0x09];
          st = st[p + 1 := Multiply a 0x09 XOR Multiply b 0x0e XOR Multiply c 0x0b XOR Multiply d 0x0d];
          st = st[p + 2 := Multiply a 0x0d XOR Multiply b 0x09 XOR Multiply c 0x0e XOR Multiply d 0x0b];
          st = st[p + 3 := Multiply a 0x0b XOR Multiply b 0x0d XOR Multiply c 0x09 XOR Multiply d 0x0e]
      in st)"

definition InvMixColumns :: "byte list \<Rightarrow> byte list" where
  "InvMixColumns st = foldl inv_mix_column st [0 ..< 4]"

definition InvSubBytes :: "byte list \<Rightarrow> byte list" where
  "InvSubBytes st = map getSBoxInvert st"

definition InvShiftRows :: "byte list \<Rightarrow> byte list" where
  "InvShiftRows st =
     (let temp = st ! 13; st = st[13 := st ! 9]; st = st[9 := st ! 5]; st = st[5 := st ! 1]; st = st[1 := temp];
          temp = st ! 2; st = st[2 := st ! 10]; st = st[10 := temp];
          temp = st ! 6; st = st[6 := st ! 14]; st = st[14 := temp];
          temp = st ! 3; st = st[3 := st ! 7]; st = st[7 := st ! 11]; st = st[11 := st ! 15]; st = st[15 := temp]
      in st)"

section \<open>The cipher\<close>

definition Cipher :: "byte list \<Rightarrow> byte list \<Rightarrow> byte list" where
  "Cipher st rk =
     (let st = AddRoundKey 0 st rk;
          st = foldl (\<lambda>st round. AddRoundKey round (MixColumns (ShiftRows (SubBytes st))) rk) st [1 ..< Nr]
      in AddRoundKey Nr (ShiftRows (SubBytes st)) rk)"

definition InvCipher :: "byte list \<Rightarrow> byte list \<Rightarrow> byte list" where
  "InvCipher st rk =
     (let st = AddRoundKey Nr st rk;
          st = foldl (\<lambda>st round. InvMixColumns (AddRoundKey round (InvSubBytes (InvShiftRows st)) rk)) st (rev [1 ..< Nr])
      in AddRoundKey 0 (InvSubBytes (InvShiftRows st)) rk)"

section \<open>Each inverse step undoes its step\<close>

lemma sbox_table: "map (\<lambda>b. rsbox ! unat b) sbox = map word_of_nat [0 ..< 256]"
  by code_simp

lemma length_sbox [simp]: "length sbox = 256"
  by (simp add: sbox_def)

lemma sbox_inverse [simp]: "getSBoxInvert (getSBoxValue b) = b"
proof -
  have b: "unat b < 256" using unsigned_less [of b] by simp
  have "map (\<lambda>b. rsbox ! unat b) sbox ! unat b = map word_of_nat [0 ..< 256] ! unat b"
    by (simp only: sbox_table)
  with b show ?thesis by (simp add: getSBoxInvert_def getSBoxValue_def)
qed

lemma list16:
  assumes "length st = 16"
  obtains a0 a1 a2 a3 a4 a5 a6 a7 a8 a9 a10 a11 a12 a13 a14 a15
  where "st = [a0, a1, a2, a3, a4, a5, a6, a7, a8, a9, a10, a11, a12, a13, a14, a15]"
  using assms by (auto simp: numeral_eq_Suc length_Suc_conv)

lemma SubBytes_inverse: "InvSubBytes (SubBytes st) = st"
  by (simp add: InvSubBytes_def SubBytes_def comp_def)

lemma ShiftRows_inverse: "length st = 16 \<Longrightarrow> InvShiftRows (ShiftRows st) = st"
  by (erule list16) (simp add: ShiftRows_def InvShiftRows_def Let_def)

lemma AddRoundKey_nth: "n < 16 \<Longrightarrow>
    AddRoundKey round st rk ! n = st ! n XOR rk ! (round * Nb * 4 + (n div 4) * Nb + n mod 4)"
  by (simp add: AddRoundKey_def)

lemma length_AddRoundKey: "length (AddRoundKey round st rk) = 16"
  by (simp add: AddRoundKey_def)

lemma AddRoundKey_inverse: "length st = 16 \<Longrightarrow> AddRoundKey round (AddRoundKey round st rk) rk = st"
  by (rule nth_equalityI) (simp_all add: AddRoundKey_nth xor.assoc length_AddRoundKey)

lemma length_steps [simp]:
  "length (AddRoundKey round st rk) = 16"
  "length (SubBytes st) = length st"
  "length (InvSubBytes st) = length st"
  "length (ShiftRows st) = length st"
  "length (InvShiftRows st) = length st"
  "length (mix_column st i) = length st"
  "length (inv_mix_column st i) = length st"
  by (simp_all add: AddRoundKey_def SubBytes_def InvSubBytes_def ShiftRows_def InvShiftRows_def
      mix_column_def inv_mix_column_def Let_def)

text \<open>
  \<open>xtime\<close> is linear over \<open>XOR\<close>, and the two column maps multiply to the identity already as
  polynomials of degree four in \<open>xtime\<close>, so no reduction modulo the field polynomial is needed.
\<close>

lemma xtime_alt: "xtime x = push_bit 1 x XOR (if bit x 7 then 0x1b else 0)"
proof -
  have "(drop_bit 7 x AND 1 :: byte) = of_bool (bit x 7)"
    by (simp add: and_one_eq mod_2_eq_odd flip: bit_iff_odd_drop_bit)
  then show ?thesis by (simp add: xtime_def)
qed

lemma xtime_xor: "xtime (x XOR y) = xtime x XOR xtime y"
  by (auto simp: xtime_alt bit_xor_iff push_bit_xor xor.assoc xor.left_commute simp del: push_bit_of_Suc_0)

lemma Multiply_consts:
  "Multiply x 0x09 = x XOR xtime (xtime (xtime x))"
  "Multiply x 0x0b = x XOR xtime x XOR xtime (xtime (xtime x))"
  "Multiply x 0x0d = x XOR xtime (xtime x) XOR xtime (xtime (xtime x))"
  "Multiply x 0x0e = xtime x XOR xtime (xtime x) XOR xtime (xtime (xtime x))"
  by (simp_all add: Multiply_def)

lemma xor_cancel: "(x :: byte) XOR (x XOR y) = y"
  by (simp flip: xor.assoc)

lemma column_inverse:
  fixes a b c d :: byte
  assumes "T = a XOR b XOR c XOR d"
    and "a' = a XOR (xtime (a XOR b) XOR T)" "b' = b XOR (xtime (b XOR c) XOR T)"
    and "c' = c XOR (xtime (c XOR d) XOR T)" "d' = d XOR (xtime (d XOR a) XOR T)"
  shows "Multiply a' 0x0e XOR Multiply b' 0x0b XOR Multiply c' 0x0d XOR Multiply d' 0x09 = a"
    and "Multiply a' 0x09 XOR Multiply b' 0x0e XOR Multiply c' 0x0b XOR Multiply d' 0x0d = b"
    and "Multiply a' 0x0d XOR Multiply b' 0x09 XOR Multiply c' 0x0e XOR Multiply d' 0x0b = c"
    and "Multiply a' 0x0b XOR Multiply b' 0x0d XOR Multiply c' 0x09 XOR Multiply d' 0x0e = d"
  unfolding assms Multiply_consts xtime_xor
  by (simp_all add: xor.assoc xor.commute xor.left_commute xor_cancel)

definition mix4 :: "byte \<Rightarrow> byte \<Rightarrow> byte \<Rightarrow> byte \<Rightarrow> byte list" where
  "mix4 a b c d = (let T = a XOR b XOR c XOR d in
     [a XOR (xtime (a XOR b) XOR T), b XOR (xtime (b XOR c) XOR T),
      c XOR (xtime (c XOR d) XOR T), d XOR (xtime (d XOR a) XOR T)])"

definition inv_mix4 :: "byte \<Rightarrow> byte \<Rightarrow> byte \<Rightarrow> byte \<Rightarrow> byte list" where
  "inv_mix4 a b c d =
     [Multiply a 0x0e XOR Multiply b 0x0b XOR Multiply c 0x0d XOR Multiply d 0x09,
      Multiply a 0x09 XOR Multiply b 0x0e XOR Multiply c 0x0b XOR Multiply d 0x0d,
      Multiply a 0x0d XOR Multiply b 0x09 XOR Multiply c 0x0e XOR Multiply d 0x0b,
      Multiply a 0x0b XOR Multiply b 0x0d XOR Multiply c 0x09 XOR Multiply d 0x0e]"

lemma inv_mix4_mix4:
  assumes "mix4 a b c d = [a', b', c', d']"
  shows "inv_mix4 a' b' c' d' = [a, b, c, d]"
proof -
  let ?T = "a XOR b XOR c XOR d"
  have "a' = a XOR (xtime (a XOR b) XOR ?T)" "b' = b XOR (xtime (b XOR c) XOR ?T)"
    "c' = c XOR (xtime (c XOR d) XOR ?T)" "d' = d XOR (xtime (d XOR a) XOR ?T)"
    using assms by (simp_all only: mix4_def Let_def list.inject)
  from column_inverse [OF refl this] show ?thesis by (simp add: inv_mix4_def)
qed

lemma upt_4: "[0 ..< 4] = [0, 1, 2, 3 :: nat]"
  by code_simp

lemma MixColumns_columns:
  "MixColumns [a0, a1, a2, a3, a4, a5, a6, a7, a8, a9, a10, a11, a12, a13, a14, a15] =
   mix4 a0 a1 a2 a3 @ mix4 a4 a5 a6 a7 @ mix4 a8 a9 a10 a11 @ mix4 a12 a13 a14 a15"
  by (simp add: MixColumns_def upt_4 mix_column_def mix4_def Let_def)

lemma InvMixColumns_columns:
  "InvMixColumns [a0, a1, a2, a3, a4, a5, a6, a7, a8, a9, a10, a11, a12, a13, a14, a15] =
   inv_mix4 a0 a1 a2 a3 @ inv_mix4 a4 a5 a6 a7 @ inv_mix4 a8 a9 a10 a11 @ inv_mix4 a12 a13 a14 a15"
  by (simp add: InvMixColumns_def upt_4 inv_mix_column_def inv_mix4_def Let_def)

lemma mix4_obtain:
  obtains a' b' c' d' where "mix4 a b c d = [a', b', c', d']" "inv_mix4 a' b' c' d' = [a, b, c, d]"
  using inv_mix4_mix4 by (metis mix4_def)

lemma MixColumns_inverse: "length st = 16 \<Longrightarrow> InvMixColumns (MixColumns st) = st"
proof (erule list16)
  fix a0 a1 a2 a3 a4 a5 a6 a7 a8 a9 a10 a11 a12 a13 a14 a15
  assume st: "st = [a0, a1, a2, a3, a4, a5, a6, a7, a8, a9, a10, a11, a12, a13, a14, a15]"
  show ?thesis
    apply (rule mix4_obtain [of a0 a1 a2 a3], rule mix4_obtain [of a4 a5 a6 a7])
    apply (rule mix4_obtain [of a8 a9 a10 a11], rule mix4_obtain [of a12 a13 a14 a15])
    by (simp add: st MixColumns_columns InvMixColumns_columns)
qed

lemma length_MixColumns [simp]: "length (MixColumns st) = length st"
  by (simp add: MixColumns_def upt_4)

lemma length_InvMixColumns [simp]: "length (InvMixColumns st) = length st"
  by (simp add: InvMixColumns_def upt_4)

section \<open>The cipher is invertible\<close>

lemma rounds_inverse:
  assumes "length st = 16"
  shows "InvSubBytes (InvShiftRows (foldl (\<lambda>st round. InvMixColumns (AddRoundKey round (InvSubBytes (InvShiftRows st)) rk))
      (ShiftRows (SubBytes (foldl (\<lambda>st round. AddRoundKey round (MixColumns (ShiftRows (SubBytes st))) rk) st rs))) (rev rs))) = st
    \<and> length (foldl (\<lambda>st round. AddRoundKey round (MixColumns (ShiftRows (SubBytes st))) rk) st rs) = 16"
proof (induction rs rule: rev_induct)
  case Nil
  then show ?case using assms by (simp add: ShiftRows_inverse SubBytes_inverse)
next
  case (snoc r rs)
  then show ?case
    by (simp add: ShiftRows_inverse SubBytes_inverse AddRoundKey_inverse MixColumns_inverse)
qed

lemma InvCipher_Cipher: "length st = 16 \<Longrightarrow> InvCipher (Cipher st rk) rk = st"
  using rounds_inverse [of "AddRoundKey 0 st rk" rk "[1 ..< Nr]"]
  by (simp add: InvCipher_def Cipher_def Let_def AddRoundKey_inverse)

lemma length_Cipher [simp]: "length (Cipher st rk) = 16" "length (InvCipher st rk) = 16"
  by (simp_all add: Cipher_def InvCipher_def Let_def)

lemma length_key_words: "length (foldl key_word rk is) = length rk + 4 * length is"
  by (induction "is" arbitrary: rk) (simp_all add: key_word_def Let_def)

text \<open>
  C6. The inverse cipher undoes the cipher on every 16-byte block, under every round key array; both
  stay within the block.
\<close>

theorem aes_block_inverse:
  assumes "length st = 16"
  shows "InvCipher (Cipher st rk) rk = st \<and> length (Cipher st rk) = 16"
  using InvCipher_Cipher [OF assms] by simp

theorem aes_block_inverse_witness:
  "InvCipher (Cipher (replicate 16 7) (replicate 240 1)) (replicate 240 1) = replicate 16 7"
  using aes_block_inverse [of "replicate 16 7" "replicate 240 1"] by simp

text \<open>
  The key schedule fills the whole array of \<open>AES_keyExpSize\<close> = 240 bytes that the rounds index,
  and its first bytes are the key.
\<close>

theorem KeyExpansion_size:
  assumes "length key = 32"
  shows "length (KeyExpansion key) = 240 \<and> take 32 (KeyExpansion key) = key"
proof -
  have "take (length rk) (foldl key_word rk is) = rk" for rk "is"
  proof (induction "is" arbitrary: rk)
    case (Cons i "is")
    have "take (length rk) (key_word rk i) = rk" by (simp add: key_word_def Let_def)
    moreover have "take (length rk) (foldl key_word (key_word rk i) is) =
        take (length rk) (take (length (key_word rk i)) (foldl key_word (key_word rk i) is))"
      by (simp add: min_def key_word_def Let_def)
    ultimately show ?case using Cons.IH [of "key_word rk i"] by simp
  qed simp
  from this [of key] have front: "take 32 (KeyExpansion key) = key"
    using assms by (simp add: KeyExpansion_def Nk_def)
  have "length [Nk ..< Nb * (Nr + 1)] = 52" "length (take (4 * Nk) key) = 32"
    using assms by (simp_all add: Nk_def Nb_def Nr_def)
  with front show ?thesis
    unfolding KeyExpansion_def length_key_words by simp
qed

theorem KeyExpansion_size_witness:
  "length (KeyExpansion (replicate 32 0)) = 240 \<and> take 32 (KeyExpansion (replicate 32 0)) = replicate 32 0"
  using KeyExpansion_size [of "replicate 32 0"] by simp

end
