(* ===== verification/AesModes.thy ===== *)
theory AesModes
  imports AesCore
begin

text \<open>
  The modes of operation of \<^theory_text>\<open>src/src/aes.cpp\<close>: the context, ECB, CBC and CTR over a caller's
  buffer. The loops take the block function as an argument, which is how the code uses \<open>Cipher\<close> and
  \<open>InvCipher\<close>; the interface \<open>block_cipher\<close> is what they need of it. A buffer access outside the
  caller's array is \<open>Inl OutOfBounds\<close>.
\<close>

record AES_ctx =
  RoundKey :: "byte list"
  Iv :: "byte list"

definition AES_BLOCKLEN :: nat where "AES_BLOCKLEN = 16"

definition AES_init_ctx :: "byte list \<Rightarrow> AES_ctx \<Rightarrow> AES_ctx" where
  "AES_init_ctx key ctx = ctx\<lparr>RoundKey := KeyExpansion key\<rparr>"

definition AES_ctx_set_iv :: "byte list \<Rightarrow> AES_ctx \<Rightarrow> AES_ctx" where
  "AES_ctx_set_iv iv ctx = ctx\<lparr>Iv := take AES_BLOCKLEN iv\<rparr>"

definition AES_init_ctx_iv :: "byte list \<Rightarrow> byte list \<Rightarrow> AES_ctx \<Rightarrow> AES_ctx" where
  "AES_init_ctx_iv key iv ctx = ctx\<lparr>RoundKey := KeyExpansion key, Iv := take AES_BLOCKLEN iv\<rparr>"

definition AES_ECB_encrypt :: "AES_ctx \<Rightarrow> byte list \<Rightarrow> byte list res" where
  "AES_ECB_encrypt ctx buf =
     bind_res (cut buf 0 AES_BLOCKLEN) (\<lambda>blk. Inr (Cipher blk (RoundKey ctx) @ drop AES_BLOCKLEN buf))"

definition AES_ECB_decrypt :: "AES_ctx \<Rightarrow> byte list \<Rightarrow> byte list res" where
  "AES_ECB_decrypt ctx buf =
     bind_res (cut buf 0 AES_BLOCKLEN) (\<lambda>blk. Inr (InvCipher blk (RoundKey ctx) @ drop AES_BLOCKLEN buf))"

section \<open>CBC\<close>

definition XorWithIv :: "byte list \<Rightarrow> byte list \<Rightarrow> byte list" where
  "XorWithIv buf iv = map2 (\<lambda>b v. b XOR v) buf iv"

text \<open>
  \<open>left\<close> is \<open>length - i\<close>: the loop runs while it is positive, so a length that is no multiple of the
  block size still processes a whole last block. Result: the last IV and the rewritten buffer.
\<close>

function cbc_encrypt :: "(byte list \<Rightarrow> byte list) \<Rightarrow> byte list \<Rightarrow> byte list \<Rightarrow> nat \<Rightarrow> (byte list \<times> byte list) res" where
  "cbc_encrypt enc iv buf left =
     (if left = 0 then Inr (iv, buf)
      else bind_res (cut buf 0 AES_BLOCKLEN) (\<lambda>blk.
           let c = enc (XorWithIv blk iv)
           in bind_res (cbc_encrypt enc c (drop AES_BLOCKLEN buf) (left - AES_BLOCKLEN)) (\<lambda>(iv', rest).
              Inr (iv', c @ rest))))"
  by pat_completeness auto
termination by (relation "measure (\<lambda>(enc, iv, buf, left). left)") (auto simp: AES_BLOCKLEN_def)

function cbc_decrypt :: "(byte list \<Rightarrow> byte list) \<Rightarrow> byte list \<Rightarrow> byte list \<Rightarrow> nat \<Rightarrow> (byte list \<times> byte list) res" where
  "cbc_decrypt dec iv buf left =
     (if left = 0 then Inr (iv, buf)
      else bind_res (cut buf 0 AES_BLOCKLEN) (\<lambda>storeNextIv.
           let p = XorWithIv (dec storeNextIv) iv
           in bind_res (cbc_decrypt dec storeNextIv (drop AES_BLOCKLEN buf) (left - AES_BLOCKLEN)) (\<lambda>(iv', rest).
              Inr (iv', p @ rest))))"
  by pat_completeness auto
termination by (relation "measure (\<lambda>(dec, iv, buf, left). left)") (auto simp: AES_BLOCKLEN_def)

declare cbc_encrypt.simps [simp del] cbc_decrypt.simps [simp del]

definition AES_CBC_encrypt_buffer :: "AES_ctx \<Rightarrow> byte list \<Rightarrow> u32 \<Rightarrow> (AES_ctx \<times> byte list) res" where
  "AES_CBC_encrypt_buffer ctx buf len =
     bind_res (cbc_encrypt (\<lambda>b. Cipher b (RoundKey ctx)) (Iv ctx) buf (unat len)) (\<lambda>(iv, buf).
       Inr (ctx\<lparr>Iv := iv\<rparr>, buf))"

definition AES_CBC_decrypt_buffer :: "AES_ctx \<Rightarrow> byte list \<Rightarrow> u32 \<Rightarrow> (AES_ctx \<times> byte list) res" where
  "AES_CBC_decrypt_buffer ctx buf len =
     bind_res (cbc_decrypt (\<lambda>b. InvCipher b (RoundKey ctx)) (Iv ctx) buf (unat len)) (\<lambda>(iv, buf).
       Inr (ctx\<lparr>Iv := iv\<rparr>, buf))"

section \<open>CTR\<close>

text \<open>
  The inner loop runs \<open>bi\<close> from the last byte to the first and stops at the first byte that does not
  overflow; \<open>n\<close> is \<open>bi + 1\<close>.
\<close>

fun inc_iv :: "nat \<Rightarrow> byte list \<Rightarrow> byte list" where
  "inc_iv 0 iv = iv"
| "inc_iv (Suc bi) iv =
     (if iv ! bi = 255 then inc_iv bi (iv[bi := 0]) else iv[bi := iv ! bi + 1])"

text \<open>One byte per call; \<open>left\<close> is \<open>length - i\<close>, \<open>bi\<close> the position in the key stream block.\<close>

fun ctr_loop :: "(byte list \<Rightarrow> byte list) \<Rightarrow> byte list \<Rightarrow> byte list \<Rightarrow> nat \<Rightarrow> byte list \<Rightarrow> nat \<Rightarrow> (byte list \<times> byte list) res" where
  "ctr_loop enc iv buffer bi buf 0 = Inr (iv, buf)"
| "ctr_loop enc iv buffer bi [] (Suc left) = Inl OutOfBounds"
| "ctr_loop enc iv buffer bi (b # buf) (Suc left) =
     (let (iv, buffer, bi) =
            (if bi = AES_BLOCKLEN then (inc_iv AES_BLOCKLEN iv, enc iv, 0) else (iv, buffer, bi))
      in bind_res (ctr_loop enc iv buffer (bi + 1) buf left) (\<lambda>(iv', rest). Inr (iv', (b XOR buffer ! bi) # rest)))"

definition AES_CTR_xcrypt_buffer :: "AES_ctx \<Rightarrow> byte list \<Rightarrow> u32 \<Rightarrow> (AES_ctx \<times> byte list) res" where
  "AES_CTR_xcrypt_buffer ctx buf len =
     bind_res (ctr_loop (\<lambda>b. Cipher b (RoundKey ctx)) (Iv ctx) [] AES_BLOCKLEN buf (unat len)) (\<lambda>(iv, buf).
       Inr (ctx\<lparr>Iv := iv\<rparr>, buf))"

section \<open>What the modes need of the block cipher\<close>

lemma length_XorWithIv [simp]: "length (XorWithIv a v) = min (length a) (length v)"
  by (simp add: XorWithIv_def)

lemma XorWithIv_twice: "length a = length v \<Longrightarrow> XorWithIv (XorWithIv a v) v = a"
  by (rule nth_equalityI) (simp_all add: XorWithIv_def xor.assoc)

locale block_cipher =
  fixes enc :: "byte list \<Rightarrow> byte list" and dec :: "byte list \<Rightarrow> byte list"
  assumes length_enc: "length b = 16 \<Longrightarrow> length (enc b) = 16"
    and dec_enc: "length b = 16 \<Longrightarrow> dec (enc b) = b"
begin

lemma cbc_round_trip:
  assumes "length iv = 16" "length blocks = n * 16"
  shows "\<exists>iv' c. cbc_encrypt enc iv (blocks @ rest) (n * 16) = Inr (iv', c @ rest)
    \<and> length c = n * 16 \<and> length iv' = 16
    \<and> cbc_decrypt dec iv (c @ rest) (n * 16) = Inr (iv', blocks @ rest)"
  using assms
proof (induction n arbitrary: iv blocks)
  case 0
  then show ?case by (simp add: cbc_encrypt.simps cbc_decrypt.simps)
next
  case (Suc n)
  obtain b bs where b: "blocks = b @ bs" "length b = 16" "length bs = n * 16"
    using Suc.prems(2) by (intro that [of "take 16 blocks" "drop 16 blocks"]) auto
  let ?c = "enc (XorWithIv b iv)"
  have c: "length ?c = 16" using b Suc.prems(1) by (simp add: length_enc)
  from Suc.IH [OF c b(3)] obtain iv' cs where ih:
    "cbc_encrypt enc ?c (bs @ rest) (n * 16) = Inr (iv', cs @ rest)" "length cs = n * 16" "length iv' = 16"
    "cbc_decrypt dec ?c (cs @ rest) (n * 16) = Inr (iv', bs @ rest)" by blast
  have e: "cbc_encrypt enc iv (blocks @ rest) (Suc n * 16) = Inr (iv', (?c @ cs) @ rest)"
    using ih(1) b by (subst cbc_encrypt.simps) (simp add: AES_BLOCKLEN_def cut_front)
  have "cbc_decrypt dec iv ((?c @ cs) @ rest) (Suc n * 16) = Inr (iv', blocks @ rest)"
    using ih(4) b c Suc.prems(1)
    by (subst cbc_decrypt.simps) (simp add: AES_BLOCKLEN_def cut_front dec_enc XorWithIv_twice)
  with e c ih(2,3) show ?case by fastforce
qed

end

interpretation aes: block_cipher "\<lambda>b. Cipher b rk" "\<lambda>b. InvCipher b rk" for rk
  by unfold_locales (simp_all add: InvCipher_Cipher)

text \<open>
  C11. CBC round trip: decrypting an encrypted buffer with the same key and IV gives the buffer back, for
  any number of blocks, leaves the bytes behind them alone, and both sides end with the same chaining
  value in the context, so a following call also matches.
\<close>

theorem cbc_decrypt_encrypt:
  assumes "length (Iv ctx) = 16" "length blocks = n * 16" "n * 16 < 2 ^ 32"
  shows "\<exists>ctx' c. AES_CBC_encrypt_buffer ctx (blocks @ rest) (word_of_nat (n * 16)) = Inr (ctx', c @ rest)
    \<and> length c = n * 16
    \<and> AES_CBC_decrypt_buffer ctx (c @ rest) (word_of_nat (n * 16)) = Inr (ctx', blocks @ rest)"
proof -
  have "unat (word_of_nat (n * 16) :: u32) = n * 16"
    using assms(3) by (rule unat_of_nat_u32)
  then show ?thesis
    using aes.cbc_round_trip [OF assms(1,2), where rest = rest and rk = "RoundKey ctx"]
    by (auto simp: AES_CBC_encrypt_buffer_def AES_CBC_decrypt_buffer_def)
qed

theorem cbc_decrypt_encrypt_witness:
  "\<exists>ctx' c. AES_CBC_encrypt_buffer \<lparr>RoundKey = [], Iv = replicate 16 1\<rparr> (replicate 32 5 @ [9]) 32 = Inr (ctx', c @ [9])
    \<and> length c = 32
    \<and> AES_CBC_decrypt_buffer \<lparr>RoundKey = [], Iv = replicate 16 1\<rparr> (c @ [9]) 32 = Inr (ctx', replicate 32 5 @ [9])"
  using cbc_decrypt_encrypt [of "\<lparr>RoundKey = [], Iv = replicate 16 1\<rparr>" "replicate 32 5" 2 "[9]"] by simp

section \<open>CTR as a key stream\<close>

text \<open>The specification: byte \<open>i\<close> of the buffer is combined with byte \<open>i mod 16\<close> of the block for
  counter \<open>iv + i div 16\<close>, where the counter is the IV read as a big-endian 128-bit number.\<close>

definition ctr_stream :: "(byte list \<Rightarrow> byte list) \<Rightarrow> byte list \<Rightarrow> nat \<Rightarrow> byte" where
  "ctr_stream enc iv i = enc ((inc_iv 16 ^^ (i div 16)) iv) ! (i mod 16)"

definition be_val :: "byte list \<Rightarrow> nat" where
  "be_val bs = foldl (\<lambda>v b. 256 * v + unat b) 0 bs"

lemma be_val_snoc: "be_val (bs @ [b]) = 256 * be_val bs + unat b"
  by (simp add: be_val_def)

lemma inc_iv_append: "n \<le> length xs \<Longrightarrow> inc_iv n (xs @ ys) = inc_iv n xs @ ys"
  by (induction n arbitrary: xs) (auto simp: nth_append list_update_append)

lemma length_inc_iv [simp]: "length (inc_iv n iv) = length iv"
  by (induction n iv rule: inc_iv.induct) auto

lemma be_val_inc: "be_val (inc_iv (length bs) bs) = (be_val bs + 1) mod 256 ^ length bs"
proof (induction bs rule: rev_induct)
  case (snoc b bs)
  show ?case
  proof (cases "b = 255")
    case True
    then have "inc_iv (length (bs @ [b])) (bs @ [b]) = inc_iv (length bs) bs @ [0]"
      by (simp add: inc_iv_append)
    then have "be_val (inc_iv (length (bs @ [b])) (bs @ [b])) = 256 * ((be_val bs + 1) mod 256 ^ length bs)"
      using snoc by (simp add: be_val_snoc)
    also have "\<dots> = (256 * (be_val bs + 1)) mod (256 * 256 ^ length bs)"
      by (rule mult_mod_right)
    finally show ?thesis using True by (simp add: be_val_snoc)
  next
    case False
    have lt: "be_val bs < 256 ^ length bs" for bs
    proof (induction bs rule: rev_induct)
      case (snoc b bs)
      have "unat b < 256" using unsigned_less [of b] by simp
      with snoc show ?case by (simp add: be_val_snoc)
    qed (simp add: be_val_def)
    have "unat b < 256" using unsigned_less [of b] by simp
    then have "unat (b + 1) = unat b + 1"
      using False by (simp add: unat_word_ariths word_unat_eq_iff)
    then have "be_val (inc_iv (length (bs @ [b])) (bs @ [b])) = be_val (bs @ [b]) + 1"
      using False by (simp add: be_val_snoc list_update_append)
    moreover from this lt [of "inc_iv (length (bs @ [b])) (bs @ [b])"]
    have "be_val (bs @ [b]) + 1 < 256 ^ length (bs @ [b])" by (simp only: length_inc_iv)
    ultimately show ?thesis by (simp only: mod_less)
  qed
qed (simp add: be_val_def)

lemma ceil16: "0 < r \<Longrightarrow> r \<le> 16 \<Longrightarrow> (16 * q + r + 15) div 16 = Suc q"
proof -
  assume r: "0 < r" "r \<le> 16"
  have "16 * q + r + 15 = (r - 1) + Suc q * 16" using r(1) by simp
  also have "\<dots> div 16 = Suc q" using r by (subst div_mult_self1) simp_all
  finally show ?thesis .
qed

lemma ctr_loop_spec:
  assumes "left \<le> length buf" "iv = (inc_iv 16 ^^ ((k + 15) div 16)) iv0"
    and "bi = (if k mod 16 = 0 then 16 else k mod 16)"
    and "k mod 16 \<noteq> 0 \<longrightarrow> buffer = enc ((inc_iv 16 ^^ (k div 16)) iv0)"
  shows "ctr_loop enc iv buffer bi buf left = Inr ((inc_iv 16 ^^ ((k + left + 15) div 16)) iv0,
    map (\<lambda>i. buf ! i XOR ctr_stream enc iv0 (k + i)) [0 ..< left] @ drop left buf)"
  using assms
proof (induction left arbitrary: buf iv buffer bi k)
  case 0
  then show ?case by simp
next
  case (Suc left)
  obtain b bs where buf: "buf = b # bs" using Suc.prems(1) by (cases buf) auto
  let ?iv = "(inc_iv 16 ^^ ((k + 1 + 15) div 16)) iv0"
  let ?buffer = "enc ((inc_iv 16 ^^ (k div 16)) iv0)"
  obtain q r where k: "k = 16 * q + r" "r < 16"
    by (intro that [of "k div 16" "k mod 16"]) simp_all
  then have r: "k mod 16 = r" "k div 16 = q" by simp_all
  have up: "(k + 1 + 15) div 16 = Suc q" using ceil16 [of "Suc r" q] k by (simp add: add.assoc)
  have state: "(if bi = AES_BLOCKLEN then (inc_iv AES_BLOCKLEN iv, enc iv, 0) else (iv, buffer, bi)) =
      (?iv, ?buffer, k mod 16)"
  proof (cases "r = 0")
    case True
    then show ?thesis using Suc.prems r up k by (simp add: AES_BLOCKLEN_def)
  next
    case False
    then have "(k + 15) div 16 = Suc q" using ceil16 [of r q] k by simp
    with False show ?thesis using Suc.prems r up k by (simp add: AES_BLOCKLEN_def)
  qed
  have "(k + 1) mod 16 = (if Suc r = 16 then 0 else Suc r)" "Suc r \<noteq> 16 \<Longrightarrow> (k + 1) div 16 = q"
    using k by (auto simp: mod_Suc div_Suc)
  then have follow: "k mod 16 + 1 = (if (k + 1) mod 16 = 0 then 16 else (k + 1) mod 16)"
    "(k + 1) mod 16 \<noteq> 0 \<Longrightarrow> (k + 1) div 16 = k div 16" by (auto simp: r split: if_splits)
  have "ctr_loop enc ?iv ?buffer (k mod 16 + 1) bs left = Inr ((inc_iv 16 ^^ ((k + 1 + left + 15) div 16)) iv0,
    map (\<lambda>i. bs ! i XOR ctr_stream enc iv0 (k + 1 + i)) [0 ..< left] @ drop left bs)"
    by (rule Suc.IH) (use Suc.prems(1) buf follow in \<open>auto\<close>)
  moreover have "ctr_loop enc iv buffer bi buf (Suc left) =
      bind_res (ctr_loop enc ?iv ?buffer (k mod 16 + 1) bs left) (\<lambda>(iv', rest).
        Inr (iv', (b XOR ?buffer ! (k mod 16)) # rest))"
    unfolding buf ctr_loop.simps state Let_def prod.case by (rule refl)
  ultimately show ?case
    by (simp add: buf ctr_stream_def map_upt_Suc del: upt_Suc)
qed

lemma xcrypt_stream:
  assumes "n \<le> length buf" "n < 2 ^ 32"
  shows "AES_CTR_xcrypt_buffer ctx buf (word_of_nat n) =
    Inr (ctx\<lparr>Iv := (inc_iv 16 ^^ ((n + 15) div 16)) (Iv ctx)\<rparr>,
      map (\<lambda>i. buf ! i XOR ctr_stream (\<lambda>b. Cipher b (RoundKey ctx)) (Iv ctx) i) [0 ..< n] @ drop n buf)"
  using ctr_loop_spec [of n buf "Iv ctx" 0 "Iv ctx" AES_BLOCKLEN "[]" "\<lambda>b. Cipher b (RoundKey ctx)"] assms
  by (simp add: AES_CTR_xcrypt_buffer_def unat_of_nat_u32 AES_BLOCKLEN_def)

text \<open>
  C12. The byte-at-a-time CTR loop computes the key stream of the specification and advances the counter
  by one per started block; the counter update is addition of one on the big-endian 128-bit value, with
  wrap-around.
\<close>

theorem ctr_is_key_stream:
  assumes "n \<le> length buf" "n < 2 ^ 32" "length (Iv ctx) = 16"
  shows "AES_CTR_xcrypt_buffer ctx buf (word_of_nat n) =
    Inr (ctx\<lparr>Iv := (inc_iv 16 ^^ ((n + 15) div 16)) (Iv ctx)\<rparr>,
      map (\<lambda>i. buf ! i XOR ctr_stream (\<lambda>b. Cipher b (RoundKey ctx)) (Iv ctx) i) [0 ..< n] @ drop n buf)
    \<and> be_val (inc_iv 16 (Iv ctx)) = (be_val (Iv ctx) + 1) mod 2 ^ 128"
  using xcrypt_stream [OF assms(1,2)] be_val_inc [of "Iv ctx"] assms(3) by simp

theorem ctr_is_key_stream_witness:
  "be_val (inc_iv 16 (replicate 16 255)) = (be_val (replicate 16 255) + 1) mod 2 ^ 128"
  using ctr_is_key_stream [of 0 "[]" "\<lparr>RoundKey = [], Iv = replicate 16 255\<rparr>"] by simp

text \<open>
  CTR is symmetric: running the function again from the same context restores the buffer.
\<close>

theorem ctr_involution:
  assumes "n \<le> length buf" "n < 2 ^ 32"
  shows "\<exists>ctx' c. AES_CTR_xcrypt_buffer ctx buf (word_of_nat n) = Inr (ctx', c) \<and> length c = length buf
    \<and> AES_CTR_xcrypt_buffer ctx c (word_of_nat n) = Inr (ctx', buf)"
proof -
  let ?s = "ctr_stream (\<lambda>b. Cipher b (RoundKey ctx)) (Iv ctx)"
  let ?c = "map (\<lambda>i. buf ! i XOR ?s i) [0 ..< n] @ drop n buf"
  have len: "length ?c = length buf" using assms(1) by simp
  have "map (\<lambda>i. ?c ! i XOR ?s i) [0 ..< n] = take n buf"
    using assms(1) by (intro nth_equalityI) (simp_all add: nth_append xor.assoc)
  then have "map (\<lambda>i. ?c ! i XOR ?s i) [0 ..< n] @ drop n ?c = buf"
    using assms(1) by simp
  moreover note xcrypt_stream [OF assms, of ctx] xcrypt_stream [of n ?c ctx]
  ultimately show ?thesis using len assms by auto
qed

theorem ctr_involution_witness:
  "\<exists>ctx' c. AES_CTR_xcrypt_buffer \<lparr>RoundKey = [], Iv = replicate 16 0\<rparr> (replicate 20 3) 20 = Inr (ctx', c)
    \<and> length c = 20 \<and> AES_CTR_xcrypt_buffer \<lparr>RoundKey = [], Iv = replicate 16 0\<rparr> c 20 = Inr (ctx', replicate 20 3)"
  using ctr_involution [of 20 "replicate 20 3" "\<lparr>RoundKey = [], Iv = replicate 16 0\<rparr>"] by simp

text \<open>
  A length that is no multiple of the block size makes CBC run over the end of the caller's buffer
  by a partial block: the read of the last block is out of bounds.
\<close>

theorem cbc_partial_block:
  assumes "length blocks = n * 16" "length (Iv ctx) = 16" "0 < r" "r < 16" "n * 16 + r < 2 ^ 32" "length rest = r"
  shows "AES_CBC_encrypt_buffer ctx (blocks @ rest) (word_of_nat (n * 16 + r)) = Inl OutOfBounds"
proof -
  have "cbc_encrypt enc iv (blocks @ rest) (n * 16 + r) = Inl OutOfBounds"
    if "length blocks = n * 16" for enc iv blocks
    using that
  proof (induction n arbitrary: iv blocks)
    case 0
    then show ?case using assms(3,4,6)
      by (subst cbc_encrypt.simps) (simp add: AES_BLOCKLEN_def cut_def)
  next
    case (Suc n)
    obtain b bs where b: "blocks = b @ bs" "length b = 16" "length bs = n * 16"
      using Suc.prems by (intro that [of "take 16 blocks" "drop 16 blocks"]) auto
    then show ?case using Suc.IH [OF b(3)]
      by (subst cbc_encrypt.simps) (simp add: AES_BLOCKLEN_def cut_front)
  qed
  then show ?thesis
    using assms(1) by (simp only: AES_CBC_encrypt_buffer_def unat_of_nat_u32 [OF assms(5)] bind_res_simps)
qed

theorem cbc_partial_block_witness:
  "AES_CBC_encrypt_buffer \<lparr>RoundKey = [], Iv = replicate 16 0\<rparr> (replicate 16 1 @ [2, 3]) 18 = Inl OutOfBounds"
  using cbc_partial_block [of "replicate 16 1" 1 "\<lparr>RoundKey = [], Iv = replicate 16 0\<rparr>" 2 "[2, 3]"] by simp

end
