(* ===== verification/AesVectors.thy ===== *)
theory AesVectors
  imports AesCore
begin

text \<open>
  Evaluation of the cipher of \<^theory_text>\<open>src/src/aes.cpp\<close> on the test vector of the standard: the round
  steps on explicit 16-byte states, the expanded key of the vector, and the published ciphertext.
\<close>

definition ka :: "byte list" where
  "ka = [
   0x0, 0x1, 0x2, 0x3, 0x4, 0x5, 0x6, 0x7, 0x8, 0x9, 0xa, 0xb, 0xc, 0xd, 0xe, 0xf, 0x10, 0x11,
   0x12, 0x13, 0x14, 0x15, 0x16, 0x17, 0x18, 0x19, 0x1a, 0x1b, 0x1c, 0x1d, 0x1e, 0x1f, 0xa5, 0x73,
   0xc2, 0x9f, 0xa1, 0x76, 0xc4, 0x98, 0xa9, 0x7f, 0xce, 0x93, 0xa5, 0x72, 0xc0, 0x9c, 0x16, 0x51,
   0xa8, 0xcd, 0x2, 0x44, 0xbe, 0xda, 0x1a, 0x5d, 0xa4, 0xc1, 0x6, 0x40, 0xba, 0xde, 0xae, 0x87,
   0xdf, 0xf0, 0xf, 0xf1, 0x1b, 0x68, 0xa6, 0x8e, 0xd5, 0xfb, 0x3, 0xfc, 0x15, 0x67, 0x6d, 0xe1,
   0xf1, 0x48, 0x6f, 0xa5, 0x4f, 0x92, 0x75, 0xf8, 0xeb, 0x53, 0x73, 0xb8, 0x51, 0x8d, 0xc6, 0x56,
   0x82, 0x7f, 0xc9, 0xa7, 0x99, 0x17, 0x6f, 0x29, 0x4c, 0xec, 0x6c, 0xd5, 0x59, 0x8b, 0x3d, 0xe2,
   0x3a, 0x75, 0x52, 0x47, 0x75, 0xe7, 0x27, 0xbf, 0x9e, 0xb4, 0x54, 0x7, 0xcf, 0x39, 0xb, 0xdc,
   0x90, 0x5f, 0xc2, 0x7b, 0x9, 0x48, 0xad, 0x52, 0x45, 0xa4, 0xc1, 0x87, 0x1c, 0x2f, 0x45, 0xf5,
   0xa6, 0x60, 0x17, 0xb2, 0xd3, 0x87, 0x30, 0xd, 0x4d, 0x33, 0x64, 0xa, 0x82, 0xa, 0x7c, 0xcf,
   0xf7, 0x1c, 0xbe, 0xb4, 0xfe, 0x54, 0x13, 0xe6, 0xbb, 0xf0, 0xd2, 0x61, 0xa7, 0xdf, 0xf0, 0x1a,
   0xfa, 0xfe, 0xe7, 0xa8, 0x29, 0x79, 0xd7, 0xa5, 0x64, 0x4a, 0xb3, 0xaf, 0xe6, 0x40, 0x25, 0x41,
   0xfe, 0x71, 0x9b, 0xf5, 0x0, 0x25, 0x88, 0x13, 0xbb, 0xd5, 0x5a, 0x72, 0x1c, 0xa, 0x4e, 0x5a,
   0x66, 0x99, 0xa9, 0xf2, 0x4f, 0xe0, 0x7e, 0x57, 0x2b, 0xaa, 0xcd, 0xf8, 0xcd, 0xea, 0x24, 0xfc,
   0x79, 0xcc, 0xbf, 0x9, 0x79, 0xe9, 0x37, 0x1a, 0xc2, 0x3c, 0x6d, 0x68, 0xde, 0x36]"

lemma upt_16: "[0 ..< 16] = [0, 1, 2, 3, 4, 5, 6, 7, 8, 9, 10, 11, 12, 13, 14, 15 :: nat]"
  by code_simp

lemma upt_Nr: "[Suc 0 ..< 14] = [1, 2, 3, 4, 5, 6, 7, 8, 9, 10, 11, 12, 13 :: nat]"
  by code_simp

lemma AddRoundKey_16:
  "AddRoundKey r [a0, a1, a2, a3, a4, a5, a6, a7, a8, a9, a10, a11, a12, a13, a14, a15] rk =
   [a0 XOR rk ! (16 * r), a1 XOR rk ! (16 * r + 1), a2 XOR rk ! (16 * r + 2), a3 XOR rk ! (16 * r + 3),
    a4 XOR rk ! (16 * r + 4), a5 XOR rk ! (16 * r + 5), a6 XOR rk ! (16 * r + 6), a7 XOR rk ! (16 * r + 7),
    a8 XOR rk ! (16 * r + 8), a9 XOR rk ! (16 * r + 9), a10 XOR rk ! (16 * r + 10), a11 XOR rk ! (16 * r + 11),
    a12 XOR rk ! (16 * r + 12), a13 XOR rk ! (16 * r + 13), a14 XOR rk ! (16 * r + 14), a15 XOR rk ! (16 * r + 15)]"
  by (simp add: AddRoundKey_def upt_16 Nb_def ac_simps)

lemma ShiftRows_16:
  "ShiftRows [a0, a1, a2, a3, a4, a5, a6, a7, a8, a9, a10, a11, a12, a13, a14, a15] =
   [a0, a5, a10, a15, a4, a9, a14, a3, a8, a13, a2, a7, a12, a1, a6, a11]"
  by (simp add: ShiftRows_def Let_def)

lemma upt_k: "[8 ..< 60] = [8, 9, 10, 11, 12, 13, 14, 15, 16, 17, 18, 19, 20, 21, 22, 23, 24, 25, 26, 27, 28, 29, 30,
  31, 32, 33, 34, 35, 36, 37, 38, 39, 40, 41, 42, 43, 44, 45, 46, 47, 48, 49, 50, 51, 52, 53, 54, 55, 56, 57, 58, 59 :: nat]"
  by code_simp

lemma upt_32: "[0 ..< 32] = [0, 1, 2, 3, 4, 5, 6, 7, 8, 9, 10, 11, 12, 13, 14, 15,
  16, 17, 18, 19, 20, 21, 22, 23, 24, 25, 26, 27, 28, 29, 30, 31 :: nat]"
  by code_simp

lemma KeyExpansion_ka: "KeyExpansion (map word_of_nat [0 ..< 32]) = ka"
  by (simp add: KeyExpansion_def upt_k upt_32 Nk_def Nb_def Nr_def key_word_def Let_def getSBoxValue_def sbox_def Rcon_def ka_def)

text \<open>
  Known answer of the AES-256 standard (FIPS 197, appendix C.3): key schedule and cipher compute
  the published ciphertext, so the tables and the round structure are those of the standard.
\<close>

theorem aes256_known_answer:
  "Cipher [0x00, 0x11, 0x22, 0x33, 0x44, 0x55, 0x66, 0x77, 0x88, 0x99, 0xaa, 0xbb, 0xcc, 0xdd, 0xee, 0xff]
     (KeyExpansion (map word_of_nat [0 ..< 32])) =
   [0x8e, 0xa2, 0xb7, 0xca, 0x51, 0x67, 0x45, 0xbf, 0xea, 0xfc, 0x49, 0x90, 0x4b, 0x49, 0x60, 0x89]"
  unfolding KeyExpansion_ka
  by (simp add: Cipher_def upt_Nr AddRoundKey_16 ka_def Nr_def SubBytes_def getSBoxValue_def sbox_def
      ShiftRows_16 MixColumns_columns mix4_def xtime_alt)

end
