(* ===== verification/Addr.thy ===== *)
theory Addr
  imports CStrings
begin

text \<open>
  Socket addresses: the class \<open>Addr\<close> of \<^theory_text>\<open>src/src/addr.cpp\<close> (declared in
  \<^theory_text>\<open>src/include/net.h\<close>) and the memory image of its \<^theory_text>\<open>struct sockaddr_in\<close>, which the packets
  carry. \<open>inet_addr\<close> of the C library is a parameter; \<open>sscanf\<close> and \<open>sprintf\<close> are modelled for the
  formats that are used.
\<close>

record sockaddr_in =
  sin_family :: u16
  sin_port :: u16
  s_addr :: u32
  sin_zero :: "byte list"

record addr =
  address :: sockaddr_in
  addr_size :: nat

definition AF_INET :: u16 where "AF_INET = 2"
definition AF_INET6 :: u16 where "AF_INET6 = 10"

definition zero_sockaddr :: sockaddr_in where
  "zero_sockaddr = \<lparr>sin_family = 0, sin_port = 0, s_addr = 0, sin_zero = replicate 8 0\<rparr>"

text \<open>\<open>htons\<close> on a little-endian machine swaps the two bytes.\<close>

definition htons :: "u16 \<Rightarrow> u16" where
  "htons w = push_bit 8 w OR drop_bit 8 w"

definition Addr_empty :: addr where
  "Addr_empty = \<lparr>address = zero_sockaddr, addr_size = 0\<rparr>"

definition Addr_make :: "(string \<Rightarrow> u32) \<Rightarrow> string \<Rightarrow> int \<Rightarrow> bool \<Rightarrow> addr" where
  "Addr_make inet_addr ip_addr port ipv4 =
     \<lparr>address = zero_sockaddr\<lparr>sin_family := if ipv4 then AF_INET else AF_INET6,
        sin_port := htons (word_of_int port), s_addr := inet_addr ip_addr\<rparr>, addr_size = 16\<rparr>"

definition Addr_from :: "sockaddr_in \<Rightarrow> addr" where
  "Addr_from saddri = \<lparr>address = saddri, addr_size = 0\<rparr>"

definition Addr_copy :: "addr \<Rightarrow> addr" where
  "Addr_copy t_addr = \<lparr>address = address t_addr, addr_size = addr_size t_addr\<rparr>"

definition SetSize :: "addr \<Rightarrow> addr" where
  "SetSize a = a\<lparr>addr_size := 16\<rparr>"

definition SetPort :: "int \<Rightarrow> addr \<Rightarrow> addr" where
  "SetPort port a = a\<lparr>address := (address a)\<lparr>sin_port := htons (word_of_int port)\<rparr>, addr_size := 16\<rparr>"

definition SetIP :: "(string \<Rightarrow> u32) \<Rightarrow> string \<Rightarrow> addr \<Rightarrow> addr" where
  "SetIP inet_addr ip_addr a = a\<lparr>address := (address a)\<lparr>s_addr := inet_addr ip_addr\<rparr>, addr_size := 16\<rparr>"

definition SetIpv4 :: "addr \<Rightarrow> addr" where
  "SetIpv4 a = SetSize (a\<lparr>address := (address a)\<lparr>sin_family := AF_INET\<rparr>\<rparr>)"

definition SetIpv6 :: "addr \<Rightarrow> addr" where
  "SetIpv6 a = SetSize (a\<lparr>address := (address a)\<lparr>sin_family := AF_INET6\<rparr>\<rparr>)"

definition SetSockAddr :: "sockaddr_in \<Rightarrow> addr \<Rightarrow> addr" where
  "SetSockAddr tsi a = a\<lparr>address := tsi\<rparr>"

section \<open>Memory image\<close>

definition sockaddr_bytes :: "sockaddr_in \<Rightarrow> byte list" where
  "sockaddr_bytes s = le_enc 2 (unat (sin_family s)) @ le_enc 2 (unat (sin_port s))
     @ le_enc 4 (unat (s_addr s)) @ sin_zero s"

definition sockaddr_of :: "byte list \<Rightarrow> sockaddr_in" where
  "sockaddr_of bs = \<lparr>sin_family = word_of_nat (le_dec (take 2 bs)),
     sin_port = word_of_nat (le_dec (take 2 (drop 2 bs))),
     s_addr = word_of_nat (le_dec (take 4 (drop 4 bs))), sin_zero = take 8 (drop 8 bs)\<rparr>"

definition wf_sockaddr :: "sockaddr_in \<Rightarrow> bool" where
  "wf_sockaddr s \<longleftrightarrow> length (sin_zero s) = 8"

lemma length_sockaddr_bytes [simp]: "wf_sockaddr s \<Longrightarrow> length (sockaddr_bytes s) = 16"
  by (simp add: sockaddr_bytes_def wf_sockaddr_def)

lemma sockaddr_round_trip [simp]: "wf_sockaddr s \<Longrightarrow> sockaddr_of (sockaddr_bytes s) = s"
  by (simp add: sockaddr_of_def sockaddr_bytes_def wf_sockaddr_def)

section \<open>Checking a dotted address\<close>

text \<open>\<open>%d\<close>: \<open>strtol\<close> clamps to \<open>long\<close>, the store truncates to \<open>int\<close>.\<close>

definition scan_d :: "string \<Rightarrow> (int \<times> string) option" where
  "scan_d s =
     (let t = dropWhile is_space s;
          neg = (t \<noteq> [] \<and> hd t = CHR ''-'');
          u = (if t \<noteq> [] \<and> (hd t = CHR ''-'' \<or> hd t = CHR ''+'') then tl t else t);
          ds = takeWhile is_digit u;
          v = int (digits_val 0 ds)
      in if ds = [] then None
         else Some (to_int32 (if neg then max (- (2 ^ 63)) (- v) else min (2 ^ 63 - 1) v), dropWhile is_digit u))"

definition scan_dot :: "string \<Rightarrow> string option" where
  "scan_dot s = (case s of c # cs \<Rightarrow> if c = CHR ''.'' then Some cs else None | [] \<Rightarrow> None)"

definition sscanf_ip :: "string \<Rightarrow> (int \<times> int \<times> int \<times> int) option" where
  "sscanf_ip s =
     Option.bind (scan_d s) (\<lambda>(a, s). Option.bind (scan_dot s) (\<lambda>s.
     Option.bind (scan_d s) (\<lambda>(b, s). Option.bind (scan_dot s) (\<lambda>s.
     Option.bind (scan_d s) (\<lambda>(c, s). Option.bind (scan_dot s) (\<lambda>s.
     Option.bind (scan_d s) (\<lambda>(d, s). Some (a, b, c, d))))))))"

definition dotted :: "int \<Rightarrow> int \<Rightarrow> int \<Rightarrow> int \<Rightarrow> string" where
  "dotted a b c d = show_int a @ ''.'' @ show_int b @ ''.'' @ show_int c @ ''.'' @ show_int d"

definition checkValidIP :: "string \<Rightarrow> bool" where
  "checkValidIP ipaddr =
     (case sscanf_ip (c_str ipaddr) of
        None \<Rightarrow> False
      | Some (a, b, c, d) \<Rightarrow>
          if 0 \<le> a \<and> a \<le> 255 \<and> 0 \<le> b \<and> b \<le> 255 \<and> 0 \<le> c \<and> c \<le> 255 \<and> 0 \<le> d \<and> d \<le> 255
          then dotted a b c d = c_str ipaddr
          else False)"

lemma digits_takeWhile:
  assumes "s = [] \<or> \<not> is_digit (hd s)"
  shows "takeWhile is_digit (show_nat n @ s) = show_nat n" "dropWhile is_digit (show_nat n @ s) = s"
proof -
  have "takeWhile is_digit s = []" "dropWhile is_digit s = s"
    using assms by (cases s; simp)+
  then show "takeWhile is_digit (show_nat n @ s) = show_nat n" "dropWhile is_digit (show_nat n @ s) = s"
    using show_nat_digits [of n] by (simp_all add: takeWhile_append2 dropWhile_append2)
qed

lemma scan_d_show:
  assumes "0 \<le> i" "i \<le> 255" "s = [] \<or> \<not> is_digit (hd s)"
  shows "scan_d (show_int i @ s) = Some (i, s)"
proof -
  let ?t = "show_nat (nat i)"
  have hd: "is_digit (hd (?t @ s))" using hd_show_nat [of "nat i"] by (cases ?t) auto
  then have "dropWhile is_space (?t @ s) = ?t @ s"
    using digit_not_space by (cases "?t @ s") auto
  moreover have "min (2 ^ 63 - 1) (int (digits_val 0 ?t)) = i"
    using assms(1,2) by (simp add: digits_val_show)
  moreover have "to_int32 i = i" using assms(1,2) by (intro to_int32_id) auto
  ultimately show ?thesis
    using assms(1) digit_char_neq [OF hd] digits_takeWhile [OF assms(3), of "nat i"]
    by (simp add: scan_d_def show_int_def Let_def)
qed

lemma checkValidIP_canonical:
  "checkValidIP s \<longleftrightarrow>
     (\<exists>a \<le> 255. \<exists>b \<le> 255. \<exists>c \<le> 255. \<exists>d \<le> 255. c_str s = dotted (int a) (int b) (int c) (int d))"
  (is "?L \<longleftrightarrow> ?R")
proof
  assume ?L
  then obtain a b c d where "0 \<le> a" "a \<le> 255" "0 \<le> b" "b \<le> 255" "0 \<le> c" "c \<le> 255" "0 \<le> d" "d \<le> 255"
    "dotted a b c d = c_str s"
    by (auto simp: checkValidIP_def split: option.splits if_splits)
  then have "nat a \<le> 255" "nat b \<le> 255" "nat c \<le> 255" "nat d \<le> 255"
    "c_str s = dotted (int (nat a)) (int (nat b)) (int (nat c)) (int (nat d))" by simp_all
  then show ?R by blast
next
  assume ?R
  then obtain a b c d where le: "a \<le> 255" "b \<le> 255" "c \<le> 255" "d \<le> 255"
    and s: "c_str s = dotted (int a) (int b) (int c) (int d)" by blast
  have dot: "\<not> is_digit (CHR ''.'')" by (simp add: is_digit_def code_def)
  have "sscanf_ip (c_str s) = Some (int a, int b, int c, int d)"
    unfolding s dotted_def using le dot
    by (simp add: sscanf_ip_def scan_d_show scan_dot_def scan_d_show [where s = "[]", simplified])
  then show ?L using le s by (simp add: checkValidIP_def)
qed

text \<open>
  C15. \<open>checkValidIP\<close> accepts exactly the canonical dotted decimals: four numbers up to 255 without signs,
  spaces, leading zeros or trailing characters (up to the first NUL of the string).
\<close>

theorem checkValidIP_iff:
  "checkValidIP s \<longleftrightarrow>
     (\<exists>a \<le> 255. \<exists>b \<le> 255. \<exists>c \<le> 255. \<exists>d \<le> 255. c_str s = dotted (int a) (int b) (int c) (int d))"
  by (rule checkValidIP_canonical)

theorem checkValidIP_iff_witness:
  "checkValidIP ''127.0.0.1'' \<and> \<not> checkValidIP ''127.0.0.01''"
proof
  have "c_str ''127.0.0.1'' = dotted (int 127) (int 0) (int 0) (int 1)"
    by (simp add: c_str_def dotted_def show_int_def show_nat.simps)
  moreover have "(127::nat) \<le> 255" "(0::nat) \<le> 255" "(1::nat) \<le> 255" by simp_all
  ultimately show "checkValidIP ''127.0.0.1''"
    unfolding checkValidIP_iff by blast
  show "\<not> checkValidIP ''127.0.0.01''"
    by code_simp
qed

end
