(* ===== verification/RawData.thy ===== *)
theory RawData
  imports Addr
begin

text \<open>
  Tagged byte strings and packets of \<^theory_text>\<open>src/src/server.cpp\<close> (declared in
  \<^theory_text>\<open>src/include/server.h\<close>): \<open>raw_data\<close> with its tags, the packet serialisation between them, and the
  check and the extraction of a received tagged string. The \<open>uint32_t\<close> tags are only copied and compared
  bytewise, so they are lists of four bytes; a null \<open>data\<close> pointer is the empty buffer of size 0.
\<close>

definition bytes_of :: "string \<Rightarrow> byte list" where
  "bytes_of s = map (\<lambda>c. word_of_nat (code c)) s"

lemma length_bytes_of [simp]: "length (bytes_of s) = length s"
  by (simp add: bytes_of_def)

record raw_data =
  rdata :: "byte list"
  r_id :: u64
  rhead :: "byte list"
  rtail :: "byte list"
  rinfo :: "byte list"
  rmsg :: "byte list"
  raddress :: sockaddr_in

record packet =
  ptype :: u32
  paddress :: sockaddr_in
  buffs :: "byte list list"
  pif_encrypt :: bool

definition REQUSET_TYPE :: u32 where "REQUSET_TYPE = 100"
definition RESPOND_TYPE :: u32 where "RESPOND_TYPE = 101"
definition ENCRYPT_POST_TYPE :: u32 where "ENCRYPT_POST_TYPE = 102"
definition BUFSIZ :: nat where "BUFSIZ = 8192"

text \<open>\<open>raw_data()\<close> draws the id from the generator; the tags are uninitialised memory \<open>junk\<close>.\<close>

definition new_raw_data :: "u64 \<Rightarrow> byte list \<Rightarrow> raw_data" where
  "new_raw_data rnd junk = \<lparr>rdata = [], r_id = rnd, rhead = junk, rtail = junk, rinfo = junk, rmsg = [],
     raddress = zero_sockaddr\<rparr>"

definition new_packet :: "u32 \<Rightarrow> sockaddr_in \<Rightarrow> packet" where
  "new_packet ty a = \<lparr>ptype = ty, paddress = a, buffs = [], pif_encrypt = False\<rparr>"

definition setData :: "string \<Rightarrow> raw_data \<Rightarrow> raw_data" where
  "setData str rd = rd\<lparr>rdata := bytes_of str\<rparr>"

definition AddBuff :: "byte list \<Rightarrow> nat \<Rightarrow> packet \<Rightarrow> packet res" where
  "AddBuff pbuff sz pkt = bind_res (cut pbuff 0 sz) (\<lambda>b. Inr (pkt\<lparr>buffs := buffs pkt @ [b]\<rparr>))"

section \<open>Packets as byte strings\<close>

definition Packet2Rawdata :: "packet \<Rightarrow> raw_data \<Rightarrow> raw_data res" where
  "Packet2Rawdata tpkt rdt =
     (let bytes = le_enc 4 (unat (ptype tpkt)) @ concat (map (\<lambda>b. le_enc 4 (length b) @ b) (buffs tpkt))
      in if BUFSIZ < length bytes then Inl OutOfBounds else Inr (rdt\<lparr>rdata := bytes\<rparr>))"

function read_blocks :: "byte list \<Rightarrow> nat \<Rightarrow> packet \<Rightarrow> packet res" where
  "read_blocks data idx tpkt =
     (if idx < length data then
        bind_res (cut data idx 4) (\<lambda>u. let uint = le_dec u in
        bind_res (cut data (idx + 4) uint) (\<lambda>b.
        bind_res (AddBuff b uint tpkt) (\<lambda>tpkt. read_blocks data (idx + 4 + uint) tpkt)))
      else Inr tpkt)"
  by pat_completeness auto
termination by (relation "measure (\<lambda>(data, idx, tpkt). length data - idx)") auto

declare read_blocks.simps [simp del]

definition Rawdata2Packet :: "packet \<Rightarrow> raw_data \<Rightarrow> packet res" where
  "Rawdata2Packet tpkt trdt =
     bind_res (cut (rdata trdt) 0 4) (\<lambda>t.
       read_blocks (rdata trdt) 4 (tpkt\<lparr>ptype := word_of_nat (le_dec t)\<rparr>))"

section \<open>Tags\<close>

text \<open>\<open>info.data()\<close> is NUL-terminated, and four bytes of it are copied.\<close>

definition SignedRawdata :: "raw_data \<Rightarrow> string \<Rightarrow> raw_data res" where
  "SignedRawdata trdt info =
     bind_res (cut (bytes_of info @ [0]) 0 4) (\<lambda>inf.
       let head = bytes_of ''NETC''; tail = bytes_of ''CTEN''
       in Inr (trdt\<lparr>rhead := head, rtail := tail, rinfo := inf, rmsg := head @ inf @ rdata trdt @ tail\<rparr>))"

definition check_tags :: "byte list \<Rightarrow> byte list \<Rightarrow> byte list \<Rightarrow> bool res" where
  "check_tags head tail buf =
     bind_res (cut buf 0 4) (\<lambda>h.
       if h = head then bind_res (cut buf (length buf - 4) 4) (\<lambda>t. Inr (t = tail)) else Inr False)"

definition CheckRawMsg :: "byte list \<Rightarrow> bool res" where
  "CheckRawMsg p_rdt = check_tags (bytes_of ''NETC'') (bytes_of ''CTEN'') p_rdt"

text \<open>\<open>malloc\<close> of a size that wrapped below zero fails, and the code throws.\<close>

definition ProcessSignedRawMsg :: "byte list \<Rightarrow> raw_data \<Rightarrow> raw_data res" where
  "ProcessSignedRawMsg p_rdt rdt =
     (let size = length p_rdt in
      if size < 12 then Inl (ThrownText ''malloc error'')
      else bind_res (cut p_rdt 0 4) (\<lambda>h.
           bind_res (cut p_rdt 4 4) (\<lambda>inf.
           bind_res (cut p_rdt 8 (size - 12)) (\<lambda>d.
           bind_res (cut p_rdt (size - 4) 4) (\<lambda>t.
           Inr (rdt\<lparr>rdata := d, rhead := h, rinfo := inf, rtail := t\<rparr>))))))"

definition BuildBeatsRawData :: "raw_data \<Rightarrow> raw_data res" where
  "BuildBeatsRawData rwd = SignedRawdata (setData ''B'' rwd) ''BEAT''"

definition BuildSmallRawData :: "raw_data \<Rightarrow> string \<Rightarrow> raw_data res" where
  "BuildSmallRawData rwd info = SignedRawdata (setData [] rwd) info"

section \<open>Round trips\<close>

definition info_tag :: "string \<Rightarrow> byte list" where
  "info_tag info = take 4 (bytes_of info @ [0])"

lemma length_info_tag: "3 \<le> length info \<Longrightarrow> length (info_tag info) = 4"
  by (simp add: info_tag_def)

lemma cut_info_tag: "3 \<le> length info \<Longrightarrow> cut (bytes_of info @ [0]) 0 4 = Inr (info_tag info)"
  by (simp add: info_tag_def cut_def)

definition packet_bytes :: "byte list list \<Rightarrow> byte list" where
  "packet_bytes bs = concat (map (\<lambda>b. le_enc 4 (length b) @ b) bs)"

lemma packet_bytes_Cons: "packet_bytes (b # bs) = le_enc 4 (length b) @ b @ packet_bytes bs"
  by (simp add: packet_bytes_def)

lemma read_blocks_packet:
  assumes "\<forall>b \<in> set bs. length b < 2 ^ 32"
  shows "read_blocks (pre @ packet_bytes bs) (length pre) p = Inr (p\<lparr>buffs := buffs p @ bs\<rparr>)"
  using assms
proof (induction bs arbitrary: pre p)
  case Nil
  then show ?case by (simp add: read_blocks.simps packet_bytes_def)
next
  case (Cons b bs)
  let ?data = "pre @ le_enc 4 (length b) @ b @ packet_bytes bs"
  have len: "le_dec (le_enc 4 (length b)) = length b"
    using Cons.prems by (intro le_dec_enc) simp
  have 1: "cut ?data (length pre) 4 = Inr (le_enc 4 (length b))"
    by (rule cut_middle) simp_all
  have 2: "cut ?data (length pre + 4) (length b) = Inr b"
    using cut_middle [of "length pre + 4" "pre @ le_enc 4 (length b)" "length b" b "packet_bytes bs"] by simp
  have "read_blocks ?data (length pre + 4 + length b) (p\<lparr>buffs := buffs p @ [b]\<rparr>) =
      Inr (p\<lparr>buffs := buffs p @ b # bs\<rparr>)"
    using Cons.IH [of "pre @ le_enc 4 (length b) @ b" "p\<lparr>buffs := buffs p @ [b]\<rparr>"] Cons.prems
    by (simp add: add.assoc)
  moreover have "read_blocks ?data (length pre) p =
      read_blocks ?data (length pre + 4 + length b) (p\<lparr>buffs := buffs p @ [b]\<rparr>)"
    using 1 2 by (subst read_blocks.simps) (simp add: Let_def len AddBuff_def cut_front [where zs = "[]", simplified])
  ultimately show ?case by (simp add: packet_bytes_Cons)
qed

lemma Rawdata2Packet_packet:
  assumes "\<forall>b \<in> set bs. length b < 2 ^ 32"
    and "rdata rd = le_enc 4 (unat (ty :: u32)) @ packet_bytes bs"
  shows "Rawdata2Packet p rd = Inr (p\<lparr>ptype := ty, buffs := buffs p @ bs\<rparr>)"
  using assms(2) read_blocks_packet [OF assms(1), of "le_enc 4 (unat ty)" "p\<lparr>ptype := ty\<rparr>"]
  by (simp add: Rawdata2Packet_def cut_def)

definition packet_fits :: "packet \<Rightarrow> bool" where
  "packet_fits p \<longleftrightarrow> 4 + length (packet_bytes (buffs p)) \<le> BUFSIZ"

lemma packet_fits_blocks: "packet_fits p \<Longrightarrow> \<forall>b \<in> set (buffs p). length b < 2 ^ 32"
proof -
  have "b \<in> set bs \<Longrightarrow> length b \<le> length (packet_bytes bs)" for b bs
    by (induction bs) (auto simp: packet_bytes_Cons)
  then show "packet_fits p \<Longrightarrow> \<forall>b \<in> set (buffs p). length b < 2 ^ 32"
    by (fastforce simp: packet_fits_def BUFSIZ_def)
qed

lemma Packet2Rawdata_fits:
  "Packet2Rawdata p rd = (if packet_fits p
     then Inr (rd\<lparr>rdata := le_enc 4 (unat (ptype p)) @ packet_bytes (buffs p)\<rparr>) else Inl OutOfBounds)"
  by (simp add: Packet2Rawdata_def packet_fits_def packet_bytes_def Let_def)

lemma check_tags_framed [simp]:
  "length head = 4 \<Longrightarrow> length tail = 4 \<Longrightarrow> check_tags head tail (head @ body @ tail) = Inr True"
  by (simp add: check_tags_def cut_def)

lemma signed_round_trip:
  assumes "3 \<le> length info"
  shows "\<exists>sd. SignedRawdata rd info = Inr sd \<and> rdata sd = rdata rd
    \<and> CheckRawMsg (rmsg sd) = Inr True
    \<and> ProcessSignedRawMsg (rmsg sd) rd' = Inr (rd'\<lparr>rdata := rdata rd, rhead := bytes_of ''NETC'',
         rinfo := info_tag info, rtail := bytes_of ''CTEN''\<rparr>)"
proof -
  let ?inf = "info_tag info"
  let ?m = "bytes_of ''NETC'' @ ?inf @ rdata rd @ bytes_of ''CTEN''"
  have "CheckRawMsg ?m = Inr True"
    using check_tags_framed [of "bytes_of ''NETC''" "bytes_of ''CTEN''" "?inf @ rdata rd"]
    by (simp add: CheckRawMsg_def)
  moreover have "ProcessSignedRawMsg ?m rd' = Inr (rd'\<lparr>rdata := rdata rd, rhead := bytes_of ''NETC'',
      rinfo := ?inf, rtail := bytes_of ''CTEN''\<rparr>)"
    by (simp add: length_info_tag [OF assms] ProcessSignedRawMsg_def cut_def Let_def)
  ultimately show ?thesis
    using cut_info_tag [OF assms] by (simp add: SignedRawdata_def Let_def)
qed

text \<open>
  C8. A packet that fits the serialisation buffer survives the wire: serialised, tagged, checked,
  extracted and parsed again it has the same type and the same blocks; a packet that does not fit makes
  \<open>Packet2Rawdata\<close> write behind its buffer.
\<close>

theorem packet_wire_round_trip:
  assumes "3 \<le> length info"
  shows "if packet_fits p then
      \<exists>rd1 rd2 rd3. Packet2Rawdata p rd = Inr rd1 \<and> SignedRawdata rd1 info = Inr rd2
        \<and> CheckRawMsg (rmsg rd2) = Inr True \<and> ProcessSignedRawMsg (rmsg rd2) rd' = Inr rd3
        \<and> rinfo rd3 = info_tag info
        \<and> Rawdata2Packet (new_packet 0 a) rd3 = Inr ((new_packet (ptype p) a)\<lparr>buffs := buffs p\<rparr>)
    else Packet2Rawdata p rd = Inl OutOfBounds"
proof (cases "packet_fits p")
  case True
  let ?bytes = "le_enc 4 (unat (ptype p)) @ packet_bytes (buffs p)"
  obtain sd where sd: "SignedRawdata (rd\<lparr>rdata := ?bytes\<rparr>) info = Inr sd"
    "CheckRawMsg (rmsg sd) = Inr True"
    "ProcessSignedRawMsg (rmsg sd) rd' = Inr (rd'\<lparr>rdata := ?bytes, rhead := bytes_of ''NETC'',
       rinfo := info_tag info, rtail := bytes_of ''CTEN''\<rparr>)"
    using signed_round_trip [OF assms, of "rd\<lparr>rdata := ?bytes\<rparr>" rd'] by auto
  have "Rawdata2Packet (new_packet 0 a) rd3 = Inr ((new_packet (ptype p) a)\<lparr>buffs := buffs p\<rparr>)"
    if "rdata rd3 = ?bytes" for rd3
    using Rawdata2Packet_packet [OF packet_fits_blocks [OF True] that, of "new_packet 0 a"]
    by (simp add: new_packet_def)
  with sd True show ?thesis
    by (simp add: Packet2Rawdata_fits)
next
  case False
  then show ?thesis by (simp add: Packet2Rawdata_fits)
qed

theorem packet_wire_round_trip_witness:
  "\<exists>rd1 rd2 rd3. Packet2Rawdata ((new_packet 100 zero_sockaddr)\<lparr>buffs := [[1, 2], []]\<rparr>) (new_raw_data 7 []) = Inr rd1
     \<and> SignedRawdata rd1 ''SPKT'' = Inr rd2
     \<and> CheckRawMsg (rmsg rd2) = Inr True \<and> ProcessSignedRawMsg (rmsg rd2) (new_raw_data 8 []) = Inr rd3
     \<and> rinfo rd3 = info_tag ''SPKT''
     \<and> Rawdata2Packet (new_packet 0 zero_sockaddr) rd3 = Inr ((new_packet 100 zero_sockaddr)\<lparr>buffs := [[1, 2], []]\<rparr>)"
  using packet_wire_round_trip [of "''SPKT''" "(new_packet 100 zero_sockaddr)\<lparr>buffs := [[1, 2], []]\<rparr>"
      "new_raw_data 7 []" "new_raw_data 8 []" zero_sockaddr]
  by (simp add: packet_fits_def packet_bytes_def BUFSIZ_def new_packet_def)

text \<open>
  What passes \<open>CheckRawMsg\<close> has at least seven bytes, but seven are enough: the overlapping tags of
  the datagram \<open>NETCTEN\<close> pass, and \<open>ProcessSignedRawMsg\<close> then throws; from twelve bytes on it succeeds.
\<close>

theorem short_signed_message:
  "CheckRawMsg buf = Inr True \<longrightarrow> 7 \<le> length buf
     \<and> (if length buf < 12 then ProcessSignedRawMsg buf rd = Inl (ThrownText ''malloc error'')
        else \<exists>rd'. ProcessSignedRawMsg buf rd = Inr rd' \<and> length (rdata rd') = length buf - 12)"
proof
  assume ok: "CheckRawMsg buf = Inr True"
  then have h: "4 \<le> length buf" "take 4 buf = bytes_of ''NETC''" "drop (length buf - 4) buf = bytes_of ''CTEN''"
    by (auto simp: CheckRawMsg_def check_tags_def cut_def split: if_splits)
  have "7 \<le> length buf"
  proof (rule ccontr)
    assume "\<not> 7 \<le> length buf"
    then consider "length buf = 4" | "length buf = 5" | "length buf = 6" using h(1) by linarith
    then show False
    proof cases
      case 1
      with h have "bytes_of ''NETC'' = bytes_of ''CTEN''" by simp
      then show False by (simp add: bytes_of_def code_def)
    next
      case 2
      then obtain a b c d e where "buf = [a, b, c, d, e]" by (auto simp: length_Suc_conv numeral_eq_Suc)
      with h show False by (simp add: bytes_of_def code_def)
    next
      case 3
      then obtain a b c d e f where "buf = [a, b, c, d, e, f]" by (auto simp: length_Suc_conv numeral_eq_Suc)
      with h show False by (simp add: bytes_of_def code_def)
    qed
  qed
  then show "7 \<le> length buf
     \<and> (if length buf < 12 then ProcessSignedRawMsg buf rd = Inl (ThrownText ''malloc error'')
        else \<exists>rd'. ProcessSignedRawMsg buf rd = Inr rd' \<and> length (rdata rd') = length buf - 12)"
    by (auto simp: ProcessSignedRawMsg_def cut_def Let_def)
qed

theorem short_signed_message_witness:
  "CheckRawMsg (bytes_of ''NETCTEN'') = Inr True
   \<and> ProcessSignedRawMsg (bytes_of ''NETCTEN'') (new_raw_data 0 []) = Inl (ThrownText ''malloc error'')"
proof -
  have "CheckRawMsg (bytes_of ''NETCTEN'') = Inr True"
    by (simp add: CheckRawMsg_def check_tags_def cut_def bytes_of_def)
  then show ?thesis
    using short_signed_message [of "bytes_of ''NETCTEN''" "new_raw_data 0 []"] by simp
qed

end
