(* ===== verification/NetBoxes.thy ===== *)
theory NetBoxes
  imports RawData
begin

text \<open>
  Splitting a tagged byte string into UDP boxes and putting it together again:
  \<open>net_box\<close>, \<open>box_listener\<close>, \<open>Server::SentRawdata\<close>, \<open>Client::SendRawData\<close>, \<open>serverDeamon\<close>,
  \<open>boxProcessorDeamon\<close> and \<open>CleaningBoxs\<close> of \<^theory_text>\<open>src/src/server.cpp\<close>. The daemons hold the mutexes for
  almost their whole critical section (\<open>serverDeamon\<close> looks the listener up before it locks), and a run is taken to be
  a sequence of received datagrams and processing rounds.
  A \<open>std::map\<close> is its list of entries in key order.
\<close>

record net_box =
  idx :: u16
  cnt :: u16
  head :: "byte list"
  tail :: "byte list"
  b_id :: u64
  bdata :: "byte list"
  data_size :: u16
  send_data :: "byte list"
  sdt_size :: u16

definition new_net_box :: net_box where
  "new_net_box = \<lparr>idx = 0, cnt = 0, head = replicate 4 0, tail = replicate 4 0, b_id = 0, bdata = [],
     data_size = 0, send_data = [], sdt_size = 0\<rparr>"

definition set_box :: "byte list \<Rightarrow> u16 \<Rightarrow> net_box \<Rightarrow> net_box res" where
  "set_box pbuff pbsize nb =
     bind_res (cut pbuff 0 (unat pbsize)) (\<lambda>d. Inr (nb\<lparr>bdata := d, data_size := pbsize\<rparr>))"

definition build :: "net_box \<Rightarrow> net_box res" where
  "build nb =
     (let hd = bytes_of ''NETB''; tl = bytes_of ''BTEN'' in
      bind_res (cut (bdata nb) 0 (unat (data_size nb))) (\<lambda>d.
      Inr (nb\<lparr>head := hd, tail := tl,
        send_data := hd @ le_enc 8 (unat (b_id nb)) @ le_enc 2 (unat (idx nb)) @ le_enc 2 (unat (cnt nb))
          @ le_enc 2 (unat (data_size nb)) @ d @ tl,
        sdt_size := data_size nb + 22\<rparr>)))"

definition CheckNetBox :: "byte list \<Rightarrow> bool res" where
  "CheckNetBox p_nb = check_tags (bytes_of ''NETB'') (bytes_of ''BTEN'') p_nb"

definition ProcessNetBox :: "net_box \<Rightarrow> byte list \<Rightarrow> net_box res" where
  "ProcessNetBox tnb p_data =
     bind_res (cut p_data 0 4) (\<lambda>h. bind_res (cut p_data 4 8) (\<lambda>b.
     bind_res (cut p_data 12 2) (\<lambda>i. bind_res (cut p_data 14 2) (\<lambda>c.
     bind_res (cut p_data 16 2) (\<lambda>s. let n = le_dec s in
     bind_res (cut p_data 18 n) (\<lambda>d. bind_res (cut p_data (18 + n) 4) (\<lambda>t.
     Inr (tnb\<lparr>head := h, b_id := word_of_nat (le_dec b), idx := word_of_nat (le_dec i),
       cnt := word_of_nat (le_dec c), data_size := word_of_nat n, bdata := d, tail := t\<rparr>))))))))"

section \<open>Sending\<close>

text \<open>
  The loop of \<open>SentRawdata\<close> (the one of \<open>Client::SendRawData\<close> is the same): \<open>alls\<close> is signed, \<open>bidx\<close>
  is compared with \<open>msg_size - 1\<close>, \<open>tmp_cnt\<close> and \<open>tmp_idx\<close> are cut to 16 bits in the box. The result is
  the list of datagrams given to the socket.
\<close>

definition make_box :: "u64 \<Rightarrow> nat \<Rightarrow> nat \<Rightarrow> byte list \<Rightarrow> byte list res" where
  "make_box bid tmp_cnt tmp_idx bytes =
     bind_res (set_box bytes (word_of_nat (length bytes))
       (new_net_box\<lparr>b_id := bid, cnt := word_of_nat tmp_cnt, idx := word_of_nat tmp_idx\<rparr>)) (\<lambda>nnb.
     bind_res (build nnb) (\<lambda>nnb. cut (send_data nnb) 0 (unat (sdt_size nnb))))"

function split_loop :: "u64 \<Rightarrow> byte list \<Rightarrow> nat \<Rightarrow> nat \<Rightarrow> int \<Rightarrow> nat \<Rightarrow> nat \<Rightarrow> byte list list res" where
  "split_loop bid msg tmp_cnt aidx alls bidx tmp_idx =
     (if bidx < length msg - 1 then
        let alls = alls - 256;
            bidx' = (if 256 < alls then aidx + 255 else length msg - 1)
        in bind_res (cut msg aidx (bidx' - aidx + 1)) (\<lambda>bytes.
           bind_res (make_box bid tmp_cnt tmp_idx bytes) (\<lambda>dg.
           bind_res (split_loop bid msg tmp_cnt (bidx' + 1) alls bidx' (tmp_idx + 1)) (\<lambda>dgs. Inr (dg # dgs))))
      else Inr [])"
  by pat_completeness auto
termination
  by (relation "measure (\<lambda>(bid, msg, c, aidx, alls, bidx, i). length msg - aidx + (if bidx < length msg - 1 then 1 else 0))")
    (auto simp: cut_def split: if_splits)

declare split_loop.simps [simp del]

definition SentRawdata :: "raw_data \<Rightarrow> byte list list res" where
  "SentRawdata trdt =
     (let msg = rmsg trdt; msg_size = length msg in
      if 256 < msg_size then split_loop (r_id trdt) msg (msg_size div 256) 0 (int msg_size) 0 0
      else Inr [msg])"

section \<open>Receiving\<close>

record box_listener =
  l_id :: u64
  clicks :: int
  l_cnt :: nat
  nbn :: nat
  l_address :: sockaddr_in
  boxs :: "net_box option list"

record server =
  boxls :: "(u64 \<times> box_listener) list"
  rawdata_in :: "raw_data list"

fun map_insert :: "u64 \<Rightarrow> 'a \<Rightarrow> (u64 \<times> 'a) list \<Rightarrow> (u64 \<times> 'a) list" where
  "map_insert k v [] = [(k, v)]"
| "map_insert k v ((k', v') # es) =
     (if k < k' then (k, v) # (k', v') # es else if k = k' then (k', v') # es
      else (k', v') # map_insert k v es)"

definition map_replace :: "u64 \<Rightarrow> 'a \<Rightarrow> (u64 \<times> 'a) list \<Rightarrow> (u64 \<times> 'a) list" where
  "map_replace k v es = map (\<lambda>(k', v'). if k' = k then (k', v) else (k', v')) es"

text \<open>A box is stored when its slot is free; the slot index comes from the network unchecked.\<close>

definition store_box :: "net_box \<Rightarrow> box_listener \<Rightarrow> box_listener res" where
  "store_box nb l =
     bind_res (at (boxs l) (unat (idx nb))) (\<lambda>slot.
       Inr (if slot = None \<and> nbn l < l_cnt l
            then l\<lparr>boxs := (boxs l)[unat (idx nb) := Some nb], clicks := clicks l + 5, nbn := nbn l + 1\<rparr>
            else l))"

definition new_listener :: "net_box \<Rightarrow> sockaddr_in \<Rightarrow> box_listener res" where
  "new_listener nb a =
     (let bs = replicate (unat (cnt nb)) None in
      bind_res (at bs (unat (idx nb))) (\<lambda>_.
        Inr \<lparr>l_id = b_id nb, clicks = 15, l_cnt = unat (cnt nb), nbn = 1, l_address = a,
             boxs = bs[unat (idx nb) := Some nb]\<rparr>))"

text \<open>One datagram of \<open>serverDeamon\<close>; \<open>fresh\<close> is the \<open>raw_data\<close> that \<open>new raw_data()\<close> returns.\<close>

definition receive :: "raw_data \<Rightarrow> byte list \<Rightarrow> sockaddr_in \<Rightarrow> server \<Rightarrow> server res" where
  "receive fresh str taddr psvr =
     bind_res (CheckNetBox str) (\<lambda>is_box.
     if is_box then
       bind_res (ProcessNetBox new_net_box str) (\<lambda>nb.
       case map_of (boxls psvr) (b_id nb) of
         Some l \<Rightarrow> bind_res (store_box nb l) (\<lambda>l'.
           Inr (psvr\<lparr>boxls := map_replace (b_id nb) l' (boxls psvr)\<rparr>))
       | None \<Rightarrow> bind_res (new_listener nb taddr) (\<lambda>l.
           Inr (psvr\<lparr>boxls := map_insert (b_id nb) l (boxls psvr)\<rparr>)))
     else bind_res (CheckRawMsg str) (\<lambda>is_raw.
       if is_raw then
         bind_res (ProcessSignedRawMsg str fresh) (\<lambda>rd.
           Inr (psvr\<lparr>rawdata_in := rawdata_in psvr @ [rd\<lparr>raddress := taddr\<rparr>]\<rparr>))
       else Inr psvr))"

fun receive_all :: "raw_data \<Rightarrow> sockaddr_in \<Rightarrow> byte list list \<Rightarrow> server \<Rightarrow> server res" where
  "receive_all fresh taddr [] psvr = Inr psvr"
| "receive_all fresh taddr (str # strs) psvr =
     bind_res (receive fresh str taddr psvr) (receive_all fresh taddr strs)"

text \<open>
  One activation of \<open>serverDeamon\<close>: at most \<open>packet_max + 1\<close> reads, the last one being the first that
  finds the socket empty (a return value of 0).
\<close>

definition serverDeamon :: "nat \<Rightarrow> raw_data \<Rightarrow> sockaddr_in \<Rightarrow> byte list list \<Rightarrow> server \<Rightarrow> server res" where
  "serverDeamon packet_max fresh taddr pending psvr =
     receive_all fresh taddr (take (packet_max + 1) pending) psvr"

section \<open>Reassembly\<close>

fun collect :: "net_box option list \<Rightarrow> byte list res" where
  "collect [] = Inr []"
| "collect (None # bs) = Inl NullDeref"
| "collect (Some nb # bs) =
     bind_res (cut (bdata nb) 0 (unat (data_size nb))) (\<lambda>d. bind_res (collect bs) (\<lambda>ds. Inr (d @ ds)))"

definition TogtRawData :: "box_listener \<Rightarrow> raw_data \<Rightarrow> raw_data res" where
  "TogtRawData l trdt =
     bind_res (collect (take (l_cnt l) (boxs l))) (\<lambda>pbyt.
     bind_res (CheckRawMsg pbyt) (\<lambda>ok.
       if ok then ProcessSignedRawMsg pbyt trdt else Inr trdt))"

text \<open>One listener in one round of \<open>boxProcessorDeamon\<close>: the new listener and the finished string.\<close>

definition process_listener :: "raw_data \<Rightarrow> box_listener \<Rightarrow> (box_listener \<times> raw_data list) res" where
  "process_listener fresh l =
     (if clicks l < 0 then Inr (l, [])
      else if l_cnt l = nbn l then
        bind_res (TogtRawData l fresh) (\<lambda>rd.
          Inr (l\<lparr>clicks := -1, boxs := []\<rparr>, [rd\<lparr>r_id := l_id l, raddress := l_address l\<rparr>]))
      else if 0 < clicks l then Inr (l\<lparr>clicks := clicks l - 1\<rparr>, [])
      else Inr (l\<lparr>clicks := -1, boxs := []\<rparr>, []))"

fun process_boxls :: "raw_data \<Rightarrow> (u64 \<times> box_listener) list \<Rightarrow> ((u64 \<times> box_listener) list \<times> raw_data list) res" where
  "process_boxls fresh [] = Inr ([], [])"
| "process_boxls fresh ((k, l) # es) =
     bind_res (process_listener fresh l) (\<lambda>(l', rds).
     bind_res (process_boxls fresh es) (\<lambda>(es', rds'). Inr ((k, l') # es', rds @ rds')))"

definition CleaningBoxs :: "server \<Rightarrow> server" where
  "CleaningBoxs psvr = psvr\<lparr>boxls := filter (\<lambda>(k, l). clicks l \<noteq> -1) (boxls psvr)\<rparr>"

definition boxProcessorDeamon :: "raw_data \<Rightarrow> server \<Rightarrow> server res" where
  "boxProcessorDeamon fresh psvr =
     bind_res (process_boxls fresh (boxls psvr)) (\<lambda>(es, rds).
       Inr (CleaningBoxs (psvr\<lparr>boxls := es, rawdata_in := rawdata_in psvr @ rds\<rparr>)))"

section \<open>The pieces of a message\<close>

text \<open>The specification of the split: pieces of 256 bytes, and the last one takes the rest up to 512.\<close>

function chunks :: "'a list \<Rightarrow> 'a list list" where
  "chunks xs = (if length xs \<le> 512 then [xs] else take 256 xs # chunks (drop 256 xs))"
  by pat_completeness auto
termination by (relation "measure length") auto

declare chunks.simps [simp del]

lemma concat_chunks: "concat (chunks xs) = xs"
proof (induction xs rule: chunks.induct)
  case (1 xs)
  then show ?case by (subst chunks.simps) simp
qed

lemma chunks_nonempty [simp]: "chunks xs \<noteq> []"
  by (subst chunks.simps) simp

lemma chunks_small: "c \<in> set (chunks xs) \<Longrightarrow> length c \<le> 512"
proof (induction xs rule: chunks.induct)
  case (1 xs)
  then show ?case by (subst (asm) (2) chunks.simps) (auto split: if_splits)
qed

lemma length_chunks:
  "256 < length xs \<Longrightarrow> length (chunks xs) = (length xs - 1) div 256"
proof (induction xs rule: chunks.induct)
  case (1 xs)
  show ?case
  proof (cases "length xs \<le> 512")
    case True
    then have "(length xs - 1) div 256 = 1" using "1.prems" by (simp add: div_nat_eqI)
    then show ?thesis using True by (subst chunks.simps) simp
  next
    case False
    then have "length (chunks (drop 256 xs)) = (length xs - 256 - 1) div 256" using 1 by simp
    moreover have "(length xs - 1) div 256 = (length xs - 256 - 1) div 256 + 1"
    proof -
      have "length xs - 1 = (length xs - 256 - 1) + 256" using False by simp
      then show ?thesis by (metis div_add_self2 zero_neq_numeral)
    qed
    ultimately show ?thesis using False by (subst chunks.simps) simp
  qed
qed

section \<open>One box\<close>

definition box_bytes :: "u64 \<Rightarrow> nat \<Rightarrow> nat \<Rightarrow> byte list \<Rightarrow> byte list" where
  "box_bytes bid c i p = bytes_of ''NETB'' @ le_enc 8 (unat bid) @ le_enc 2 (unat (word_of_nat i :: u16))
     @ le_enc 2 (unat (word_of_nat c :: u16)) @ le_enc 2 (length p) @ p @ bytes_of ''BTEN''"

definition box_of :: "u64 \<Rightarrow> nat \<Rightarrow> nat \<Rightarrow> byte list \<Rightarrow> net_box" where
  "box_of bid c i p = new_net_box\<lparr>head := bytes_of ''NETB'', b_id := bid, idx := word_of_nat i,
     cnt := word_of_nat c, data_size := word_of_nat (length p), bdata := p, tail := bytes_of ''BTEN''\<rparr>"

lemma make_box_bytes:
  assumes "length p \<le> 512"
  shows "make_box bid c i p = Inr (box_bytes bid c i p)"
proof -
  have len: "unat (word_of_nat (length p) :: u16) = length p" using assms by (intro unat_of_nat_u16) simp
  have "unat (word_of_nat (length p) + 22 :: u16) = length p + 22"
    using assms by (subst unat_of_nat_u16 [of "length p + 22", symmetric]) simp_all
  then show ?thesis
    by (simp add: make_box_def set_box_def build_def box_bytes_def len Let_def cut_def)
qed

lemma CheckNetBox_box: "CheckNetBox (box_bytes bid c i p) = Inr True"
  using check_tags_framed [of "bytes_of ''NETB''" "bytes_of ''BTEN''"
      "le_enc 8 (unat bid) @ le_enc 2 (unat (word_of_nat i :: u16)) @ le_enc 2 (unat (word_of_nat c :: u16))
       @ le_enc 2 (length p) @ p"]
  by (simp add: CheckNetBox_def box_bytes_def)

lemma ProcessNetBox_box:
  assumes "length p \<le> 512"
  shows "ProcessNetBox new_net_box (box_bytes bid c i p) = Inr (box_of bid c i p)"
proof -
  have "le_dec (le_enc 2 (length p)) = length p" using assms by (intro le_dec_enc) simp
  then show ?thesis
    by (simp add: ProcessNetBox_def box_bytes_def box_of_def cut_def Let_def)
qed

section \<open>The split\<close>

lemma split_loop_chunks:
  assumes "aidx < length msg" "alls = int (length msg) - int aidx"
    and "bidx = (if aidx = 0 then 0 else aidx - 1)" "1 < length msg - aidx"
  shows "split_loop bid msg c aidx alls bidx i =
    Inr (map (\<lambda>(j, p). box_bytes bid c j p) (enumerate i (chunks (drop aidx msg))))"
  using assms
proof (induction "length msg - aidx" arbitrary: aidx alls bidx i rule: less_induct)
  case less
  have go: "bidx < length msg - 1" using less.prems by auto
  show ?case
  proof (cases "length msg - aidx \<le> 512")
    case True
    then have "\<not> 256 < alls - 256" using less.prems(2) by simp
    moreover have "length msg - 1 - aidx + 1 = length msg - aidx" using less.prems(1) by simp
    moreover have "split_loop bid msg c (length msg - 1 + 1) a (length msg - 1) j = Inr []" for a j
      by (subst split_loop.simps) simp
    moreover have "make_box bid c i (drop aidx msg) = Inr (box_bytes bid c i (drop aidx msg))"
      using True by (intro make_box_bytes) simp
    ultimately show ?thesis
      using go True less.prems(1) by (subst split_loop.simps, subst chunks.simps) (simp add: Let_def cut_def)
  next
    case False
    then have big: "256 < alls - 256" using less.prems(2) by simp
    have "split_loop bid msg c (aidx + 255 + 1) (alls - 256) (aidx + 255) (i + 1) =
        Inr (map (\<lambda>(j, p). box_bytes bid c j p) (enumerate (i + 1) (chunks (drop (aidx + 256) msg))))"
      using less.hyps [of "aidx + 256" "alls - 256" "aidx + 255" "i + 1"] False less.prems
      by (simp add: add.commute [of aidx])
    moreover have "make_box bid c i (take 256 (drop aidx msg)) = Inr (box_bytes bid c i (take 256 (drop aidx msg)))"
      by (rule make_box_bytes) simp
    ultimately show ?thesis
      using go False big less.prems(1)
      by (subst split_loop.simps, subst chunks.simps) (simp add: Let_def cut_def add.commute [of 256])
  qed
qed

lemma SentRawdata_chunks:
  assumes "256 < length (rmsg rd)"
  shows "SentRawdata rd = Inr (map (\<lambda>(j, p). box_bytes (r_id rd) (length (rmsg rd) div 256) j p)
    (enumerate 0 (chunks (rmsg rd))))"
proof -
  have "rmsg rd \<noteq> []" using assms by auto
  then show ?thesis
    using assms split_loop_chunks [of 0 "rmsg rd" "int (length (rmsg rd))" 0 "r_id rd"
        "length (rmsg rd) div 256" 0]
    by (simp add: SentRawdata_def Let_def)
qed

section \<open>Filling a listener\<close>

text \<open>The listener of \<open>n\<close> announced boxes that has received the pieces with the numbers in \<open>J\<close>.\<close>

definition partial_boxs :: "(nat \<Rightarrow> net_box) \<Rightarrow> nat \<Rightarrow> nat set \<Rightarrow> net_box option list" where
  "partial_boxs f n J = map (\<lambda>i. if i \<in> J then Some (f i) else None) [0 ..< n]"

definition listener_for :: "(nat \<Rightarrow> net_box) \<Rightarrow> nat \<Rightarrow> u64 \<Rightarrow> sockaddr_in \<Rightarrow> nat set \<Rightarrow> box_listener" where
  "listener_for f n bid a J = \<lparr>l_id = bid, clicks = 10 + 5 * int (card J), l_cnt = n, nbn = card J,
     l_address = a, boxs = partial_boxs f n J\<rparr>"

lemma partial_boxs_update:
  "j < n \<Longrightarrow> (partial_boxs f n J)[j := Some (f j)] = partial_boxs f n (insert j J)"
  by (rule nth_equalityI) (auto simp: partial_boxs_def nth_list_update)

lemma store_box_listener:
  assumes "j < n" "j \<notin> J" "J \<subseteq> {..< n}" "unat (idx (f j)) = j"
  shows "store_box (f j) (listener_for f n bid a J) = Inr (listener_for f n bid a (insert j J))"
proof -
  have fin: "finite J" using assms(3) finite_subset by blast
  have "J \<subset> {..< n}" using assms(1-3) by auto
  then have "card J < n" using psubset_card_mono [of "{..< n}" J] by simp
  then show ?thesis
    using assms fin partial_boxs_update [of j n f J]
    by (simp add: store_box_def listener_for_def at_def) (simp add: partial_boxs_def)
qed

lemma new_listener_first:
  assumes "j < n" "unat (idx (f j)) = j" "unat (cnt (f j)) = n" "b_id (f j) = bid"
  shows "new_listener (f j) a = Inr (listener_for f n bid a {j})"
proof -
  have "replicate n None = partial_boxs f n {}"
    by (rule nth_equalityI) (simp_all add: partial_boxs_def)
  then show ?thesis
    using assms by (simp add: new_listener_def at_def listener_for_def partial_boxs_update Let_def)
      (simp add: partial_boxs_def)
qed

text \<open>What a received box does, as far as the datagram is one: the step of the listener table.\<close>

lemma receive_box:
  assumes "CheckNetBox d = Inr True" "ProcessNetBox new_net_box d = Inr nb"
  shows "receive fresh d a s = (case map_of (boxls s) (b_id nb) of
      Some l \<Rightarrow> bind_res (store_box nb l) (\<lambda>l'. Inr (s\<lparr>boxls := map_replace (b_id nb) l' (boxls s)\<rparr>))
    | None \<Rightarrow> bind_res (new_listener nb a) (\<lambda>l. Inr (s\<lparr>boxls := map_insert (b_id nb) l (boxls s)\<rparr>)))"
  using assms by (simp add: receive_def)

lemma receive_rest:
  assumes "\<And>i. i < n \<Longrightarrow> CheckNetBox (g i) = Inr True \<and> ProcessNetBox new_net_box (g i) = Inr (f i)
      \<and> unat (idx (f i)) = i \<and> b_id (f i) = bid"
    and "distinct js" "set js \<subseteq> {..< n}" "set js \<inter> J = {}" "J \<subseteq> {..< n}"
    and "boxls s = [(bid, listener_for f n bid a J)]"
  shows "receive_all fresh a' (map g js) s = Inr (s\<lparr>boxls := [(bid, listener_for f n bid a (J \<union> set js))]\<rparr>)"
  using assms(2-6)
proof (induction js arbitrary: s J)
  case (Cons j js)
  let ?s = "s\<lparr>boxls := [(bid, listener_for f n bid a (insert j J))]\<rparr>"
  have j: "j < n" "j \<notin> J" using Cons.prems by auto
  then have "receive fresh (g j) a' s = Inr ?s"
    using Cons.prems assms(1) [OF j(1)] store_box_listener [OF j(1,2) Cons.prems(4), of f]
    by (simp add: receive_box map_replace_def)
  moreover have "receive_all fresh a' (map g js) ?s =
      Inr (?s\<lparr>boxls := [(bid, listener_for f n bid a (insert j J \<union> set js))]\<rparr>)"
    using Cons.prems j by (intro Cons.IH) auto
  ultimately show ?case by simp
qed simp

lemma receive_permuted:
  assumes boxes: "\<And>i. i < n \<Longrightarrow> CheckNetBox (g i) = Inr True \<and> ProcessNetBox new_net_box (g i) = Inr (f i)
      \<and> unat (idx (f i)) = i \<and> b_id (f i) = bid \<and> unat (cnt (f i)) = n"
    and js: "distinct js" "set js \<subseteq> {..< n}" "js \<noteq> []" and "boxls s = []"
  shows "receive_all fresh a (map g js) s = Inr (s\<lparr>boxls := [(bid, listener_for f n bid a (set js))]\<rparr>)"
proof -
  obtain j js' where j: "js = j # js'" using js(3) by (cases js) auto
  then have jn: "j < n" using js(2) by auto
  have "receive fresh (g j) a s = Inr (s\<lparr>boxls := [(bid, listener_for f n bid a {j})]\<rparr>)"
    using boxes [OF jn] new_listener_first [OF jn, of f bid a] assms(5) by (simp add: receive_box)
  moreover have "receive_all fresh a (map g js') (s\<lparr>boxls := [(bid, listener_for f n bid a {j})]\<rparr>) =
      Inr (s\<lparr>boxls := [(bid, listener_for f n bid a ({j} \<union> set js'))]\<rparr>)"
    using receive_rest [of n g f bid js' "{j}" "s\<lparr>boxls := [(bid, listener_for f n bid a {j})]\<rparr>" a fresh a]
      boxes js j by auto
  ultimately show ?thesis using j by simp
qed

lemma collect_full:
  assumes "\<And>i. i < length ps \<Longrightarrow> bdata (f i) = ps ! i \<and> unat (data_size (f i)) = length (ps ! i)"
  shows "collect (partial_boxs f (length ps) {..< length ps}) = Inr (concat ps)"
proof -
  have "collect (map (\<lambda>i. Some (f i)) [k ..< k + length qs]) = Inr (concat qs)"
    if "\<And>i. i < length qs \<Longrightarrow> bdata (f (k + i)) = qs ! i \<and> unat (data_size (f (k + i))) = length (qs ! i)" for k qs
    using that
  proof (induction qs arbitrary: k)
    case (Cons q qs)
    from Cons.prems [of 0] Cons.IH [of "Suc k"] Cons.prems [of "Suc i" for i] show ?case
      by (simp add: upt_conv_Cons cut_def del: upt_Suc)
  qed simp
  from this [of ps 0] assms have "collect (map (\<lambda>i. Some (f i)) [0 ..< length ps]) = Inr (concat ps)" by simp
  moreover have "partial_boxs f (length ps) {..< length ps} = map (\<lambda>i. Some (f i)) [0 ..< length ps]"
    by (simp add: partial_boxs_def)
  ultimately show ?thesis by simp
qed

section \<open>End to end\<close>

definition datagram :: "raw_data \<Rightarrow> nat \<Rightarrow> byte list" where
  "datagram rd i = box_bytes (r_id rd) (length (rmsg rd) div 256) i (chunks (rmsg rd) ! i)"

definition box_nr :: "raw_data \<Rightarrow> nat \<Rightarrow> net_box" where
  "box_nr rd i = box_of (r_id rd) (length (rmsg rd) div 256) i (chunks (rmsg rd) ! i)"

lemma SentRawdata_datagrams:
  assumes "256 < length (rmsg rd)"
  shows "SentRawdata rd = Inr (map (datagram rd) [0 ..< (length (rmsg rd) - 1) div 256])"
  using SentRawdata_chunks [OF assms] length_chunks [OF assms]
  by (simp add: enumerate_eq_zip datagram_def list_eq_iff_nth_eq)

lemma datagram_box:
  assumes "256 < length (rmsg rd)" "length (rmsg rd) < 2 ^ 24" "i < (length (rmsg rd) - 1) div 256"
  shows "CheckNetBox (datagram rd i) = Inr True \<and> ProcessNetBox new_net_box (datagram rd i) = Inr (box_nr rd i)
    \<and> unat (idx (box_nr rd i)) = i \<and> b_id (box_nr rd i) = r_id rd
    \<and> unat (cnt (box_nr rd i)) = length (rmsg rd) div 256
    \<and> bdata (box_nr rd i) = chunks (rmsg rd) ! i
    \<and> unat (data_size (box_nr rd i)) = length (chunks (rmsg rd) ! i)"
proof -
  have "chunks (rmsg rd) ! i \<in> set (chunks (rmsg rd))"
    using assms(1,3) by (simp add: length_chunks)
  then have small: "length (chunks (rmsg rd) ! i) \<le> 512" by (rule chunks_small)
  have "length (rmsg rd) div 256 < 2 ^ 16" using assms(2) by (simp add: less_mult_imp_div_less)
  moreover have "i < 2 ^ 16"
    using assms(2,3) by (simp add: less_mult_imp_div_less)
  ultimately show ?thesis
    using small CheckNetBox_box ProcessNetBox_box [OF small]
    by (simp add: datagram_def box_nr_def box_of_def unat_of_nat_u16)
qed

lemma receive_datagrams:
  assumes "256 < length (rmsg rd)" "length (rmsg rd) < 2 ^ 24" "boxls s = []"
    and "distinct js" "set js = {..< (length (rmsg rd) - 1) div 256}"
  shows "receive_all fresh a (map (datagram rd) js) s =
    Inr (s\<lparr>boxls := [(r_id rd, listener_for (box_nr rd) (length (rmsg rd) div 256) (r_id rd) a (set js))]\<rparr>)"
proof -
  let ?n = "length (rmsg rd) div 256" and ?m = "(length (rmsg rd) - 1) div 256"
  have "?m \<le> ?n" by (simp add: div_le_mono)
  moreover have "0 < ?m" using assms(1) by (simp add: div_greater_zero_iff)
  \<comment> \<open>the boxes behind the last one are never sent; any well-formed one serves\<close>
  define g where "g i = (if i < ?m then datagram rd i else box_bytes (r_id rd) ?n i [])" for i
  define f where "f i = (if i < ?m then box_nr rd i else box_of (r_id rd) ?n i [])" for i
  have n16: "?n < 2 ^ 16" using assms(2) by (simp add: less_mult_imp_div_less)
  have "CheckNetBox (g i) = Inr True \<and> ProcessNetBox new_net_box (g i) = Inr (f i)
      \<and> unat (idx (f i)) = i \<and> b_id (f i) = r_id rd \<and> unat (cnt (f i)) = ?n" if "i < ?n" for i
  proof (cases "i < ?m")
    case True
    then show ?thesis using datagram_box [OF assms(1,2) True] by (simp add: g_def f_def)
  next
    case False
    have "i < 2 ^ 16" using that n16 by linarith
    with False show ?thesis
      using n16 ProcessNetBox_box [of "[]"] CheckNetBox_box
      by (simp add: g_def f_def box_of_def unat_of_nat_u16)
  qed
  moreover have "set js \<subseteq> {..< ?n}" using assms(5) \<open>?m \<le> ?n\<close> by (simp only: lessThan_subset_iff)
  moreover have "0 \<in> set js" using assms(5) \<open>0 < ?m\<close> by (simp only: lessThan_iff)
  then have "js \<noteq> []" by force
  ultimately have "receive_all fresh a (map g js) s =
      Inr (s\<lparr>boxls := [(r_id rd, listener_for f ?n (r_id rd) a (set js))]\<rparr>)"
    using assms(3,4) by (intro receive_permuted) blast+
  moreover have "map g js = map (datagram rd) js" using assms(5) by (simp add: g_def)
  moreover have "listener_for f ?n (r_id rd) a (set js) = listener_for (box_nr rd) ?n (r_id rd) a (set js)"
    using assms(5) by (simp add: listener_for_def partial_boxs_def f_def)
  ultimately show ?thesis by simp
qed

lemma reassembly:
  assumes "256 < length (rmsg rd)" "length (rmsg rd) < 2 ^ 24" "length (rmsg rd) mod 256 \<noteq> 0"
    and "CheckRawMsg (rmsg rd) = Inr True" "ProcessSignedRawMsg (rmsg rd) fresh' = Inr rd'" and "boxls s = []"
    and "distinct js" "set js = {..< length (rmsg rd) div 256}"
  shows "\<exists>dgs s1 s2. SentRawdata rd = Inr dgs \<and> length dgs = length (rmsg rd) div 256
    \<and> receive_all fresh a (map (\<lambda>j. dgs ! j) js) s = Inr s1 \<and> boxProcessorDeamon fresh' s1 = Inr s2
    \<and> boxls s2 = [] \<and> rawdata_in s2 = rawdata_in s @ [rd'\<lparr>r_id := r_id rd, raddress := a\<rparr>]"
proof -
  let ?n = "length (rmsg rd) div 256"
  have n: "(length (rmsg rd) - 1) div 256 = ?n"
    using assms(1,3) by (cases "length (rmsg rd)") (simp_all add: div_Suc)
  let ?l = "listener_for (box_nr rd) ?n (r_id rd) a {..< ?n}"
  let ?s1 = "s\<lparr>boxls := [(r_id rd, ?l)]\<rparr>"
  have len: "length (chunks (rmsg rd)) = ?n" using length_chunks [OF assms(1)] n by simp
  have "map (\<lambda>j. map (datagram rd) [0 ..< ?n] ! j) js = map (datagram rd) js"
    using assms(8) by simp
  note same = this
  have rec: "receive_all fresh a (map (\<lambda>j. map (datagram rd) [0 ..< ?n] ! j) js) s = Inr ?s1"
    unfolding same using receive_datagrams [OF assms(1,2,6,7), of fresh a] assms(8) n by simp
  have "collect (partial_boxs (box_nr rd) ?n {..< ?n}) = Inr (rmsg rd)"
    using collect_full [of "chunks (rmsg rd)" "box_nr rd"] datagram_box [OF assms(1,2)] len n
    by (simp add: concat_chunks)
  then have "TogtRawData ?l fresh' = Inr rd'"
    using assms(4,5) by (simp add: TogtRawData_def listener_for_def partial_boxs_def)
  then have "boxProcessorDeamon fresh' ?s1 =
      Inr (s\<lparr>boxls := [], rawdata_in := rawdata_in s @ [rd'\<lparr>r_id := r_id rd, raddress := a\<rparr>]\<rparr>)"
    by (simp add: boxProcessorDeamon_def process_listener_def listener_for_def CleaningBoxs_def)
  with rec show ?thesis
    using SentRawdata_datagrams [OF assms(1)] n by auto
qed

text \<open>
  C3. UDP transport: a tagged string longer than 256 bytes whose length is not a multiple of 256 is split
  into boxes; received in any order by a server that is not waiting for other boxes, they are put together
  by the next processing round into the string that was sent, with its id and the sender's address.
\<close>

theorem udp_reassembly:
  assumes "256 < length (rmsg rd)" "length (rmsg rd) < 2 ^ 24" "length (rmsg rd) mod 256 \<noteq> 0"
    and "CheckRawMsg (rmsg rd) = Inr True" "ProcessSignedRawMsg (rmsg rd) fresh' = Inr rd'" and "boxls s = []"
    and "distinct js" "set js = {..< length (rmsg rd) div 256}"
  shows "\<exists>dgs s1 s2. SentRawdata rd = Inr dgs \<and> length dgs = length (rmsg rd) div 256
    \<and> receive_all fresh a (map (\<lambda>j. dgs ! j) js) s = Inr s1 \<and> boxProcessorDeamon fresh' s1 = Inr s2
    \<and> boxls s2 = [] \<and> rawdata_in s2 = rawdata_in s @ [rd'\<lparr>r_id := r_id rd, raddress := a\<rparr>]"
  by (rule reassembly [OF assms])

definition sample_raw :: raw_data where
  "sample_raw = (new_raw_data 7 [])\<lparr>rmsg := bytes_of ''NETC'' @ bytes_of ''SPKT'' @ replicate 588 0 @ bytes_of ''CTEN''\<rparr>"

theorem udp_reassembly_witness:
  "\<exists>dgs s1 s2. SentRawdata sample_raw = Inr dgs \<and> length dgs = 2
    \<and> receive_all (new_raw_data 1 []) zero_sockaddr (map (\<lambda>j. dgs ! j) [1, 0]) \<lparr>boxls = [], rawdata_in = []\<rparr> = Inr s1
    \<and> boxProcessorDeamon (new_raw_data 1 []) s1 = Inr s2 \<and> boxls s2 = []
    \<and> map rdata (rawdata_in s2) = [replicate 588 0] \<and> map rinfo (rawdata_in s2) = [bytes_of ''SPKT'']"
proof -
  have sel: "rmsg sample_raw = bytes_of ''NETC'' @ (bytes_of ''SPKT'' @ replicate 588 0) @ bytes_of ''CTEN''"
    "r_id sample_raw = 7" by (simp_all add: sample_raw_def new_raw_data_def)
  have len: "length (rmsg sample_raw) = 600" by (simp add: sel)
  have ok: "CheckRawMsg (rmsg sample_raw) = Inr True"
    unfolding sel CheckRawMsg_def by (rule check_tags_framed) simp_all
  obtain rd' where rd': "ProcessSignedRawMsg (rmsg sample_raw) (new_raw_data 1 []) = Inr rd'"
    "rdata rd' = replicate 588 0" "rinfo rd' = bytes_of ''SPKT''"
    by (simp add: sel ProcessSignedRawMsg_def cut_def Let_def)
  have "set [1, 0] = {..< length (rmsg sample_raw) div 256}" unfolding len by auto
  with udp_reassembly [OF _ _ _ ok rd'(1), of "\<lparr>boxls = [], rawdata_in = []\<rparr>" "[1, 0]" "new_raw_data 1 []" zero_sockaddr]
  obtain dgs s1 s2 where "SentRawdata sample_raw = Inr dgs" "length dgs = 2"
    "receive_all (new_raw_data 1 []) zero_sockaddr (map (\<lambda>j. dgs ! j) [1, 0]) \<lparr>boxls = [], rawdata_in = []\<rparr> = Inr s1"
    "boxProcessorDeamon (new_raw_data 1 []) s1 = Inr s2" "boxls s2 = []"
    "rawdata_in s2 = [rd'\<lparr>r_id := r_id sample_raw, raddress := zero_sockaddr\<rparr>]"
    unfolding len by auto
  with rd' show ?thesis by (intro exI [of _ dgs] exI [of _ s1] exI [of _ s2]) simp
qed

section \<open>Messages that never arrive\<close>

fun box_rounds :: "raw_data \<Rightarrow> nat \<Rightarrow> server \<Rightarrow> server res" where
  "box_rounds fresh 0 s = Inr s"
| "box_rounds fresh (Suc k) s = bind_res (boxProcessorDeamon fresh s) (box_rounds fresh k)"

lemma incomplete_expires:
  assumes "boxls s = [(k, l)]" "nbn l \<noteq> l_cnt l" "0 \<le> clicks l"
  shows "box_rounds fresh (nat (clicks l) + 1) s = Inr (s\<lparr>boxls := []\<rparr>)"
  using assms
proof (induction "nat (clicks l)" arbitrary: s l)
  case 0
  then show ?case
    by (simp add: boxProcessorDeamon_def process_listener_def CleaningBoxs_def)
next
  case (Suc c)
  let ?l = "l\<lparr>clicks := clicks l - 1\<rparr>"
  have "0 < clicks l" using Suc.hyps(2) by simp
  then have "boxProcessorDeamon fresh s = Inr (s\<lparr>boxls := [(k, ?l)]\<rparr>)"
    using Suc.prems
    by (simp add: boxProcessorDeamon_def process_listener_def CleaningBoxs_def)
  moreover have "box_rounds fresh (nat (clicks ?l) + 1) (s\<lparr>boxls := [(k, ?l)]\<rparr>) = Inr (s\<lparr>boxls := []\<rparr>)"
    using Suc.hyps(1) [of ?l "s\<lparr>boxls := [(k, ?l)]\<rparr>"] Suc.hyps(2) Suc.prems by simp
  moreover have "nat (clicks l) = nat (clicks ?l) + 1" using Suc.hyps(2) by simp
  ultimately show ?case by simp
qed

text \<open>
  C14. When the length of the tagged string is a multiple of 256 (and more than 256), \<open>SentRawdata\<close>
  announces one box more than it sends. Although every datagram arrives, in whatever order, no processing
  round ever delivers the string; the listener expires and its content is dropped.
\<close>

theorem multiple_of_256_is_lost:
  assumes "256 < length (rmsg rd)" "length (rmsg rd) < 2 ^ 24" "length (rmsg rd) mod 256 = 0"
    and "boxls s = []" and "distinct js" "set js = {..< length (rmsg rd) div 256 - 1}"
  shows "\<exists>dgs s1 rounds. SentRawdata rd = Inr dgs \<and> length dgs = length (rmsg rd) div 256 - 1
    \<and> receive_all fresh a (map (\<lambda>j. dgs ! j) js) s = Inr s1
    \<and> box_rounds fresh rounds s1 = Inr s"
proof -
  let ?n = "length (rmsg rd) div 256"
  have n: "(length (rmsg rd) - 1) div 256 = ?n - 1"
    using assms(1,3) by (cases "length (rmsg rd)") (simp_all add: div_Suc)
  have pos: "1 < ?n" using assms(1,3) by (cases "?n"; cases "?n - 1") auto
  let ?l = "listener_for (box_nr rd) ?n (r_id rd) a (set js)"
  let ?s1 = "s\<lparr>boxls := [(r_id rd, ?l)]\<rparr>"
  have same: "map (\<lambda>j. map (datagram rd) [0 ..< ?n - 1] ! j) js = map (datagram rd) js"
    using assms(6) by simp
  have recv: "receive_all fresh a (map (\<lambda>j. map (datagram rd) [0 ..< ?n - 1] ! j) js) s = Inr ?s1"
    unfolding same using receive_datagrams [OF assms(1,2,4,5), of fresh a] assms(6) n by simp
  have "nbn ?l \<noteq> l_cnt ?l" "0 \<le> clicks ?l"
    using assms(6) pos by (simp_all add: listener_for_def)
  then have "box_rounds fresh (nat (clicks ?l) + 1) ?s1 = Inr (?s1\<lparr>boxls := []\<rparr>)"
    by (intro incomplete_expires) simp_all
  moreover have "?s1\<lparr>boxls := []\<rparr> = s" using assms(4) by (cases s) simp
  ultimately have "box_rounds fresh (nat (clicks ?l) + 1) ?s1 = Inr s" by simp
  moreover have "SentRawdata rd = Inr (map (datagram rd) [0 ..< ?n - 1])"
    using SentRawdata_datagrams [OF assms(1)] n by simp
  ultimately show ?thesis using recv
    by (intro exI [of _ "map (datagram rd) [0 ..< ?n - 1]"] exI [of _ ?s1] exI [of _ "nat (clicks ?l) + 1"]) simp
qed

theorem multiple_of_256_is_lost_witness:
  "\<exists>dgs s1 rounds. SentRawdata ((new_raw_data 7 [])\<lparr>rmsg := replicate 512 1\<rparr>) = Inr dgs \<and> length dgs = 1
    \<and> receive_all (new_raw_data 1 []) zero_sockaddr (map (\<lambda>j. dgs ! j) [0]) \<lparr>boxls = [], rawdata_in = []\<rparr> = Inr s1
    \<and> box_rounds (new_raw_data 1 []) rounds s1 = Inr \<lparr>boxls = [], rawdata_in = []\<rparr>"
proof -
  have "set [0::nat] = {..< length (rmsg ((new_raw_data 7 [])\<lparr>rmsg := replicate 512 1\<rparr>)) div 256 - 1}"
    by (simp add: lessThan_Suc)
  from multiple_of_256_is_lost [OF _ _ _ _ _ this, of "\<lparr>boxls = [], rawdata_in = []\<rparr>" "new_raw_data 1 []" zero_sockaddr]
  show ?thesis by simp
qed

section \<open>The listener table\<close>

definition listener_ok :: "box_listener \<Rightarrow> bool" where
  "listener_ok l \<longleftrightarrow> length (boxs l) = l_cnt l \<and> nbn l = length (filter (\<lambda>b. b \<noteq> None) (boxs l))
     \<and> 0 \<le> clicks l \<and> (\<forall>nb. Some nb \<in> set (boxs l) \<longrightarrow> length (bdata nb) = unat (data_size nb))"

definition server_ok :: "server \<Rightarrow> bool" where
  "server_ok s \<longleftrightarrow> (\<forall>(k, l) \<in> set (boxls s). listener_ok l)"

lemma length_filter_update:
  "i < length xs \<Longrightarrow> \<not> P (xs ! i) \<Longrightarrow> P x \<Longrightarrow> length (filter P (xs[i := x])) = length (filter P xs) + 1"
proof (induction xs arbitrary: i)
  case (Cons y ys)
  then show ?case by (cases i) auto
qed simp

lemma store_box_ok:
  assumes "listener_ok l" "store_box nb l = Inr l'" "length (bdata nb) = unat (data_size nb)"
  shows "listener_ok l'"
proof -
  have i: "unat (idx nb) < length (boxs l)" using assms(2) by (auto simp: store_box_def at_Inr_iff)
  show ?thesis
  proof (cases "boxs l ! unat (idx nb) = None \<and> nbn l < l_cnt l")
    case True
    then have "l' = l\<lparr>boxs := (boxs l)[unat (idx nb) := Some nb], clicks := clicks l + 5, nbn := nbn l + 1\<rparr>"
      using assms(2) i by (simp add: store_box_def at_def)
    then show ?thesis
      using assms(1,3) i True set_update_subset_insert [of "boxs l" "unat (idx nb)" "Some nb"]
      by (auto simp: listener_ok_def length_filter_update)
  next
    case False
    then show ?thesis using assms(1,2) i by (auto simp: store_box_def at_def split: if_splits)
  qed
qed

lemma new_listener_ok:
  assumes "new_listener nb a = Inr l" "length (bdata nb) = unat (data_size nb)"
  shows "listener_ok l"
proof -
  let ?bs = "replicate (unat (cnt nb)) (None :: net_box option)"
  have i: "unat (idx nb) < length ?bs" using assms(1) by (auto simp: new_listener_def Let_def at_Inr_iff)
  then have "length (filter (\<lambda>b. b \<noteq> None) (?bs[unat (idx nb) := Some nb])) = 1"
    by (subst length_filter_update) simp_all
  then show ?thesis
    using assms set_update_subset_insert [of ?bs "unat (idx nb)" "Some nb"]
    by (auto simp: new_listener_def at_def listener_ok_def Let_def split: if_splits)
qed

lemma map_insert_all: "\<forall>(k, l) \<in> set es. P l \<Longrightarrow> P v \<Longrightarrow> \<forall>(k, l) \<in> set (map_insert k v es). P l"
proof (induction es)
  case (Cons e es)
  then show ?case by (cases e) auto
qed simp

lemma ProcessNetBox_size: "ProcessNetBox nb d = Inr nb' \<Longrightarrow> length (bdata nb') = unat (data_size nb')"
proof -
  assume a: "ProcessNetBox nb d = Inr nb'"
  then obtain s p where s: "cut d 16 2 = Inr s" "cut d 18 (le_dec s) = Inr p" "bdata nb' = p"
      "data_size nb' = word_of_nat (le_dec s)"
    by (fastforce simp: ProcessNetBox_def Let_def)
  then have "length s = 2" "length p = le_dec s" by (auto dest: cut_length)
  moreover from this have "le_dec s < 2 ^ 16" using le_dec_less [of s] by simp
  ultimately show ?thesis using s by (simp add: unat_of_nat_u16)
qed

lemma receive_ok:
  assumes "server_ok s" "receive fresh d a s = Inr s'"
  shows "server_ok s'"
proof -
  obtain is_box where b: "CheckNetBox d = Inr is_box" using assms(2) by (auto simp: receive_def)
  show ?thesis
  proof (cases is_box)
    case True
    then obtain nb where nb: "ProcessNetBox new_net_box d = Inr nb"
      using assms(2) b by (auto simp: receive_def)
    note size = ProcessNetBox_size [OF nb]
    show ?thesis
    proof (cases "map_of (boxls s) (b_id nb)")
      case None
      then obtain l where l: "new_listener nb a = Inr l" "s' = s\<lparr>boxls := map_insert (b_id nb) l (boxls s)\<rparr>"
        using assms(2) receive_box [of d nb fresh a s] b nb True by auto
      then show ?thesis
        using assms(1) new_listener_ok [OF l(1) size] map_insert_all by (simp add: server_ok_def)
    next
      case (Some l)
      then obtain l' where l': "store_box nb l = Inr l'" "s' = s\<lparr>boxls := map_replace (b_id nb) l' (boxls s)\<rparr>"
        using assms(2) receive_box [of d nb fresh a s] b nb True by auto
      have "listener_ok l" using assms(1) map_of_SomeD [OF Some] by (auto simp: server_ok_def)
      then have "listener_ok l'" using l'(1) size by (rule store_box_ok)
      then show ?thesis using assms(1) l'(2) by (auto simp: server_ok_def map_replace_def split: if_splits)
    qed
  next
    case False
    then obtain rds where "s' = s\<lparr>rawdata_in := rds\<rparr>"
      using assms(2) b by (cases s) (auto simp: receive_def split: if_splits)
    then show ?thesis using assms(1) by (simp add: server_ok_def)
  qed
qed

lemma collect_ok:
  assumes "\<forall>b \<in> set bs. b \<noteq> None" "\<forall>nb. Some nb \<in> set bs \<longrightarrow> length (bdata nb) = unat (data_size nb)"
  shows "\<exists>p. collect bs = Inr p"
  using assms
proof (induction bs)
  case (Cons b bs)
  then obtain nb where "b = Some nb" by (cases b) auto
  with Cons show ?case by (fastforce simp: cut_def)
qed simp

lemma process_listener_ok:
  assumes "listener_ok l"
  shows "case process_listener fresh l of
      Inr (l', rds) \<Rightarrow> clicks l' = -1 \<or> listener_ok l'
    | Inl e \<Rightarrow> e = OutOfBounds \<or> e = ThrownText ''malloc error''"
proof (cases "l_cnt l = nbn l")
  case False
  then show ?thesis using assms by (simp add: process_listener_def listener_ok_def)
next
  case True
  then have "length (filter (\<lambda>b. b \<noteq> None) (boxs l)) = length (boxs l)"
    using assms by (simp add: listener_ok_def)
  then have "\<forall>b \<in> set (boxs l). b \<noteq> None"
    by (metis (mono_tags, lifting) length_filter_less nat_neq_iff)
  then obtain p where p: "collect (take (l_cnt l) (boxs l)) = Inr p"
    using assms collect_ok [of "boxs l"] by (auto simp: listener_ok_def)
  have "case TogtRawData l fresh of Inr rd \<Rightarrow> True | Inl e \<Rightarrow> e = OutOfBounds \<or> e = ThrownText ''malloc error''"
    by (auto simp: TogtRawData_def p CheckRawMsg_def check_tags_def cut_def ProcessSignedRawMsg_def Let_def)
  then show ?thesis
    using True assms by (auto simp: process_listener_def listener_ok_def split: sum.splits)
qed

lemma process_boxls_ok:
  assumes "\<forall>(k, l) \<in> set es. listener_ok l"
  shows "case process_boxls fresh es of
      Inr (es', rds) \<Rightarrow> \<forall>(k, l) \<in> set es'. clicks l = -1 \<or> listener_ok l
    | Inl e \<Rightarrow> e = OutOfBounds \<or> e = ThrownText ''malloc error''"
  using assms
proof (induction es)
  case (Cons e es)
  obtain k l where e: "e = (k, l)" by fastforce
  have "listener_ok l" using Cons.prems e by simp
  then show ?case
    using process_listener_ok [of l fresh] Cons
    by (cases "process_listener fresh l"; cases "process_boxls fresh es") (auto simp: e)
qed simp



text \<open>
  The slot number of a received box is not checked: a box whose number is not below its announced
  count makes the server write behind the slot array it has just allocated.
\<close>

theorem box_index_unchecked:
  assumes "length p \<le> 512" "c \<le> i" "i < 2 ^ 16" "map_of (boxls s) bid = None"
  shows "receive fresh (box_bytes bid c i p) a s = Inl OutOfBounds"
proof -
  have "c < 2 ^ 16" using assms(2,3) by simp
  then show ?thesis
    using assms receive_box [OF CheckNetBox_box ProcessNetBox_box [OF assms(1)]]
    by (simp add: box_of_def new_listener_def unat_of_nat_u16)
qed

theorem box_index_unchecked_witness:
  "receive (new_raw_data 1 []) (box_bytes 5 1 1 [0]) zero_sockaddr \<lparr>boxls = [], rawdata_in = []\<rparr> = Inl OutOfBounds"
  by (rule box_index_unchecked) simp_all

end
