(* ===== verification/Sha1.thy ===== *)
theory Sha1
  imports CStrings
begin

text \<open>
  SHA-1 as \<^theory_text>\<open>src/src/sha1.cpp\<close> computes it: the transform of one block, the context that takes bytes
  in arbitrary portions, padding and digest. The specification absorbs the padded message block by block.
\<close>

record SHA1_CTX =
  state :: "u32 list"
  count :: "u32 \<times> u32"
  buffer :: "byte list"

definition rol :: "u32 \<Rightarrow> nat \<Rightarrow> u32" where
  "rol value bits = push_bit bits value OR drop_bit (32 - bits) value"

section \<open>One block\<close>

text \<open>The union \<open>CHAR64LONG16\<close>: the 64 bytes as 16 words in memory order.\<close>

definition load_block :: "byte list \<Rightarrow> u32 list" where
  "load_block bytes = map (\<lambda>i. word_of_nat (le_dec (take 4 (drop (4 * i) bytes)))) [0 ..< 16]"

definition blk0 :: "u32 list \<Rightarrow> nat \<Rightarrow> u32 list" where
  "blk0 l i = l[i := (rol (l ! i) 24 AND 0xFF00FF00) OR (rol (l ! i) 8 AND 0x00FF00FF)]"

definition blk :: "u32 list \<Rightarrow> nat \<Rightarrow> u32 list" where
  "blk l i = l[i mod 16 := rol (l ! ((i + 13) mod 16) XOR l ! ((i + 8) mod 16)
     XOR l ! ((i + 2) mod 16) XOR l ! (i mod 16)) 1]"

text \<open>
  The macros \<open>R0\<close> to \<open>R4\<close> differ in the boolean function and the constant. The unrolled calls rotate
  the roles of the five variables: after \<open>R(v, w, x, y, z, i)\<close> comes \<open>R(z, v, w, x, y, i + 1)\<close>, so the
  tuple is rotated after each step; after 80 steps every variable is in its place again.
\<close>

definition round_f :: "nat \<Rightarrow> u32 \<Rightarrow> u32 \<Rightarrow> u32 \<Rightarrow> u32" where
  "round_f i w x y =
     (if i < 20 then (w AND (x XOR y)) XOR y
      else if i < 40 then w XOR x XOR y
      else if i < 60 then ((w OR x) AND y) OR (w AND x)
      else w XOR x XOR y)"

definition round_k :: "nat \<Rightarrow> u32" where
  "round_k i = (if i < 20 then 0x5A827999 else if i < 40 then 0x6ED9EBA1
     else if i < 60 then 0x8F1BBCDC else 0xCA62C1D6)"

fun sha1_step :: "(u32 list \<times> u32 \<times> u32 \<times> u32 \<times> u32 \<times> u32) \<Rightarrow> nat \<Rightarrow> (u32 list \<times> u32 \<times> u32 \<times> u32 \<times> u32 \<times> u32)" where
  "sha1_step (l, v, w, x, y, z) i =
     (let l = (if i < 16 then blk0 l i else blk l i);
          z = z + (round_f i w x y + l ! (i mod 16) + round_k i + rol v 5);
          w = rol w 30
      in (l, z, v, w, x, y))"

definition SHA1Transform :: "u32 list \<Rightarrow> byte list \<Rightarrow> u32 list" where
  "SHA1Transform st bytes =
     (let (l, a, b, c, d, e) = foldl sha1_step
            (load_block bytes, st ! 0, st ! 1, st ! 2, st ! 3, st ! 4) [0 ..< 80]
      in [st ! 0 + a, st ! 1 + b, st ! 2 + c, st ! 3 + d, st ! 4 + e])"

section \<open>The context\<close>

text \<open>
  Portions shorter than \<open>2 ^ 32 - 128\<close> bytes, for which the \<open>uint32_t\<close> sums \<open>j + len\<close> and \<open>i + 63\<close> of
  \<open>SHA1Update\<close> do not wrap; the callers pass 1 and 8. \<open>junk\<close> is the buffer before anything is stored.
\<close>

definition sha1_iv :: "u32 list" where
  "sha1_iv = [0x67452301, 0xEFCDAB89, 0x98BADCFE, 0x10325476, 0xC3D2E1F0]"

definition SHA1Init :: "byte list \<Rightarrow> SHA1_CTX" where
  "SHA1Init junk = \<lparr>state = sha1_iv, count = (0, 0), buffer = junk\<rparr>"

definition overwrite :: "'a list \<Rightarrow> nat \<Rightarrow> 'a list \<Rightarrow> 'a list" where
  "overwrite buf j xs = take j buf @ xs @ drop (j + length xs) buf"

function transform_rest :: "u32 list \<Rightarrow> byte list \<Rightarrow> nat \<Rightarrow> u32 list \<times> nat" where
  "transform_rest st bytes i =
     (if i + 63 < length bytes then transform_rest (SHA1Transform st (take 64 (drop i bytes))) bytes (i + 64)
      else (st, i))"
  by pat_completeness auto
termination by (relation "measure (\<lambda>(st, bytes, i). length bytes - i)") auto

declare transform_rest.simps [simp del]

definition SHA1Update :: "SHA1_CTX \<Rightarrow> byte list \<Rightarrow> SHA1_CTX" where
  "SHA1Update ctx bytes =
     (let len = word_of_nat (length bytes) :: u32;
          (c0, c1) = count ctx;
          c0' = c0 + push_bit 3 len;
          c1' = (if c0' < c0 then c1 + 1 else c1) + drop_bit 29 len;
          j = unat (drop_bit 3 c0 AND 63);
          (st, buf, i, j) =
            (if 63 < j + length bytes then
               let i = 64 - j;
                   buf = overwrite (buffer ctx) j (take i bytes);
                   (st, i) = transform_rest (SHA1Transform (state ctx) buf) bytes i
               in (st, buf, i, 0)
             else (state ctx, buffer ctx, 0, j))
      in ctx\<lparr>state := st, count := (c0', c1'), buffer := overwrite buf j (drop i bytes)\<rparr>)"

text \<open>The padding loop of \<open>SHA1Final\<close>; 64 turns of fuel, \<open>None\<close> when they do not suffice.\<close>

fun pad_zeros :: "nat \<Rightarrow> SHA1_CTX \<Rightarrow> SHA1_CTX option" where
  "pad_zeros 0 ctx = None"
| "pad_zeros (Suc n) ctx =
     (if fst (count ctx) AND 504 = 448 then Some ctx else pad_zeros n (SHA1Update ctx [0]))"

definition be_bytes :: "u32 \<Rightarrow> byte list" where
  "be_bytes w = map (\<lambda>i. ucast (drop_bit ((3 - i) * 8) w)) [0 ..< 4]"

definition SHA1Final :: "SHA1_CTX \<Rightarrow> byte list option" where
  "SHA1Final ctx =
     (let finalcount = be_bytes (snd (count ctx)) @ be_bytes (fst (count ctx)) in
      map_option (\<lambda>c. concat (map be_bytes (state (SHA1Update c finalcount))))
        (pad_zeros 64 (SHA1Update ctx [0x80])))"

text \<open>\<open>SHA1\<close> writes the digest and a terminating zero into the caller's array of \<open>n\<close> bytes.\<close>

definition SHA1 :: "nat \<Rightarrow> byte list \<Rightarrow> byte list \<Rightarrow> byte list option res" where
  "SHA1 n junk str =
     (let ctx = foldl (\<lambda>c b. SHA1Update c [b]) (SHA1Init junk) str in
      if n < 21 then Inl OutOfBounds else Inr (map_option (\<lambda>d. d @ [0]) (SHA1Final ctx)))"

definition SHA1_Easy :: "byte list \<Rightarrow> byte list \<Rightarrow> string option res" where
  "SHA1_Easy junk str =
     bind_res (SHA1 20 junk str) (\<lambda>r. Inr (map_option (\<lambda>d. concat (map hex2 (take 20 d))) r))"

section \<open>Absorbing blocks\<close>

function absorb :: "u32 list \<Rightarrow> byte list \<Rightarrow> u32 list \<times> byte list" where
  "absorb st xs = (if length xs < 64 then (st, xs) else absorb (SHA1Transform st (take 64 xs)) (drop 64 xs))"
  by pat_completeness auto
termination by (relation "measure (\<lambda>(st, xs). length xs)") auto

declare absorb.simps [simp del]

lemma absorb_short: "length xs < 64 \<Longrightarrow> absorb st xs = (st, xs)"
  by (simp add: absorb.simps)

lemma absorb_long: "64 \<le> length xs \<Longrightarrow> absorb st xs = absorb (SHA1Transform st (take 64 xs)) (drop 64 xs)"
  by (subst absorb.simps) simp

lemma absorb_append: "absorb st (xs @ ys) = (case absorb st xs of (st', r) \<Rightarrow> absorb st' (r @ ys))"
proof (induction st xs rule: absorb.induct)
  case (1 st xs)
  show ?case
  proof (cases "length xs < 64")
    case True
    then show ?thesis by (simp add: absorb_short)
  next
    case False
    then show ?thesis using 1 by (simp add: absorb_long [of "xs @ ys"] absorb_long [of xs])
  qed
qed

lemma transform_rest_absorb:
  "i \<le> length bytes \<Longrightarrow> transform_rest st bytes i = (st', i') \<Longrightarrow>
   absorb st (drop i bytes) = (st', drop i' bytes) \<and> i' \<le> length bytes \<and> length bytes - i' = (length bytes - i) mod 64"
proof (induction st bytes i rule: transform_rest.induct)
  case (1 st bytes i)
  show ?case
  proof (cases "i + 63 < length bytes")
    case True
    with 1 have "absorb (SHA1Transform st (take 64 (drop i bytes))) (drop (i + 64) bytes) = (st', drop i' bytes)"
      "i' \<le> length bytes" "length bytes - i' = (length bytes - (i + 64)) mod 64"
      by (simp_all add: transform_rest.simps [of st bytes i])
    moreover have "(length bytes - i) mod 64 = (length bytes - (i + 64)) mod 64"
    proof -
      have "length bytes - i = (length bytes - (i + 64)) + 64" using True by simp
      then show ?thesis by (metis mod_add_self2)
    qed
    ultimately show ?thesis
      using True absorb_long [of "drop i bytes" st] by (simp add: add.commute)
  next
    case False
    then show ?thesis using 1 by (simp add: transform_rest.simps [of st bytes i] absorb_short)
  qed
qed

text \<open>\<open>ctx_holds ctx n s r\<close>: \<open>n\<close> bytes were given in so far, \<open>s\<close> is the chaining state and \<open>r\<close> the
  bytes of the block that is not complete yet. Behind them the buffer holds stale bytes.\<close>

definition ctx_holds :: "SHA1_CTX \<Rightarrow> nat \<Rightarrow> u32 list \<Rightarrow> byte list \<Rightarrow> bool" where
  "ctx_holds ctx n s r \<longleftrightarrow> state ctx = s \<and> count ctx = (word_of_nat (8 * n), 0) \<and> length (buffer ctx) = 64
     \<and> length r = n mod 64 \<and> take (n mod 64) (buffer ctx) = r"

lemma ctx_holds_init: "length junk = 64 \<Longrightarrow> ctx_holds (SHA1Init junk) 0 sha1_iv []"
  by (simp add: ctx_holds_def SHA1Init_def)

lemma unat_drop_3: "unat (w :: u32) = 8 * n \<Longrightarrow> unat (drop_bit 3 w) = n"
  unfolding unat_drop_bit_eq by (simp add: drop_bit_eq_div)

lemma overwrite_front:
  "length d \<le> length buf \<Longrightarrow> length (overwrite buf 0 d) = length buf \<and> take (length d) (overwrite buf 0 d) = d"
  by (simp add: overwrite_def)

lemma and_63: "(x :: u32) AND 63 = take_bit 6 x"
  using take_bit_eq_mask [of 6 x] by (simp add: mask_eq_exp_minus_1)

lemma bit_position: "8 * n < 2 ^ 32 \<Longrightarrow> unat (drop_bit 3 (word_of_nat (8 * n) :: u32) AND 63) = n mod 64"
proof -
  assume "8 * n < 2 ^ 32"
  then have "unat (word_of_nat (8 * n) :: u32) = 8 * n" by (rule unat_of_nat_u32)
  then have "unat (drop_bit 3 (word_of_nat (8 * n) :: u32)) = n"
    by (rule unat_drop_3)
  moreover note and_63
  moreover have "unat (take_bit 6 x) = unat x mod 64" for x :: u32
    unfolding unsigned_take_bit_eq by (simp add: take_bit_eq_mod)
  ultimately show ?thesis by (simp only:)
qed

lemma count_update:
  assumes "8 * (n + k) < 2 ^ 32"
  shows "(word_of_nat (8 * n) :: u32) + push_bit 3 (word_of_nat k) = word_of_nat (8 * (n + k))"
    and "\<not> (word_of_nat (8 * (n + k)) :: u32) < word_of_nat (8 * n)"
    and "drop_bit 29 (word_of_nat k :: u32) = 0"
proof -
  show "(word_of_nat (8 * n) :: u32) + push_bit 3 (word_of_nat k) = word_of_nat (8 * (n + k))"
    by (simp add: push_bit_eq_mult)
  have u: "unat (word_of_nat (8 * (n + k)) :: u32) = 8 * (n + k)" "unat (word_of_nat (8 * n) :: u32) = 8 * n"
    using unat_of_nat_u32 [OF assms] unat_of_nat_u32 [of "8 * n"] assms by (simp_all del: of_nat_mult of_nat_add)
  then show "\<not> (word_of_nat (8 * (n + k)) :: u32) < word_of_nat (8 * n)"
    unfolding word_less_nat_alt u by simp
  have "unat (word_of_nat k :: u32) = k" using assms by (intro unat_of_nat_u32) simp
  then have "unat (drop_bit 29 (word_of_nat k :: u32)) = 0"
    unfolding unat_drop_bit_eq using assms by (simp add: drop_bit_eq_div)
  then show "drop_bit 29 (word_of_nat k :: u32) = 0" by (simp only: unat_eq_zero)
qed

lemma SHA1Update_absorb:
  assumes c: "ctx_holds ctx n s r" and small: "8 * (n + length bytes) < 2 ^ 32"
    and a: "absorb s (r @ bytes) = (s', r')"
  shows "ctx_holds (SHA1Update ctx bytes) (n + length bytes) s' r'"
proof -
  let ?j = "n mod 64" and ?k = "length bytes"
  from c have ctx: "state ctx = s" "count ctx = (word_of_nat (8 * n), 0)" "length (buffer ctx) = 64"
    "length r = ?j" "take ?j (buffer ctx) = r" by (simp_all add: ctx_holds_def)
  have j: "unat (drop_bit 3 (word_of_nat (8 * n) :: u32) AND 63) = ?j"
    using small by (intro bit_position) simp
  have j64: "?j < 64" by simp
  show ?thesis
  proof (cases "63 < ?j + ?k")
    case True
    let ?i = "64 - ?j"
    obtain st i' where tr: "transform_rest (SHA1Transform s (r @ take ?i bytes)) bytes ?i = (st, i')"
      by (cases "transform_rest (SHA1Transform s (r @ take ?i bytes)) bytes ?i")
    have ov: "overwrite (buffer ctx) ?j (take ?i bytes) = r @ take ?i bytes"
      using ctx True by (simp add: overwrite_def)
    have le: "?i \<le> ?k" using True j64 by linarith
    have "absorb s (r @ bytes) = absorb (SHA1Transform s (r @ take ?i bytes)) (drop ?i bytes)"
      using True ctx(4) j64 by (subst absorb_long) (auto simp del: mod_less_divisor)
    with transform_rest_absorb [OF le tr] a
    have st: "s' = st" "r' = drop i' bytes" and i': "i' \<le> ?k" "?k - i' = (?k - ?i) mod 64" by auto
    have "n + ?k = (?k - ?i) + 64 * (n div 64 + 1)"
      using le j64 div_mult_mod_eq [of n 64] by simp
    then have m: "(n + ?k) mod 64 = ?k - i'" using i' by (simp only: mod_mult_self2)
    have upd: "SHA1Update ctx bytes = ctx\<lparr>state := st, count := (word_of_nat (8 * (n + ?k)), 0),
        buffer := overwrite (r @ take ?i bytes) 0 (drop i' bytes)\<rparr>"
      using True count_update [OF small]
      by (simp only: SHA1Update_def ctx Let_def prod.case j if_True if_False ov tr) simp
    have short: "length (drop i' bytes) < 64" using i'(2) by simp
    have "length (r @ take ?i bytes) = 64" using ctx(4) le by simp
    then have "length (overwrite (r @ take ?i bytes) 0 (drop i' bytes)) = 64"
      "take (?k - i') (overwrite (r @ take ?i bytes) 0 (drop i' bytes)) = drop i' bytes"
      using short overwrite_front [of "drop i' bytes" "r @ take ?i bytes"] by simp_all
    then show ?thesis unfolding upd ctx_holds_def using st m by simp
  next
    case False
    have lt: "length (r @ bytes) < 64" using False ctx(4) by simp
    then have ab: "s' = s" "r' = r @ bytes" using a by (simp_all add: absorb_short)
    have upd: "SHA1Update ctx bytes = ctx\<lparr>state := s, count := (word_of_nat (8 * (n + ?k)), 0),
        buffer := overwrite (buffer ctx) ?j bytes\<rparr>"
      using False count_update [OF small]
      by (simp only: SHA1Update_def ctx Let_def prod.case j if_False drop_0) simp
    have "(n + ?k) mod 64 = (?j + ?k) mod 64" by (simp add: mod_add_left_eq)
    also have "\<dots> = ?j + ?k" using False by (intro mod_less) simp
    finally have m: "(n + ?k) mod 64 = ?j + ?k" .
    show ?thesis unfolding upd ctx_holds_def using ab m ctx lt by (simp add: overwrite_def)
  qed
qed

section \<open>Padding and digest\<close>

definition sha1_pad :: "nat \<Rightarrow> byte list" where
  "sha1_pad n = [0x80] @ replicate ((119 - n mod 64) mod 64) 0 @ be_bytes 0 @ be_bytes (word_of_nat (8 * n))"

definition sha1_digest :: "byte list \<Rightarrow> byte list" where
  "sha1_digest str = concat (map be_bytes (fst (absorb sha1_iv (str @ sha1_pad (length str)))))"

lemma update_holds:
  assumes "ctx_holds ctx n s r" "8 * (n + length bytes) < 2 ^ 32"
  shows "ctx_holds (SHA1Update ctx bytes) (n + length bytes) (fst (absorb s (r @ bytes))) (snd (absorb s (r @ bytes)))"
  using SHA1Update_absorb [OF assms] by simp

text \<open>\<open>ctx_of xs ctx\<close>: the context has absorbed exactly the bytes \<open>xs\<close> since \<open>SHA1Init\<close>.\<close>

definition ctx_of :: "byte list \<Rightarrow> SHA1_CTX \<Rightarrow> bool" where
  "ctx_of xs ctx \<longleftrightarrow> ctx_holds ctx (length xs) (fst (absorb sha1_iv xs)) (snd (absorb sha1_iv xs))"

lemma ctx_of_init: "length junk = 64 \<Longrightarrow> ctx_of [] (SHA1Init junk)"
  using ctx_holds_init by (simp add: ctx_of_def absorb_short)

lemma ctx_of_update:
  assumes "ctx_of xs ctx" "8 * (length xs + length ys) < 2 ^ 32"
  shows "ctx_of (xs @ ys) (SHA1Update ctx ys)"
  using update_holds [OF assms(1) [unfolded ctx_of_def] assms(2)]
  unfolding ctx_of_def absorb_append [of sha1_iv xs ys] by (simp add: split_def)

lemma ctx_of_bytes:
  "ctx_of xs ctx \<Longrightarrow> 8 * (length xs + length ys) < 2 ^ 32 \<Longrightarrow> ctx_of (xs @ ys) (foldl (\<lambda>c b. SHA1Update c [b]) ctx ys)"
proof (induction ys arbitrary: xs ctx)
  case (Cons y ys)
  from Cons.prems have "ctx_of (xs @ [y]) (SHA1Update ctx [y])" by (intro ctx_of_update) simp_all
  with Cons.IH [of "xs @ [y]"] Cons.prems(2) show ?case by simp
qed simp

lemma ctx_of_count: "ctx_of xs ctx \<Longrightarrow> count ctx = (word_of_nat (8 * length xs), 0)"
  by (simp add: ctx_of_def ctx_holds_def)

lemma small_bits: "m < 64 \<Longrightarrow> 8 * m < (2 :: nat) ^ 32"
  by simp

lemma pad_test: "8 * n < 2 ^ 32 \<Longrightarrow> (word_of_nat (8 * n) :: u32) AND 504 = 448 \<longleftrightarrow> n mod 64 = 56"
proof -
  assume n: "8 * n < 2 ^ 32"
  have u: "unat (word_of_nat n :: u32) = n" using n by (intro unat_of_nat_u32) simp
  have "(word_of_nat (8 * n) :: u32) AND 504 = push_bit 3 (word_of_nat n) AND push_bit 3 63"
    by (simp add: push_bit_eq_mult mult.commute)
  also have "\<dots> = push_bit 3 (take_bit 6 (word_of_nat n))" unfolding and_63 [symmetric] by simp
  also have "\<dots> = word_of_nat (8 * (n mod 64))"
  proof -
    have "take_bit 6 (word_of_nat n) = (word_of_nat (n mod 64) :: u32)"
      unfolding word_unat_eq_iff unsigned_take_bit_eq u by (simp add: take_bit_eq_mod unat_of_nat_u32)
    then show ?thesis by (simp add: push_bit_eq_mult)
  qed
  finally have eq: "(word_of_nat (8 * n) :: u32) AND 504 = word_of_nat (8 * (n mod 64))" .
  have lt: "n mod 64 < 64" by simp
  have "unat (word_of_nat (8 * (n mod 64)) :: u32) = 8 * (n mod 64)"
    by (rule unat_of_nat_u32 [OF small_bits [OF lt]])
  then show ?thesis unfolding eq word_unat_eq_iff by (simp del: of_nat_mult)
qed

lemma pad_step:
  assumes "n mod 64 \<noteq> 56"
  shows "0 < (120 - n mod 64) mod 64 \<and> (120 - n mod 64) mod 64 - 1 = (120 - Suc n mod 64) mod (64 :: nat)"
proof -
  define m where "m = n mod 64"
  then have m: "m < 64" "m \<noteq> 56" and s: "Suc n mod 64 = (if m = 63 then 0 else Suc m)"
    using assms by (simp_all add: mod_Suc)
  have a: "(120 - m) mod 64 = (if m < 56 then 56 - m else 120 - m)"
    using m by (cases "m < 56") (simp_all add: mod_if)
  have b: "(120 - Suc m) mod 64 = (if m < 56 then 55 - m else 119 - m)"
    using m by (cases "m < 56") (simp_all add: mod_if)
  show ?thesis unfolding s m_def [symmetric] a
    using b m by (cases "m < 56") auto
qed

lemma pad_zeros_fill:
  "ctx_of xs ctx \<Longrightarrow> k < fuel \<Longrightarrow> 8 * (length xs + k) < 2 ^ 32 \<Longrightarrow> k = (120 - length xs mod 64) mod 64 \<Longrightarrow>
   \<exists>c. pad_zeros fuel ctx = Some c \<and> ctx_of (xs @ replicate k 0) c"
proof (induction fuel arbitrary: xs ctx k)
  case (Suc fuel)
  have test: "(fst (count ctx) AND 504 = 448) = (length xs mod 64 = 56)"
    using pad_test [of "length xs"] Suc.prems(3) ctx_of_count [OF Suc.prems(1)] by simp
  show ?case
  proof (cases "length xs mod 64 = 56")
    case True
    with Suc.prems test show ?thesis by simp
  next
    case False
    then have k: "0 < k" "k - 1 = (120 - length (xs @ [0]) mod 64) mod 64"
      using pad_step [of "length xs"] Suc.prems(4) by simp_all
    have "ctx_of (xs @ [0]) (SHA1Update ctx [0])"
      using Suc.prems k by (intro ctx_of_update) simp_all
    moreover have "k - 1 < fuel" "8 * (length (xs @ [0]) + (k - 1)) < 2 ^ 32" using Suc.prems(2,3) k(1) by auto
    ultimately obtain c where "pad_zeros fuel (SHA1Update ctx [0]) = Some c" "ctx_of ((xs @ [0]) @ replicate (k - 1) 0) c"
      using Suc.IH k(2) by blast
    moreover have "(xs @ [0]) @ replicate (k - 1) 0 = xs @ replicate k 0" using k(1) by (cases k) simp_all
    ultimately show ?thesis using False test by auto
  qed
qed simp

lemma SHA1Final_digest:
  assumes c: "ctx_of str ctx" and small: "length str < 2 ^ 28"
  shows "SHA1Final ctx = Some (sha1_digest str)"
proof -
  let ?n = "length str" and ?k = "(119 - length str mod 64) mod 64"
  have k64: "?k < 64" by simp
  have one: "ctx_of (str @ [0x80]) (SHA1Update ctx [0x80])"
    using small by (intro ctx_of_update [OF c]) simp
  have "(120 - length (str @ [0x80 :: byte]) mod 64) mod 64 = ?k"
    by (cases "?n mod 64 = 63") (simp_all add: mod_Suc)
  moreover have room: "8 * (x + m) < (2 :: nat) ^ 32" if "m < 64" "x < 2 ^ 28 + 64" for m x :: nat
    using that by simp
  from small have "8 * (length (str @ [0x80 :: byte]) + ?k) < 2 ^ 32" by (intro room [OF k64]) simp
  ultimately obtain c1 where pad: "pad_zeros 64 (SHA1Update ctx [0x80]) = Some c1"
    and c1: "ctx_of ((str @ [0x80]) @ replicate ?k 0) c1"
    using pad_zeros_fill [OF one k64] by metis
  let ?fin = "be_bytes 0 @ be_bytes (word_of_nat (8 * ?n))"
  have cnt: "count ctx = (word_of_nat (8 * ?n), 0)" by (rule ctx_of_count [OF c])
  have "8 * ((?n + 9) + ?k) < 2 ^ 32" using small by (intro room [OF k64]) simp
  then have "8 * (length ((str @ [0x80]) @ replicate ?k 0) + length ?fin) < 2 ^ 32"
    by (simp add: be_bytes_def)
  from ctx_of_update [OF c1 this]
  have "state (SHA1Update c1 ?fin) = fst (absorb sha1_iv (str @ sha1_pad ?n))"
    by (simp only: ctx_of_def ctx_holds_def sha1_pad_def append_assoc)
  then show ?thesis
    by (simp only: SHA1Final_def cnt fst_conv snd_conv Let_def pad option.map sha1_digest_def)
qed

lemma sha1_pad_blocks: "length (str @ sha1_pad (length str)) mod 64 = 0"
proof -
  define m where "m = length str mod 64"
  have m: "m < 64" by (simp add: m_def)
  have "(119 - m) mod 64 = (if m < 56 then 55 - m else 119 - m)"
    using m by (cases "m < 56") (simp_all add: mod_if)
  then have "(m + (9 + (119 - m) mod 64)) mod 64 = 0"
    using m by (cases "m < 56") simp_all
  then have "(length str + (9 + (119 - m) mod 64)) mod 64 = 0"
    unfolding m_def by (simp add: mod_add_left_eq)
  then show ?thesis by (simp add: sha1_pad_def be_bytes_def m_def)
qed

text \<open>
  C40. SHA-1 of a message below \<open>2 ^ 28\<close> bytes: feeding it byte by byte, the padding loop (which ends well
  within its 64 turns) and the digest are the iteration of the transform over the message followed by the
  padding of the standard, whose length makes whole blocks. The digest and a terminating zero need 21 bytes:
  in the 20 bytes that \<open>SHA1_Easy\<close> provides, the code writes behind the array.
\<close>

theorem sha1_refines_standard:
  assumes "length str < 2 ^ 28" "length junk = 64"
  shows "SHA1 n junk str = (if n < 21 then Inl OutOfBounds else Inr (Some (sha1_digest str @ [0])))
    \<and> length (str @ sha1_pad (length str)) mod 64 = 0 \<and> SHA1_Easy junk str = Inl OutOfBounds"
proof -
  have "ctx_of ([] @ str) (foldl (\<lambda>c b. SHA1Update c [b]) (SHA1Init junk) str)"
    using assms by (intro ctx_of_bytes ctx_of_init) simp_all
  then have "SHA1Final (foldl (\<lambda>c b. SHA1Update c [b]) (SHA1Init junk) str) = Some (sha1_digest str)"
    using assms(1) by (intro SHA1Final_digest) simp_all
  moreover have "length (str @ sha1_pad (length str)) mod 64 = 0"
    by (rule sha1_pad_blocks)
  ultimately show ?thesis by (simp add: SHA1_def SHA1_Easy_def)
qed

theorem sha1_refines_standard_witness:
  "SHA1 21 (replicate 64 0) [0x61, 0x62, 0x63] = Inr (Some (sha1_digest [0x61, 0x62, 0x63] @ [0]))
   \<and> SHA1_Easy (replicate 64 0) [0x61, 0x62, 0x63] = Inl OutOfBounds"
  using sha1_refines_standard [of "[0x61, 0x62, 0x63]" "replicate 64 0" 21] by simp

end
