(* ===== verification/Requests.thy ===== *)
theory Requests
  imports RawData AesModes
begin

text \<open>
  The contents of packets in \<^theory_text>\<open>src/src/server.cpp\<close>: requests, responds and encrypted posts as blocks of a
  packet, and the posts as tagged strings. A block is read at the width the code dereferences; a size that the
  packet claims for another block is used as it stands, so reading past a block is \<open>OutOfBounds\<close>.
  The MD5 function (\<^theory_text>\<open>MD5EncryptEasy\<close>, not part of the repository) is a parameter.
\<close>

definition chars_of :: "byte list \<Rightarrow> string" where
  "chars_of bs = map (\<lambda>b. char_of (unat b)) bs"

lemma length_chars_of [simp]: "length (chars_of bs) = length bs"
  by (simp add: chars_of_def)

lemma code_less: "code c < 256"
  by (simp add: code_def)

lemma chars_of_bytes_of [simp]: "chars_of (bytes_of s) = s"
proof -
  have "char_of (unat (word_of_nat (code c) :: byte)) = c" for c
    using code_less [of c] by (simp add: code_def)
  then show ?thesis by (simp add: chars_of_def bytes_of_def comp_def)
qed

lemma bytes_of_chars_of [simp]: "bytes_of (chars_of bs) = bs"
proof -
  have "word_of_nat (code (char_of (unat b))) = b" for b :: byte
  proof -
    have "unat b < 256" using unsigned_less [of b] by simp
    then show ?thesis by (simp add: code_def)
  qed
  then show ?thesis by (simp add: chars_of_def bytes_of_def comp_def)
qed

definition field :: "packet \<Rightarrow> nat \<Rightarrow> nat \<Rightarrow> byte list res" where
  "field pkt i n = bind_res (at (buffs pkt) i) (\<lambda>b. cut b 0 n)"

section \<open>Requests\<close>

record request =
  q_id :: u64
  q_type :: string
  q_data :: string
  recv_port :: u32
  q_encrypt :: bool
  q_addr :: addr

definition new_request :: "u64 \<Rightarrow> request" where
  "new_request rnd = \<lparr>q_id = rnd, q_type = [], q_data = [], recv_port = 0, q_encrypt = False, q_addr = Addr_empty\<rparr>"

definition Request2Packet :: "packet \<Rightarrow> request \<Rightarrow> packet res" where
  "Request2Packet pkt req =
     (let pkt = pkt\<lparr>paddress := address (q_addr req), ptype := REQUSET_TYPE\<rparr>;
          ty = bytes_of (q_type req); da = bytes_of (q_data req); sa = sockaddr_bytes (address (q_addr req)) in
      bind_res (AddBuff (le_enc 8 (unat (q_id req))) 8 pkt) (\<lambda>pkt.
      bind_res (AddBuff (le_enc 8 (length ty)) 8 pkt) (\<lambda>pkt.
      bind_res (AddBuff ty (length ty mod 2 ^ 32) pkt) (\<lambda>pkt.
      bind_res (AddBuff (le_enc 8 (length da)) 8 pkt) (\<lambda>pkt.
      bind_res (AddBuff da (length da mod 2 ^ 32) pkt) (\<lambda>pkt.
      bind_res (AddBuff sa 16 pkt) (\<lambda>pkt.
      AddBuff (le_enc 4 (unat (recv_port req))) 4 pkt)))))))"

definition Packet2Request :: "packet \<Rightarrow> request \<Rightarrow> request res" where
  "Packet2Request pkt req =
     (if ptype pkt = REQUSET_TYPE then
        bind_res (field pkt 0 8) (\<lambda>r.
        bind_res (field pkt 1 8) (\<lambda>type_size.
        bind_res (field pkt 2 (le_dec type_size)) (\<lambda>ty.
        bind_res (field pkt 3 8) (\<lambda>data_size.
        bind_res (field pkt 4 (le_dec data_size)) (\<lambda>da.
        bind_res (field pkt 5 16) (\<lambda>a.
        bind_res (field pkt 6 4) (\<lambda>port.
        Inr (req\<lparr>q_id := word_of_nat (le_dec r), q_type := chars_of ty, q_data := chars_of da,
          q_addr := Addr_from (sockaddr_of a), recv_port := word_of_nat (le_dec port)\<rparr>))))))))
      else Inr req)"

section \<open>Responds\<close>

record respond =
  s_id :: u64
  s_type :: string
  s_buff :: "byte list"
  s_addr :: addr

definition new_respond :: respond where
  "new_respond = \<lparr>s_id = 0, s_type = [], s_buff = [], s_addr = Addr_empty\<rparr>"

definition SetBuff :: "byte list \<Rightarrow> nat \<Rightarrow> respond \<Rightarrow> respond res" where
  "SetBuff buff size' res = bind_res (cut buff 0 size') (\<lambda>b. Inr (res\<lparr>s_buff := b\<rparr>))"

definition Respond2Packet :: "packet \<Rightarrow> respond \<Rightarrow> packet res" where
  "Respond2Packet pkt res =
     (let pkt = pkt\<lparr>ptype := RESPOND_TYPE, paddress := address (s_addr res)\<rparr>; ty = bytes_of (s_type res) in
      bind_res (AddBuff (le_enc 8 (unat (s_id res))) 8 pkt) (\<lambda>pkt.
      bind_res (AddBuff (sockaddr_bytes (address (s_addr res))) 16 pkt) (\<lambda>pkt.
      bind_res (AddBuff ty (length ty mod 2 ^ 32) pkt) (\<lambda>pkt.
      AddBuff (s_buff res) (length (s_buff res)) pkt))))"

text \<open>A string constructed from a pointer ends at the first NUL; without one the block is left.\<close>

definition c_string :: "byte list \<Rightarrow> string res" where
  "c_string b = (if 0 \<in> set b then Inr (chars_of (takeWhile (\<lambda>x. x \<noteq> 0) b)) else Inl OutOfBounds)"

definition Packet2Respond :: "packet \<Rightarrow> respond \<Rightarrow> respond res" where
  "Packet2Respond pkt res =
     bind_res (field pkt 0 8) (\<lambda>r.
     bind_res (field pkt 1 16) (\<lambda>a.
     bind_res (at (buffs pkt) 2) (\<lambda>b. bind_res (c_string b) (\<lambda>ty.
     bind_res (at (buffs pkt) 3) (\<lambda>d.
     Inr (res\<lparr>s_id := word_of_nat (le_dec r), s_addr := SetSockAddr (sockaddr_of a) (s_addr res),
       s_type := ty, s_buff := d\<rparr>))))))"

section \<open>Encrypted posts\<close>

record aes_key256 =
  key :: "u64 list"
  iv :: "u64 list"

definition MakeIV :: "aes_key256 \<Rightarrow> aes_key256" where
  "MakeIV k = k\<lparr>iv := [key k ! 2, key k ! 0, key k ! 3, key k ! 1]\<rparr>"

definition GetKey :: "aes_key256 \<Rightarrow> byte list" where
  "GetKey k = concat (map (\<lambda>w. le_enc 8 (unat w)) (key k))"

definition GetIV :: "aes_key256 \<Rightarrow> byte list" where
  "GetIV k = concat (map (\<lambda>w. le_enc 8 (unat w)) (iv k))"

text \<open>The \<open>uint32_t\<close> type of a post is only copied and compared with four letters.\<close>

record encrypt_post =
  client_id :: u64
  e_addr :: addr
  p_id :: u64
  e_type :: "byte list"
  e_buff :: "byte list"

definition new_post :: encrypt_post where
  "new_post = \<lparr>client_id = 0, e_addr = Addr_empty, p_id = 0, e_type = replicate 4 0, e_buff = []\<rparr>"

definition InitNew :: "u64 \<Rightarrow> u64 \<Rightarrow> addr \<Rightarrow> string \<Rightarrow> encrypt_post \<Rightarrow> encrypt_post res" where
  "InitNew rnd cid a ty pst =
     bind_res (cut (bytes_of ty @ [0]) 0 4) (\<lambda>t. Inr (pst\<lparr>client_id := cid, e_addr := a, e_type := t, p_id := rnd\<rparr>))"

definition SetPostBuff :: "byte list \<Rightarrow> nat \<Rightarrow> encrypt_post \<Rightarrow> encrypt_post res" where
  "SetPostBuff pbuff size' pst = bind_res (cut pbuff 0 size') (\<lambda>b. Inr (pst\<lparr>e_buff := b\<rparr>))"

text \<open>The buffer size is a \<open>uint32_t\<close>; rounding up the last fifteen sizes wraps to an empty allocation.\<close>

definition pad16 :: "byte list \<Rightarrow> byte list res" where
  "pad16 buff =
     (if length buff mod 16 = 0 then Inr buff
      else let n = (length buff div 16 + 1) * 16 in
        if 2 ^ 32 \<le> n then Inl OutOfBounds else Inr (buff @ replicate (n - length buff) 0))"

definition post_ctx :: "aes_key256 \<Rightarrow> AES_ctx" where
  "post_ctx k = AES_init_ctx_iv (GetKey k) (GetIV k) \<lparr>RoundKey = [], Iv = []\<rparr>"

definition Post2Packet ::
  "(byte list \<Rightarrow> string) \<Rightarrow> packet \<Rightarrow> encrypt_post \<Rightarrow> aes_key256 \<Rightarrow> (packet \<times> encrypt_post \<times> aes_key256) res" where
  "Post2Packet md5 pkt pst k =
     (let pkt = pkt\<lparr>ptype := ENCRYPT_POST_TYPE, paddress := address (e_addr pst)\<rparr>; k = MakeIV k in
      bind_res (AddBuff (le_enc 8 (unat (client_id pst))) 8 pkt) (\<lambda>pkt.
      bind_res (AddBuff (le_enc 8 (unat (p_id pst))) 8 pkt) (\<lambda>pkt.
      bind_res (AddBuff (sockaddr_bytes (address (e_addr pst))) 16 pkt) (\<lambda>pkt.
      bind_res (pad16 (e_buff pst)) (\<lambda>buff.
      bind_res (AES_CBC_encrypt_buffer (post_ctx k) buff (word_of_nat (length buff))) (\<lambda>(_, buff').
      bind_res (AddBuff buff' (length buff') pkt) (\<lambda>pkt.
      bind_res (AddBuff (bytes_of (md5 buff) @ [0]) 32 pkt) (\<lambda>pkt.
      bind_res (AddBuff (e_type pst) 4 pkt) (\<lambda>pkt.
      Inr (pkt, pst\<lparr>e_buff := buff'\<rparr>, k))))))))))"

definition GetPostInfo :: "packet \<Rightarrow> encrypt_post \<Rightarrow> encrypt_post res" where
  "GetPostInfo pkt pst =
     bind_res (field pkt 0 8) (\<lambda>c.
     bind_res (field pkt 1 8) (\<lambda>p.
     bind_res (field pkt 2 16) (\<lambda>a.
     Inr (pst\<lparr>client_id := word_of_nat (le_dec c), p_id := word_of_nat (le_dec p),
       e_addr := Addr_from (sockaddr_of a)\<rparr>))))"

definition Packet2Post ::
  "(byte list \<Rightarrow> string) \<Rightarrow> packet \<Rightarrow> encrypt_post \<Rightarrow> aes_key256 \<Rightarrow> (encrypt_post \<times> aes_key256) res" where
  "Packet2Post md5 pkt pst k =
     bind_res (GetPostInfo pkt pst) (\<lambda>pst.
     bind_res (field pkt 5 4) (\<lambda>ty.
     bind_res (at (buffs pkt) 3) (\<lambda>c.
     bind_res (field pkt 4 32) (\<lambda>tmd5.
     let k = MakeIV k in
     bind_res (AES_CBC_decrypt_buffer (post_ctx k) c (word_of_nat (length c))) (\<lambda>(_, t_data).
     if chars_of tmd5 \<noteq> md5 t_data then Inl (ThrownText ''key error'')
     else Inr (pst\<lparr>e_type := ty, e_buff := t_data\<rparr>, k))))))"

definition Post2SignedRawData ::
  "(byte list \<Rightarrow> string) \<Rightarrow> encrypt_post \<Rightarrow> aes_key256 \<Rightarrow> raw_data \<Rightarrow> (raw_data \<times> encrypt_post \<times> aes_key256) res" where
  "Post2SignedRawData md5 ecyp k rw =
     bind_res (Post2Packet md5 (new_packet 0 zero_sockaddr) ecyp k) (\<lambda>(pkt, ecyp, k).
     bind_res (Packet2Rawdata pkt rw) (\<lambda>rw.
     bind_res (SignedRawdata rw ''ECYP'') (\<lambda>rw. Inr (rw, ecyp, k))))"

text \<open>The other overload builds the post from a buffer; its address stays the one of \<open>Addr()\<close>.\<close>

definition Post2SignedRawData_buff ::
  "(byte list \<Rightarrow> string) \<Rightarrow> u64 \<Rightarrow> byte list \<Rightarrow> nat \<Rightarrow> string \<Rightarrow> aes_key256 \<Rightarrow> raw_data \<Rightarrow> (raw_data \<times> aes_key256) res" where
  "Post2SignedRawData_buff md5 rnd buff buff_size info k rwd =
     bind_res (SetPostBuff buff buff_size new_post) (\<lambda>pst.
     bind_res (cut (bytes_of info @ [0]) 0 4) (\<lambda>ty.
     bind_res (Post2Packet md5 (new_packet 0 zero_sockaddr) (pst\<lparr>e_type := ty, client_id := 0, p_id := rnd\<rparr>) k)
       (\<lambda>(pkt, pst, k).
     bind_res (Packet2Rawdata pkt rwd) (\<lambda>rwd.
     bind_res (SignedRawdata rwd ''ECYP'') (\<lambda>rwd. Inr (rwd, k))))))"

definition SignedRawData2Post ::
  "(byte list \<Rightarrow> string) \<Rightarrow> raw_data \<Rightarrow> encrypt_post \<Rightarrow> aes_key256 \<Rightarrow> (encrypt_post \<times> aes_key256) res" where
  "SignedRawData2Post md5 rwd pst k =
     (if rinfo rwd = bytes_of ''ECYP'' then
        bind_res (Rawdata2Packet (new_packet 0 zero_sockaddr) rwd) (\<lambda>pkt. Packet2Post md5 pkt pst k)
      else Inr (pst, k))"

section \<open>Requests and responds through a packet\<close>

lemma AddBuff_whole [simp]: "n = length b \<Longrightarrow> AddBuff b n pkt = Inr (pkt\<lparr>buffs := buffs pkt @ [b]\<rparr>)"
  by (simp add: AddBuff_def cut_def)

lemma field_iff: "field pkt i n = Inr x \<longleftrightarrow> i < length (buffs pkt) \<and> n \<le> length (buffs pkt ! i) \<and> x = take n (buffs pkt ! i)"
  by (auto simp: field_def at_def cut_def)

lemma field_fault: "field pkt i n = Inl e \<longleftrightarrow> \<not> (i < length (buffs pkt) \<and> n \<le> length (buffs pkt ! i)) \<and> e = OutOfBounds"
  by (auto simp: field_def at_def cut_def)

definition request_blocks :: "request \<Rightarrow> byte list list" where
  "request_blocks r = [le_enc 8 (unat (q_id r)), le_enc 8 (length (q_type r)), bytes_of (q_type r),
     le_enc 8 (length (q_data r)), bytes_of (q_data r), sockaddr_bytes (address (q_addr r)),
     le_enc 4 (unat (recv_port r))]"

definition wf_request :: "request \<Rightarrow> bool" where
  "wf_request r \<longleftrightarrow> length (q_type r) < 2 ^ 32 \<and> length (q_data r) < 2 ^ 32 \<and> wf_sockaddr (address (q_addr r))"

lemma Request2Packet_blocks:
  "wf_request r \<Longrightarrow> Request2Packet pkt r =
    Inr (pkt\<lparr>paddress := address (q_addr r), ptype := REQUSET_TYPE, buffs := buffs pkt @ request_blocks r\<rparr>)"
  by (simp add: Request2Packet_def request_blocks_def wf_request_def Let_def)

text \<open>What arrives of a request: the flag for encryption is not transmitted, the size of the address is not set.\<close>

definition request_arrived :: "request \<Rightarrow> request \<Rightarrow> request" where
  "request_arrived r q = q\<lparr>q_id := q_id r, q_type := q_type r, q_data := q_data r,
     q_addr := Addr_from (address (q_addr r)), recv_port := recv_port r\<rparr>"

lemma Packet2Request_blocks:
  assumes "wf_request r" "ptype pkt = REQUSET_TYPE" "buffs pkt = request_blocks r"
  shows "Packet2Request pkt q = Inr (request_arrived r q)"
proof -
  have len: "le_dec (le_enc 8 (length (q_type r))) = length (q_type r)"
    "le_dec (le_enc 8 (length (q_data r))) = length (q_data r)"
    using assms(1) by (auto intro!: le_dec_enc simp: wf_request_def)
  have f: "field pkt 0 8 = Inr (le_enc 8 (unat (q_id r)))"
    "field pkt 1 8 = Inr (le_enc 8 (length (q_type r)))"
    "field pkt 2 (length (q_type r)) = Inr (bytes_of (q_type r))"
    "field pkt 3 8 = Inr (le_enc 8 (length (q_data r)))"
    "field pkt 4 (length (q_data r)) = Inr (bytes_of (q_data r))"
    "field pkt 5 16 = Inr (sockaddr_bytes (address (q_addr r)))"
    "field pkt 6 4 = Inr (le_enc 4 (unat (recv_port r)))"
    using assms(1) by (simp_all add: field_iff assms(3) request_blocks_def wf_request_def)
  show ?thesis
    using assms(1) by (simp del: One_nat_def add: Packet2Request_def f len assms(2) request_arrived_def wf_request_def)
qed

text \<open>
  A request survives its packet: identifier, type, data, address and reply port come back as they were,
  whatever the request object held before.
\<close>

theorem request_round_trip:
  assumes "length (q_type r) < 2 ^ 32" "length (q_data r) < 2 ^ 32" "wf_sockaddr (address (q_addr r))"
  shows "\<exists>pkt q'. Request2Packet (new_packet 0 a) r = Inr pkt \<and> ptype pkt = REQUSET_TYPE
    \<and> paddress pkt = address (q_addr r) \<and> Packet2Request pkt q = Inr q'
    \<and> q_id q' = q_id r \<and> q_type q' = q_type r \<and> q_data q' = q_data r \<and> recv_port q' = recv_port r
    \<and> address (q_addr q') = address (q_addr r) \<and> q_encrypt q' = q_encrypt q"
proof -
  have wf: "wf_request r" using assms by (simp add: wf_request_def)
  let ?pkt = "(new_packet 0 a)\<lparr>paddress := address (q_addr r), ptype := REQUSET_TYPE, buffs := request_blocks r\<rparr>"
  have "Request2Packet (new_packet 0 a) r = Inr ?pkt"
    using Request2Packet_blocks [OF wf] by (simp add: new_packet_def)
  moreover have "Packet2Request ?pkt q = Inr (request_arrived r q)"
    using Packet2Request_blocks [OF wf] by simp
  ultimately show ?thesis by (simp add: request_arrived_def Addr_from_def)
qed

theorem request_round_trip_witness:
  "\<exists>pkt q'. Request2Packet (new_packet 0 zero_sockaddr) (new_request 7) = Inr pkt
    \<and> Packet2Request pkt (new_request 1) = Inr q' \<and> q_id q' = 7"
  using request_round_trip [of "new_request 7" zero_sockaddr "new_request 1"]
  by (auto simp: new_request_def Addr_empty_def wf_sockaddr_def zero_sockaddr_def)

definition blocks_readable :: "packet \<Rightarrow> bool" where
  "blocks_readable pkt \<longleftrightarrow> 7 \<le> length (buffs pkt) \<and> 8 \<le> length (buffs pkt ! 0) \<and> 8 \<le> length (buffs pkt ! 1)
     \<and> le_dec (take 8 (buffs pkt ! 1)) \<le> length (buffs pkt ! 2) \<and> 8 \<le> length (buffs pkt ! 3)
     \<and> le_dec (take 8 (buffs pkt ! 3)) \<le> length (buffs pkt ! 4) \<and> 16 \<le> length (buffs pkt ! 5)
     \<and> 4 \<le> length (buffs pkt ! 6)"

text \<open>
  Which request packets from the network can be read: exactly those with seven blocks that are long enough
  for the fixed fields and for the two sizes they claim. On every other packet of the request type
  \<open>Packet2Request\<close>, which checks nothing, reads outside a block.
\<close>

theorem request_blocks_unchecked:
  "(case Packet2Request pkt q of Inr _ \<Rightarrow> True | Inl e \<Rightarrow> e = OutOfBounds)
   \<and> ((\<exists>q'. Packet2Request pkt q = Inr q') = (if ptype pkt = REQUSET_TYPE then blocks_readable pkt else True))"
proof
  have "Packet2Request pkt q = Inl e \<Longrightarrow> e = OutOfBounds" for e
    by (auto simp: Packet2Request_def bind_res_eq_Inl field_fault split: if_splits)
  then show "case Packet2Request pkt q of Inr _ \<Rightarrow> True | Inl e \<Rightarrow> e = OutOfBounds"
    by (simp split: sum.split)
  show "(\<exists>q'. Packet2Request pkt q = Inr q') = (if ptype pkt = REQUSET_TYPE then blocks_readable pkt else True)"
    by (simp add: Packet2Request_def field_iff blocks_readable_def) auto
qed

text \<open>
  A respond does not survive its packet: the type is written without a terminating NUL and read back as a
  C string. A type without a NUL, which is every type the server uses, makes the receiver read behind the
  block; otherwise it is cut at its first NUL.
\<close>

theorem respond_type_unterminated:
  assumes "length (s_type r) < 2 ^ 32" "wf_sockaddr (address (s_addr r))"
  shows "\<exists>pkt. Respond2Packet (new_packet 0 a) r = Inr pkt \<and> ptype pkt = RESPOND_TYPE
    \<and> Packet2Respond pkt r' = (if CHR 0x00 \<in> set (s_type r)
        then Inr (r'\<lparr>s_id := s_id r, s_type := c_str (s_type r), s_buff := s_buff r,
               s_addr := SetSockAddr (address (s_addr r)) (s_addr r')\<rparr>)
        else Inl OutOfBounds)"
proof -
  let ?blocks = "[le_enc 8 (unat (s_id r)), sockaddr_bytes (address (s_addr r)), bytes_of (s_type r), s_buff r]"
  let ?pkt = "(new_packet 0 a)\<lparr>ptype := RESPOND_TYPE, paddress := address (s_addr r), buffs := ?blocks\<rparr>"
  have pkt: "Respond2Packet (new_packet 0 a) r = Inr ?pkt"
    using assms by (simp add: Respond2Packet_def Let_def new_packet_def)
  have zero: "word_of_nat (code c) = (0 :: byte) \<longleftrightarrow> c = CHR 0x00" for c
  proof -
    have "unat (word_of_nat (code c) :: byte) = code c" using code_less [of c] by simp
    then have "word_of_nat (code c) = (0 :: byte) \<longleftrightarrow> code c = 0" by (metis unat_eq_zero)
    then show ?thesis using code_eqD [of c "CHR 0x00"] by (auto simp: code_def)
  qed
  have mem: "0 \<in> set (bytes_of s) \<longleftrightarrow> CHR 0x00 \<in> set s" for s
    using zero by (fastforce simp: bytes_of_def)
  have tw: "takeWhile (\<lambda>x. x \<noteq> 0) (bytes_of s) = bytes_of (c_str s)" for s
    by (simp add: bytes_of_def c_str_def takeWhile_map comp_def zero)
  have "Packet2Respond ?pkt r' = (if CHR 0x00 \<in> set (s_type r)
        then Inr (r'\<lparr>s_id := s_id r, s_type := c_str (s_type r), s_buff := s_buff r,
               s_addr := SetSockAddr (address (s_addr r)) (s_addr r')\<rparr>)
        else Inl OutOfBounds)"
    using assms by (simp add: Packet2Respond_def field_def at_def cut_def c_string_def mem tw)
  with pkt show ?thesis by simp
qed

theorem respond_type_unterminated_witness:
  "\<exists>pkt. Respond2Packet (new_packet 0 zero_sockaddr) (new_respond\<lparr>s_type := ''register respond''\<rparr>) = Inr pkt
    \<and> Packet2Respond pkt new_respond = Inl OutOfBounds"
  using respond_type_unterminated [of "new_respond\<lparr>s_type := ''register respond''\<rparr>" zero_sockaddr new_respond]
  by (auto simp: new_respond_def Addr_empty_def wf_sockaddr_def zero_sockaddr_def)

end
