(* ===== verification/Posts.thy ===== *)
theory Posts
  imports Requests
begin

text \<open>
  What the encrypted posts of \<open>Requests\<close> guarantee: the round trip through AES and the tagged string, and the
  digest check of the receiver.
\<close>

definition padded :: "byte list \<Rightarrow> byte list" where
  "padded b = b @ replicate ((16 - length b mod 16) mod 16) 0"

lemma padded_blocks: "length (padded b) = (length b + 15) div 16 * 16"
proof -
  define m q where "m = length b mod 16" and "q = length b div 16"
  have l: "length b = 16 * q + m" and m: "m < 16" by (simp_all add: m_def q_def)
  show ?thesis
  proof (cases "m = 0")
    case True
    then show ?thesis using l by (simp add: padded_def)
  next
    case False
    then have "(16 * q + m + 15) div 16 = Suc q" using m by simp
    moreover have "(16 - m) mod 16 = 16 - m" using False m by simp
    ultimately show ?thesis using l m by (simp add: padded_def m_def [symmetric])
  qed
qed

lemma pad16_padded: "length b + 16 \<le> 2 ^ 32 \<Longrightarrow> pad16 b = Inr (padded b)"
proof (cases "length b mod 16 = 0")
  case True
  then show ?thesis by (simp add: pad16_def padded_def)
next
  case False
  define m q where "m = length b mod 16" and "q = length b div 16"
  assume le: "length b + 16 \<le> 2 ^ 32"
  have l: "length b = 16 * q + m" and m: "m < 16" by (simp_all add: m_def q_def)
  have nz: "m \<noteq> 0" using False m_def by simp
  have "(16 - m) mod 16 = 16 - m" using nz m by simp
  then have r: "(q + 1) * 16 - length b = (16 - m) mod 16" using l by simp
  have "16 * q + 16 < 2 ^ 32"
    using le l nz by simp
  then have lt: "\<not> 2 ^ 32 \<le> (q + 1) * 16" by simp
  show ?thesis
    unfolding pad16_def padded_def Let_def q_def [symmetric] r m_def [symmetric] using nz lt by simp
qed

lemma length_GetKey: "length (key k) = 4 \<Longrightarrow> length (GetKey k) = 32"
  by (simp add: GetKey_def length_concat comp_def sum_list_triv)

lemma MakeIV_keeps [simp]: "key (MakeIV k) = key k" "MakeIV (MakeIV k) = MakeIV k"
  by (simp_all add: MakeIV_def)

lemma GetKey_MakeIV [simp]: "GetKey (MakeIV k) = GetKey k"
  by (simp add: GetKey_def)

lemma post_ctx_Iv: "length (Iv (post_ctx (MakeIV k))) = 16"
  by (simp add: post_ctx_def AES_init_ctx_iv_def GetIV_def MakeIV_def AES_BLOCKLEN_def)

definition post_ok :: "(byte list \<Rightarrow> string) \<Rightarrow> encrypt_post \<Rightarrow> bool" where
  "post_ok md5 pst \<longleftrightarrow> (\<forall>b. length (md5 b) = 32) \<and> wf_sockaddr (address (e_addr pst))
     \<and> length (e_type pst) = 4 \<and> length (e_buff pst) + 16 \<le> 2 ^ 32"

lemma Post2Packet_blocks:
  assumes "post_ok md5 pst"
  shows "\<exists>c ctx'. Post2Packet md5 pkt pst k = Inr (pkt\<lparr>ptype := ENCRYPT_POST_TYPE, paddress := address (e_addr pst),
        buffs := buffs pkt @ [le_enc 8 (unat (client_id pst)), le_enc 8 (unat (p_id pst)),
          sockaddr_bytes (address (e_addr pst)), c, bytes_of (md5 (padded (e_buff pst))), e_type pst]\<rparr>,
        pst\<lparr>e_buff := c\<rparr>, MakeIV k)
    \<and> length c = length (padded (e_buff pst))
    \<and> AES_CBC_decrypt_buffer (post_ctx (MakeIV k)) c (word_of_nat (length c)) = Inr (ctx', padded (e_buff pst))"
proof -
  let ?b = "padded (e_buff pst)" and ?ctx = "post_ctx (MakeIV k)"
  let ?n = "(length (e_buff pst) + 15) div 16"
  have len: "length ?b = ?n * 16" by (rule padded_blocks)
  have "?n * 16 \<le> length (e_buff pst) + 15" by (rule div_times_less_eq_dividend)
  also have "length (e_buff pst) + 15 < 2 ^ 32" using assms by (simp add: post_ok_def)
  finally have "?n * 16 < 2 ^ 32" .
  then have u: "unat (word_of_nat (?n * 16) :: u32) = ?n * 16" by (rule unat_of_nat_u32)
  from aes.cbc_round_trip [OF post_ctx_Iv [of k] len, where rest = "[]" and rk = "RoundKey ?ctx"]
  obtain iv' c where c: "cbc_encrypt (\<lambda>b. Cipher b (RoundKey ?ctx)) (Iv ?ctx) ?b (?n * 16) = Inr (iv', c)"
    "length c = ?n * 16" "cbc_decrypt (\<lambda>b. InvCipher b (RoundKey ?ctx)) (Iv ?ctx) c (?n * 16) = Inr (iv', ?b)"
    by auto
  have e: "AES_CBC_encrypt_buffer ?ctx ?b (word_of_nat (length ?b)) = Inr (?ctx\<lparr>Iv := iv'\<rparr>, c)"
    unfolding AES_CBC_encrypt_buffer_def len u c(1) by simp
  have d: "AES_CBC_decrypt_buffer ?ctx c (word_of_nat (length c)) = Inr (?ctx\<lparr>Iv := iv'\<rparr>, ?b)"
    unfolding AES_CBC_decrypt_buffer_def c(2) u c(3) by simp
  have pad: "pad16 (e_buff pst) = Inr ?b"
    using assms by (intro pad16_padded) (simp add: post_ok_def)
  have md: "AddBuff (bytes_of (md5 ?b) @ [0]) 32 p = Inr (p\<lparr>buffs := buffs p @ [bytes_of (md5 ?b)]\<rparr>)" for p
    using assms cut_front [of 32 "bytes_of (md5 ?b)" "[0]"] by (simp add: AddBuff_def post_ok_def)
  have "Post2Packet md5 pkt pst k = Inr (pkt\<lparr>ptype := ENCRYPT_POST_TYPE, paddress := address (e_addr pst),
        buffs := buffs pkt @ [le_enc 8 (unat (client_id pst)), le_enc 8 (unat (p_id pst)),
          sockaddr_bytes (address (e_addr pst)), c, bytes_of (md5 ?b), e_type pst]\<rparr>,
        pst\<lparr>e_buff := c\<rparr>, MakeIV k)"
    using assms by (simp add: Post2Packet_def Let_def pad e md post_ok_def)
  then show ?thesis using d c(2) len by auto
qed

lemma Packet2Post_blocks:
  assumes "buffs pkt = [le_enc 8 (unat (cid :: u64)), le_enc 8 (unat (pid :: u64)), sockaddr_bytes a, c, bytes_of m, ty]"
    and "wf_sockaddr a" "length m = 32" "length ty = 4"
    and "AES_CBC_decrypt_buffer (post_ctx (MakeIV k)) c (word_of_nat (length c)) = Inr (ctx', b)"
  shows "Packet2Post md5 pkt pst k = (if m \<noteq> md5 b then Inl (ThrownText ''key error'')
    else Inr (pst\<lparr>client_id := cid, p_id := pid, e_addr := Addr_from a, e_type := ty, e_buff := b\<rparr>, MakeIV k))"
proof -
  have f: "field pkt 0 8 = Inr (le_enc 8 (unat cid))" "field pkt (Suc 0) 8 = Inr (le_enc 8 (unat pid))"
    "field pkt 2 16 = Inr (sockaddr_bytes a)" "field pkt 5 4 = Inr ty" "field pkt 4 32 = Inr (bytes_of m)"
    using assms(2-4) by (simp_all add: field_iff assms(1))
  have "at (buffs pkt) 3 = Inr c" by (simp add: assms(1) at_def)
  then show ?thesis
    using assms(2) by (simp add: Packet2Post_def GetPostInfo_def f assms(5) Let_def)
qed

lemma encrypted_post_round:
  assumes "post_ok md5 pst" "length (e_buff pst) \<le> 8000" "key k' = key k"
  shows "\<exists>rd pst1 k1 rd1 pst2 k2. Post2SignedRawData md5 pst k rw = Inr (rd, pst1, k1)
    \<and> CheckRawMsg (rmsg rd) = Inr True \<and> ProcessSignedRawMsg (rmsg rd) rw' = Inr rd1
    \<and> SignedRawData2Post md5 rd1 pst0 k' = Inr (pst2, k2)
    \<and> client_id pst2 = client_id pst \<and> p_id pst2 = p_id pst \<and> e_type pst2 = e_type pst
    \<and> address (e_addr pst2) = address (e_addr pst) \<and> e_buff pst2 = padded (e_buff pst)"
proof -
  let ?p0 = "new_packet 0 zero_sockaddr" and ?b = "padded (e_buff pst)"
  from Post2Packet_blocks [OF assms(1), of ?p0 k] obtain c ctx' where
    pkt: "Post2Packet md5 ?p0 pst k = Inr (?p0\<lparr>ptype := ENCRYPT_POST_TYPE, paddress := address (e_addr pst),
        buffs := [le_enc 8 (unat (client_id pst)), le_enc 8 (unat (p_id pst)),
          sockaddr_bytes (address (e_addr pst)), c, bytes_of (md5 ?b), e_type pst]\<rparr>, pst\<lparr>e_buff := c\<rparr>, MakeIV k)"
    and c: "length c = length ?b"
    and dec: "AES_CBC_decrypt_buffer (post_ctx (MakeIV k)) c (word_of_nat (length c)) = Inr (ctx', ?b)"
    by (auto simp: new_packet_def)
  let ?blocks = "[le_enc 8 (unat (client_id pst)), le_enc 8 (unat (p_id pst)),
          sockaddr_bytes (address (e_addr pst)), c, bytes_of (md5 ?b), e_type pst]"
  let ?pkt = "?p0\<lparr>ptype := ENCRYPT_POST_TYPE, paddress := address (e_addr pst), buffs := ?blocks\<rparr>"
  let ?rd = "rw\<lparr>rdata := le_enc 4 (unat ENCRYPT_POST_TYPE) @ packet_bytes ?blocks\<rparr>"
  have "length c \<le> 8015"
    unfolding c padded_blocks using assms(2) div_times_less_eq_dividend [of "length (e_buff pst) + 15" 16] by linarith
  then have fits: "packet_fits ?pkt"
    using assms(1) by (simp add: packet_fits_def packet_bytes_def BUFSIZ_def post_ok_def)
  then have raw: "Packet2Rawdata ?pkt rw = Inr ?rd"
    using Packet2Rawdata_fits [of ?pkt rw] by simp
  have tag: "info_tag ''ECYP'' = bytes_of ''ECYP''" by (simp add: info_tag_def bytes_of_def)
  obtain sd where sd: "SignedRawdata ?rd ''ECYP'' = Inr sd" "CheckRawMsg (rmsg sd) = Inr True"
    "ProcessSignedRawMsg (rmsg sd) rw' = Inr (rw'\<lparr>rdata := rdata ?rd, rhead := bytes_of ''NETC'',
       rinfo := bytes_of ''ECYP'', rtail := bytes_of ''CTEN''\<rparr>)"
    using signed_round_trip [of "''ECYP''" ?rd rw'] tag by auto
  let ?rd1 = "rw'\<lparr>rdata := rdata ?rd, rhead := bytes_of ''NETC'', rinfo := bytes_of ''ECYP'', rtail := bytes_of ''CTEN''\<rparr>"
  have blocks: "\<forall>b \<in> set ?blocks. length b < 2 ^ 32"
    using packet_fits_blocks [OF fits] by simp
  have pkt2: "Rawdata2Packet ?p0 ?rd1 = Inr (?p0\<lparr>ptype := ENCRYPT_POST_TYPE, buffs := ?blocks\<rparr>)"
    using Rawdata2Packet_packet [OF blocks, of ?rd1 ENCRYPT_POST_TYPE ?p0] by (simp add: new_packet_def)
  have ctx: "post_ctx (MakeIV k') = post_ctx (MakeIV k)"
    using assms(3) by (simp add: post_ctx_def GetKey_def GetIV_def MakeIV_def)
  have "Packet2Post md5 (?p0\<lparr>ptype := ENCRYPT_POST_TYPE, buffs := ?blocks\<rparr>) pst0 k' =
      Inr (pst0\<lparr>client_id := client_id pst, p_id := p_id pst, e_addr := Addr_from (address (e_addr pst)),
        e_type := e_type pst, e_buff := ?b\<rparr>, MakeIV k')"
    using assms(1) dec ctx by (subst Packet2Post_blocks) (auto simp: post_ok_def)
  then have "SignedRawData2Post md5 ?rd1 pst0 k' =
      Inr (pst0\<lparr>client_id := client_id pst, p_id := p_id pst, e_addr := Addr_from (address (e_addr pst)),
        e_type := e_type pst, e_buff := ?b\<rparr>, MakeIV k')"
    using pkt2 by (simp add: SignedRawData2Post_def)
  moreover have "Post2SignedRawData md5 pst k rw = Inr (sd, pst\<lparr>e_buff := c\<rparr>, MakeIV k)"
    by (simp add: Post2SignedRawData_def pkt raw sd)
  ultimately show ?thesis using sd by (simp add: Addr_from_def)
qed

text \<open>
  C23. End-to-end encryption of a post: what \<open>Post2SignedRawData\<close> builds, tagged as \<open>ECYP\<close>, passes the tag
  check of the receiver, and under the same key \<open>SignedRawData2Post\<close> gives back the client, the post id, the
  address, the type and the data, filled up with zeros to whole AES blocks. Only the key's four words matter;
  any initialisation vector it carried is replaced on both sides.
\<close>

theorem encrypted_post_round_trip:
  assumes "post_ok md5 pst" "length (e_buff pst) \<le> 8000" "key k' = key k"
  shows "\<exists>rd pst1 k1 rd1 pst2 k2. Post2SignedRawData md5 pst k rw = Inr (rd, pst1, k1)
    \<and> CheckRawMsg (rmsg rd) = Inr True \<and> ProcessSignedRawMsg (rmsg rd) rw' = Inr rd1
    \<and> SignedRawData2Post md5 rd1 pst0 k' = Inr (pst2, k2)
    \<and> client_id pst2 = client_id pst \<and> p_id pst2 = p_id pst \<and> e_type pst2 = e_type pst
    \<and> address (e_addr pst2) = address (e_addr pst) \<and> e_buff pst2 = padded (e_buff pst)"
  using assms by (rule encrypted_post_round)

text \<open>
  Integrity of received posts: \<open>Packet2Post\<close> fails or returns data whose digest is the one in the packet;
  a packet whose digest block does not fit the decrypted data never gets through.
\<close>

theorem post_digest_checked:
  assumes "Packet2Post md5 pkt pst k = Inr (pst', k')"
  shows "6 \<le> length (buffs pkt) \<and> take 32 (buffs pkt ! 4) = bytes_of (md5 (e_buff pst'))
    \<and> (\<exists>ctx'. AES_CBC_decrypt_buffer (post_ctx (MakeIV k)) (buffs pkt ! 3) (word_of_nat (length (buffs pkt ! 3)))
          = Inr (ctx', e_buff pst'))"
proof -
  from assms obtain pst1 ty c m ctx' t where
    m: "field pkt 4 32 = Inr m" "field pkt 5 4 = Inr ty" "at (buffs pkt) 3 = Inr c"
    and d: "AES_CBC_decrypt_buffer (post_ctx (MakeIV k)) c (word_of_nat (length c)) = Inr (ctx', t)"
    and ok: "chars_of m = md5 t" and pst': "e_buff pst' = t"
    by (auto simp: Packet2Post_def Let_def split: if_splits)
  have "m = bytes_of (md5 t)" using ok bytes_of_chars_of [of m] by simp
  then show ?thesis using m d pst' by (auto simp: field_iff at_Inr_iff)
qed

definition sample_md5 :: "byte list \<Rightarrow> string" where
  "sample_md5 b = replicate 32 (if b = [] then CHR ''0'' else CHR ''f'')"

definition sample_post :: encrypt_post where
  "sample_post = new_post\<lparr>e_type := bytes_of ''JRES'', e_buff := [1, 2, 3]\<rparr>"

definition sample_key :: aes_key256 where
  "sample_key = \<lparr>key = [1, 2, 3, 4], iv = []\<rparr>"

lemma sample_post_ok: "post_ok sample_md5 sample_post"
  by (simp add: post_ok_def sample_md5_def sample_post_def new_post_def Addr_empty_def wf_sockaddr_def zero_sockaddr_def)

theorem encrypted_post_round_trip_witness:
  "\<exists>rd pst1 k1 rd1 pst2 k2. Post2SignedRawData sample_md5 sample_post sample_key (new_raw_data 1 []) = Inr (rd, pst1, k1)
    \<and> ProcessSignedRawMsg (rmsg rd) (new_raw_data 2 []) = Inr rd1
    \<and> SignedRawData2Post sample_md5 rd1 new_post sample_key = Inr (pst2, k2)
    \<and> e_buff pst2 = [1, 2, 3] @ replicate 13 0"
proof -
  have "padded (e_buff sample_post) = [1, 2, 3] @ replicate 13 0"
    by (simp add: padded_def sample_post_def)
  then show ?thesis
    using encrypted_post_round_trip [OF sample_post_ok, of sample_key sample_key "new_raw_data 1 []" "new_raw_data 2 []" new_post]
    by (simp add: sample_post_def) blast
qed

theorem post_digest_checked_witness:
  "\<exists>pkt pst' k'. Packet2Post sample_md5 pkt new_post sample_key = Inr (pst', k')
    \<and> take 32 (buffs pkt ! 4) = bytes_of (sample_md5 (e_buff pst'))"
proof -
  from Post2Packet_blocks [OF sample_post_ok, of "new_packet 0 zero_sockaddr" sample_key] obtain c ctx' where
    c: "AES_CBC_decrypt_buffer (post_ctx (MakeIV sample_key)) c (word_of_nat (length c)) = Inr (ctx', padded (e_buff sample_post))"
    by blast
  let ?m = "sample_md5 (padded (e_buff sample_post))"
  let ?pkt = "(new_packet 0 zero_sockaddr)\<lparr>buffs := [le_enc 8 (unat (0 :: u64)), le_enc 8 (unat (0 :: u64)),
    sockaddr_bytes zero_sockaddr, c, bytes_of ?m, e_type sample_post]\<rparr>"
  have "Packet2Post sample_md5 ?pkt new_post sample_key = Inr (new_post\<lparr>client_id := 0, p_id := 0,
      e_addr := Addr_from zero_sockaddr, e_type := e_type sample_post, e_buff := padded (e_buff sample_post)\<rparr>, MakeIV sample_key)"
    by (subst Packet2Post_blocks [OF _ _ _ _ c, where m = ?m])
      (simp_all add: wf_sockaddr_def zero_sockaddr_def sample_md5_def sample_post_def)
  from post_digest_checked [OF this] this show ?thesis by blast
qed

end
