(* ===== verification/Fermat.thy ===== *)
theory Fermat
  imports Prelude
begin

text \<open>
  The number theory behind RSA: Fermat's little theorem, from the binomial theorem, and what follows for a
  product of two primes. Primality is by trial division, so that it evaluates.
\<close>

definition is_prime :: "nat \<Rightarrow> bool" where
  "is_prime p \<longleftrightarrow> 2 \<le> p \<and> (\<forall>k \<in> {2 ..< p}. \<not> k dvd p)"

lemma is_prime_ge: "is_prime p \<Longrightarrow> 2 \<le> p"
  by (simp add: is_prime_def)

lemma is_prime_coprime:
  assumes "is_prime p" "0 < k" "k < p"
  shows "coprime p k"
proof -
  let ?g = "gcd p k"
  have "?g dvd p" "?g \<le> k" using assms(2) by (simp_all add: gcd_le2_nat)
  then have "?g \<notin> {2 ..< p}" "?g < p" using assms(1,3) unfolding is_prime_def by (blast, linarith)
  moreover have "?g \<noteq> 0" using assms(2) by simp
  ultimately have "?g = 1" unfolding atLeastLessThan_iff by linarith
  then show ?thesis by (simp add: coprime_iff_gcd_eq_1)
qed

lemma prime_dvd_binomial:
  assumes "is_prime p" "0 < k" "k < p"
  shows "p dvd (p choose k)"
proof -
  have "k * (p choose k) = p * ((p - 1) choose (k - 1))"
    by (rule times_binomial_minus1_eq [OF assms(2)])
  then have "p dvd k * (p choose k)" by simp
  moreover have "coprime p k" by (rule is_prime_coprime [OF assms])
  ultimately show ?thesis by (simp add: coprime_dvd_mult_right_iff)
qed

lemma fermat: "is_prime p \<Longrightarrow> a ^ p mod p = a mod p"
proof (induction a)
  case 0
  then have "0 < p" using is_prime_ge by fastforce
  then show ?case by (simp add: power_0_left)
next
  case (Suc a)
  let ?f = "\<lambda>k. (p choose k) * a ^ k"
  have p: "0 < p" using is_prime_ge [OF Suc.prems] by simp
  have "(a + 1) ^ p = (\<Sum>k\<le>p. ?f k)"
    using binomial [of a 1 p] by simp
  also have "{..p} = insert 0 (insert p {0 <..< p})" using p by auto
  also have "(\<Sum>k \<in> \<dots>. ?f k) = 1 + (a ^ p + (\<Sum>k \<in> {0 <..< p}. ?f k))"
    using p by simp
  finally have "(a + 1) ^ p = (\<Sum>k \<in> {0 <..< p}. ?f k) + (a ^ p + 1)" by simp
  moreover have "p dvd (\<Sum>k \<in> {0 <..< p}. ?f k)"
    using prime_dvd_binomial [OF Suc.prems] by (intro dvd_sum) auto
  ultimately have "(a + 1) ^ p mod p = (a ^ p + 1) mod p"
    by (metis mod_add_left_eq add_0 dvd_imp_mod_0)
  also have "\<dots> = (a + 1) mod p" using Suc by (metis mod_add_left_eq)
  finally show ?case by simp
qed

lemma fermat_iterated:
  assumes "is_prime p"
  shows "a ^ (1 + j * (p - 1)) mod p = a mod p"
proof (induction j)
  case (Suc j)
  have "1 + Suc j * (p - 1) = (1 + j * (p - 1)) + (p - 1)" by simp
  then have "a ^ (1 + Suc j * (p - 1)) mod p = (a ^ (1 + j * (p - 1)) mod p * a ^ (p - 1)) mod p"
    by (simp only: power_add mod_mult_left_eq)
  also have "\<dots> = (a * a ^ (p - 1)) mod p" by (simp only: Suc mod_mult_left_eq)
  also have "a * a ^ (p - 1) = a ^ p"
    using is_prime_ge [OF assms] by (cases p) simp_all
  finally show ?case using fermat [OF assms] by simp
qed simp

lemma rsa_identity:
  assumes p: "is_prime p" and q: "is_prime q" and ne: "p \<noteq> q" and x: "x < p * q"
  shows "x ^ (1 + j * ((p - 1) * (q - 1))) mod (p * q) = x"
proof -
  let ?y = "x ^ (1 + j * ((p - 1) * (q - 1)))"
  have "?y mod p = x mod p"
    using fermat_iterated [OF p, of x "j * (q - 1)"] by (simp add: ac_simps)
  moreover have "?y mod q = x mod q"
    using fermat_iterated [OF q, of x "j * (p - 1)"] by (simp add: ac_simps)
  moreover have "x \<le> ?y" by (cases "x = 0") (simp_all add: self_le_power)
  ultimately have "p dvd ?y - x" "q dvd ?y - x" by (simp_all add: mod_eq_dvd_iff_nat)
  moreover have "coprime p q"
  proof (cases "p < q")
    case True
    then show ?thesis using is_prime_coprime [OF q, of p] is_prime_ge [OF p] by (simp add: coprime_commute)
  next
    case False
    then show ?thesis using is_prime_coprime [OF p, of q] is_prime_ge [OF q] ne by simp
  qed
  ultimately have "p * q dvd ?y - x" by (rule divides_mult)
  then have "?y mod (p * q) = x mod (p * q)" using \<open>x \<le> ?y\<close> by (simp add: mod_eq_dvd_iff_nat)
  then show ?thesis using x by simp
qed

end
