(* ===== verification/Rsa.thy ===== *)
theory Rsa
  imports RawData Fermat "HOL-Library.Signed_Division"
begin

text \<open>
  RSA as in \<^theory_text>\<open>src/src/rsa.cpp\<close>, one byte per 64-bit word: key generation from a list of primes, modular
  exponentiation in unsigned 64-bit arithmetic, and the encryption of tagged strings in
  \<^theory_text>\<open>src/src/server.cpp\<close>. The extended Euclid runs on \<open>long long\<close>; its cofactors stay
  within the arguments (the invariant of \<open>ext_loop_bezout\<close>), so \<open>int\<close> is exact for the primes of
  \<^theory_text>\<open>src/data/primes.txt\<close>.
  The draws of \<open>rand()\<close> are an argument, as pairs of positions in the list.
\<close>

record rsa_key =
  modulus :: u64
  exponent :: u64

section \<open>Euclid\<close>

function gcd_c :: "int \<Rightarrow> int \<Rightarrow> int" where
  "gcd_c a b = (if a = 0 then b else gcd_c (b smod a) a)"
  by pat_completeness auto
termination
  by (relation "measure (\<lambda>(a, b). nat \<bar>a\<bar>)") (auto simp: signed_modulo_int_def abs_mult)

declare gcd_c.simps [simp del]

function ext_loop :: "int \<Rightarrow> int \<Rightarrow> int \<Rightarrow> int \<Rightarrow> int \<Rightarrow> int \<Rightarrow> int" where
  "ext_loop a g x y u v =
     (if a = 0 then y
      else let q = g sdiv a; r = g smod a; m = x - u * q; n = y - v * q in ext_loop r a u v m n)"
  by pat_completeness auto
termination
  by (relation "measure (\<lambda>(a, g, x, y, u, v). nat \<bar>a\<bar>)") (auto simp: signed_modulo_int_def abs_mult)

declare ext_loop.simps [simp del]

definition ExtEuclid :: "int \<Rightarrow> int \<Rightarrow> int" where
  "ExtEuclid a b = ext_loop a b 0 1 1 0"

section \<open>Modular exponentiation\<close>

text \<open>\<open>exit(1)\<close> for a zero modulus is an error value. All products wrap at 64 bits.\<close>

function rsa_modExp :: "u64 \<Rightarrow> u64 \<Rightarrow> u64 \<Rightarrow> u64 res" where
  "rsa_modExp b e m =
     (if m = 0 then Inl (RuntimeError ''exit'')
      else let b = b mod m in
        if e = 0 then Inr 1
        else if e = 1 then Inr b
        else if e mod 2 = 0 then bind_res (rsa_modExp (b * b mod m) (e div 2) m) (\<lambda>r. Inr (r mod m))
        else bind_res (rsa_modExp b (e - 1) m) (\<lambda>r. Inr (b * r mod m)))"
  by pat_completeness auto
termination
  by (relation "measure (\<lambda>(b, e, m). unat e)") (auto simp: unat_div unat_minus_one unat_gt_0)

declare rsa_modExp.simps [simp del]

section \<open>Keys\<close>

text \<open>
  \<open>fgets\<close> repeated \<open>a + 1\<close> times from the start of the file leaves the line at \<open>a\<close>, or the last one when
  there are not so many. The search goes on until two different primes suit the exponent.
\<close>

definition prime_at :: "int list \<Rightarrow> nat \<Rightarrow> int" where
  "prime_at primes a = primes ! min a (length primes - 1)"

fun rsa_search :: "int list \<Rightarrow> (nat \<times> nat) list \<Rightarrow> (int \<times> int) option" where
  "rsa_search primes [] = None"
| "rsa_search primes ((a, b) # draws) =
     (let p = prime_at primes a; q = prime_at primes b; phi_max = (p - 1) * (q - 1) in
      if \<not> (p \<noteq> 0 \<and> q \<noteq> 0) \<or> p = q \<or> gcd_c phi_max 257 \<noteq> 1 then rsa_search primes draws else Some (p, q))"

partial_function (option) lift_pos :: "int \<Rightarrow> int \<Rightarrow> int option" where
  "lift_pos d phi_max = (if d < 0 then lift_pos (d + phi_max) phi_max else Some d)"

definition rsa_gen_keys :: "int list \<Rightarrow> (nat \<times> nat) list \<Rightarrow> (rsa_key \<times> rsa_key) option" where
  "rsa_gen_keys primes draws = (case rsa_search primes draws of None \<Rightarrow> None
     | Some (p, q) \<Rightarrow>
       let max = p * q; phi_max = (p - 1) * (q - 1) in
       map_option (\<lambda>d. (\<lparr>modulus = word_of_int max, exponent = 257\<rparr>,
                        \<lparr>modulus = word_of_int max, exponent = word_of_int d\<rparr>))
         (lift_pos (ExtEuclid phi_max 257) phi_max))"

section \<open>Encryption of byte strings\<close>

fun map_res :: "('a \<Rightarrow> 'b res) \<Rightarrow> 'a list \<Rightarrow> 'b list res" where
  "map_res f [] = Inr []"
| "map_res f (x # xs) = bind_res (f x) (\<lambda>y. bind_res (map_res f xs) (\<lambda>ys. Inr (y # ys)))"

definition rsa_encrypt :: "byte list \<Rightarrow> rsa_key \<Rightarrow> u64 list res" where
  "rsa_encrypt message pub = map_res (\<lambda>b. rsa_modExp (ucast b) (exponent pub) (modulus pub)) message"

text \<open>\<open>None\<close> is the null pointer returned for a size that is no multiple of eight.\<close>

definition rsa_decrypt :: "byte list \<Rightarrow> rsa_key \<Rightarrow> byte list option res" where
  "rsa_decrypt message priv =
     (if length message mod 8 \<noteq> 0 then Inr None
      else bind_res (map_res (\<lambda>i. rsa_modExp (word_of_nat (le_dec (take 8 (drop (8 * i) message))))
                       (exponent priv) (modulus priv)) [0 ..< length message div 8]) (\<lambda>temp.
           Inr (Some (map ucast temp))))"

definition EncryptRSARawMsg :: "raw_data \<Rightarrow> rsa_key \<Rightarrow> raw_data res" where
  "EncryptRSARawMsg rdt pkc =
     bind_res (rsa_encrypt (rdata rdt) pkc) (\<lambda>c. Inr (rdt\<lparr>rdata := concat (map (\<lambda>w. le_enc 8 (unat w)) c)\<rparr>))"

definition DecryptRSARawMsg :: "raw_data \<Rightarrow> rsa_key \<Rightarrow> raw_data res" where
  "DecryptRSARawMsg rdt prc =
     bind_res (rsa_decrypt (rdata rdt) prc) (\<lambda>d. Inr (rdt\<lparr>rdata := (case d of None \<Rightarrow> [] | Some d \<Rightarrow> d)\<rparr>))"

section \<open>Correctness of the arithmetic\<close>

lemma sdiv_nonneg: "0 \<le> a \<Longrightarrow> 0 \<le> b \<Longrightarrow> a sdiv b = (a :: int) div b"
  by (cases "a = 0"; cases "b = 0") (simp_all add: signed_divide_int_def)

lemma smod_nonneg: "0 \<le> a \<Longrightarrow> 0 \<le> b \<Longrightarrow> a smod b = (a :: int) mod b"
  by (cases "a = 0"; cases "b = 0") (simp_all add: signed_modulo_int_def)

lemma gcd_c_gcd: "0 \<le> a \<Longrightarrow> 0 \<le> b \<Longrightarrow> gcd_c a b = gcd a b"
proof (induction a b rule: gcd_c.induct)
  case (1 a b)
  show ?case
  proof (cases "a = 0")
    case True
    then show ?thesis using 1 by (simp add: gcd_c.simps)
  next
    case False
    then have "0 < a" using 1 by simp
    then show ?thesis using 1 False gcd_red_int [of b a] gcd.commute [of b a] gcd.commute [of a "b mod a"]
      by (subst gcd_c.simps) (simp add: smod_nonneg)
  qed
qed

lemma abs_opposite: "y * w \<le> 0 \<Longrightarrow> \<bar>y - w\<bar> = \<bar>y\<bar> + \<bar>w\<bar>" for y w :: int
  by (auto simp: mult_le_0_iff)

lemma ext_loop_bezout:
  assumes "0 \<le> a" "0 < g" "A * x + B * y = g" "A * u + B * v = a" "\<bar>y\<bar> * a + \<bar>v\<bar> * g = A" "y * v \<le> 0" "\<bar>y\<bar> \<le> A"
  shows "\<bar>ext_loop a g x y u v\<bar> \<le> A \<and> (\<exists>x'. A * x' + B * ext_loop a g x y u v = gcd a g)"
  using assms
proof (induction a g x y u v rule: ext_loop.induct)
  case (1 a g x y u v)
  show ?case
  proof (cases "a = 0")
    case True
    then show ?thesis using 1 by (auto simp: ext_loop.simps)
  next
    case False
    let ?q = "g div a" and ?r = "g mod a"
    have pos: "0 < a" "0 \<le> ?q" "0 \<le> ?r" using False 1 by (simp_all add: pos_imp_zdiv_nonneg_iff)
    have g: "g = a * ?q + ?r" by simp
    have sd: "g sdiv a = ?q" "g smod a = ?r" using pos(1) 1 by (simp_all add: sdiv_nonneg smod_nonneg)
    have bez: "A * (x - u * ?q) + B * (y - v * ?q) = ?r"
    proof -
      have "A * (x - u * ?q) + B * (y - v * ?q) = (A * x + B * y) - ?q * (A * u + B * v)" by algebra
      then show ?thesis using 1(4,5) by (simp add: minus_div_mult_eq_mod)
    qed
    have sign: "v * (y - v * ?q) \<le> 0"
    proof -
      have "v * (y - v * ?q) = y * v - (v * v) * ?q" by algebra
      moreover have "0 \<le> (v * v) * ?q" using pos(2) by (intro mult_nonneg_nonneg zero_le_square)
      ultimately show ?thesis using 1(7) by linarith
    qed
    have absn: "\<bar>y - v * ?q\<bar> = \<bar>y\<bar> + \<bar>v\<bar> * ?q"
    proof -
      have "(y * v) * ?q \<le> 0" using 1(7) pos(2) by (rule mult_nonpos_nonneg)
      then have "y * (v * ?q) \<le> 0" by (simp only: mult.assoc)
      from abs_opposite [OF this] show ?thesis using pos(2) by (simp add: abs_mult)
    qed
    have sum: "\<bar>v\<bar> * ?r + \<bar>y - v * ?q\<bar> * a = A"
    proof -
      have "\<bar>v\<bar> * ?r + \<bar>y - v * ?q\<bar> * a = \<bar>y\<bar> * a + \<bar>v\<bar> * (a * ?q + ?r)" 
        unfolding absn by (simp only: ring_distribs ac_simps)
      then show ?thesis using 1(6) g by simp
    qed
    have "\<bar>v\<bar> * 1 \<le> \<bar>v\<bar> * g" using 1(3) by (intro mult_left_mono) auto
    also have "\<dots> \<le> A" using 1(6) pos(1) by (metis abs_ge_zero le_add_same_cancel2 zero_le_mult_iff less_imp_le)
    finally have bound: "\<bar>v\<bar> \<le> A" by simp
    have "\<bar>ext_loop ?r a u v (x - u * ?q) (y - v * ?q)\<bar> \<le> A \<and>
        (\<exists>x'. A * x' + B * ext_loop ?r a u v (x - u * ?q) (y - v * ?q) = gcd ?r a)"
      using "1.IH" [OF False refl refl refl refl] sd pos bez sign sum bound 1(5) by simp
    moreover have "ext_loop a g x y u v = ext_loop ?r a u v (x - u * ?q) (y - v * ?q)"
      using False sd by (subst ext_loop.simps) (simp add: Let_def)
    moreover have "gcd ?r a = gcd a g"
      using gcd_red_int [of g a] gcd.commute [of g a] gcd.commute [of a ?r] by simp
    ultimately show ?thesis by simp
  qed
qed

lemma unat_mult_mod:
  fixes a b m :: u64
  assumes "unat a < M" "unat b < M" "M = unat m" "M \<le> 2 ^ 32"
  shows "unat (a * b mod m) = unat a * unat b mod M"
proof -
  have "unat a * unat b < 2 ^ 32 * 2 ^ 32"
    using assms by (intro mult_strict_mono) auto
  then have "unat a * unat b < 2 ^ 64" by simp
  then have "unat (a * b) = unat a * unat b" by (simp add: unat_word_ariths)
  then show ?thesis using assms(3) by (simp add: unat_mod)
qed

lemma rsa_modExp_power:
  assumes "m \<noteq> 0" "unat m \<le> 2 ^ 32"
  shows "\<exists>r. rsa_modExp b e m = Inr r \<and> unat r = (if e = 0 then 1 else unat b ^ unat e mod unat m)"
  using assms
proof (induction b e m rule: rsa_modExp.induct)
  case (1 b e m)
  let ?M = "unat m" and ?b = "b mod m"
  have M: "0 < ?M" using 1 by (simp add: unat_gt_0)
  have b: "unat ?b = unat b mod ?M" "unat ?b < ?M" using M by (simp_all add: unat_mod)
  show ?case
  proof (cases "e = 0 \<or> e = 1")
    case True
    then show ?thesis using 1 b by (subst rsa_modExp.simps) (auto simp: Let_def)
  next
    case False
    then have E: "2 \<le> unat e"
    proof -
      have "unat e \<noteq> 0" "unat e \<noteq> 1" using False by (metis unat_eq_zero, metis unat_1 word_unat_eq_iff)
      then show ?thesis by linarith
    qed
    show ?thesis
    proof (cases "e mod 2 = 0")
      case True
      have h: "unat (e div 2) = unat e div 2" by (simp add: unat_div)
      have "unat (e mod 2) = unat e mod 2" by (simp add: unat_mod)
      then have ev: "unat e = 2 * (unat e div 2)" using True by simp presburger
      have nz: "e div 2 \<noteq> 0" using h E by (metis unat_0 div_greater_zero_iff less_numeral_extra(3) zero_less_numeral)
      obtain r where r: "rsa_modExp (?b * ?b mod m) (e div 2) m = Inr r"
        "unat r = unat (?b * ?b mod m) ^ unat (e div 2) mod ?M"
        using "1.IH"(1) [OF _ refl _ _ True] False 1 nz by auto
      have "unat (?b * ?b mod m) = (unat b mod ?M) * (unat b mod ?M) mod ?M"
        using unat_mult_mod [OF b(2) b(2) refl] 1 b(1) by simp
      then have "unat r = (unat b * unat b) ^ (unat e div 2) mod ?M"
        using r(2) h by (simp add: power_mod mod_mult_eq)
      also have "(unat b * unat b) ^ (unat e div 2) = unat b ^ unat e"
        using ev by (metis power2_eq_square power_mult)
      finally have "unat r = unat b ^ unat e mod ?M" .
      moreover have "rsa_modExp b e m = Inr (r mod m)"
        using 1 False True r(1) by (subst rsa_modExp.simps) (simp add: Let_def)
      ultimately show ?thesis using False by (simp add: unat_mod)
    next
      case odd: False
      have h: "unat (e - 1) = unat e - 1" using False by (simp add: unat_minus_one)
      have nz: "e - 1 \<noteq> 0" using False by auto
      obtain r where r: "rsa_modExp ?b (e - 1) m = Inr r" "unat r = unat ?b ^ unat (e - 1) mod ?M"
        using "1.IH"(2) [OF _ refl _ _ odd] False 1 nz by auto
      have "unat r < ?M" using r(2) M by simp
      then have "unat (?b * r mod m) = unat ?b * unat r mod ?M"
        using unat_mult_mod [OF b(2) _ refl] 1 by simp
      also have "\<dots> = unat b * unat b ^ (unat e - 1) mod ?M"
        using r(2) h b(1) by (simp add: power_mod mod_mult_eq)
      also have "unat b * unat b ^ (unat e - 1) = unat b ^ unat e"
        using E by (cases "unat e") simp_all
      finally have "unat (?b * r mod m) = unat b ^ unat e mod ?M" .
      moreover have "rsa_modExp b e m = Inr (?b * r mod m)"
        using 1 False odd r(1) by (subst rsa_modExp.simps) (simp add: Let_def)
      ultimately show ?thesis using False by simp
    qed
  qed
qed

section \<open>Keys and messages\<close>

lemma lift_pos_returns:
  assumes "0 < phi" "- phi \<le> d" "d \<le> phi"
  shows "\<exists>d'. lift_pos d phi = Some d' \<and> 0 \<le> d' \<and> d' \<le> phi \<and> d' mod phi = d mod phi"
proof (cases "d < 0")
  case True
  then have "lift_pos d phi = Some (d + phi)" using assms by (simp add: lift_pos.simps)
  then show ?thesis using True assms by simp
next
  case False
  then show ?thesis using assms by (simp add: lift_pos.simps)
qed

lemma rsa_search_sound:
  "rsa_search primes draws = Some (p, q) \<Longrightarrow> primes \<noteq> [] \<Longrightarrow>
   p \<in> set primes \<and> q \<in> set primes \<and> p \<noteq> q \<and> gcd_c ((p - 1) * (q - 1)) 257 = 1"
proof (induction primes draws rule: rsa_search.induct)
  case (2 primes a b draws)
  have "prime_at primes n \<in> set primes" for n
  proof -
    have "min n (length primes - 1) < length primes" using 2(3) by (cases primes) auto
    then show ?thesis by (simp add: prime_at_def)
  qed
  with 2 show ?case by (auto simp: Let_def split: if_splits)
qed simp

lemma rsa_key_sound:
  assumes keys: "rsa_gen_keys primes draws = Some (pub, priv)" and ne: "primes \<noteq> []"
    and pr: "\<forall>p \<in> set primes. is_prime (nat p) \<and> p < 2 ^ 31"
  shows "\<exists>p q d j. is_prime p \<and> is_prime q \<and> p \<noteq> q \<and> int p \<in> set primes \<and> int q \<in> set primes
    \<and> 257 * d = 1 + j * ((p - 1) * (q - 1)) \<and> 0 < d \<and> d < 2 ^ 64
    \<and> modulus pub = word_of_nat (p * q) \<and> exponent pub = 257
    \<and> modulus priv = word_of_nat (p * q) \<and> exponent priv = word_of_nat d"
proof -
  obtain p q where pq: "rsa_search primes draws = Some (p, q)"
    using keys by (auto simp: rsa_gen_keys_def split: option.splits)
  let ?phi = "(p - 1) * (q - 1)"
  from rsa_search_sound [OF pq ne] have mem: "p \<in> set primes" "q \<in> set primes" "p \<noteq> q" and g: "gcd_c ?phi 257 = 1"
    by auto
  from pr mem have P: "is_prime (nat p)" "is_prime (nat q)" "p < 2 ^ 31" "q < 2 ^ 31" by auto
  then have ge: "2 \<le> p" "2 \<le> q" using is_prime_ge [OF P(1)] is_prime_ge [OF P(2)] by linarith+
  have phi: "0 < ?phi" using ge by simp
  have "?phi < 2 ^ 31 * 2 ^ 31" using ge P by (intro mult_strict_mono) auto
  then have phi62: "?phi < 2 ^ 62" by simp
  have gcd1: "gcd ?phi 257 = 1" using g gcd_c_gcd [of ?phi 257] phi by simp
  from ext_loop_bezout [of ?phi 257 ?phi 0 257 1 1 0] phi
  obtain x' where y: "\<bar>ExtEuclid ?phi 257\<bar> \<le> ?phi" "?phi * x' + 257 * ExtEuclid ?phi 257 = 1"
    using gcd1 by (auto simp: ExtEuclid_def)
  then have range: "- ?phi \<le> ExtEuclid ?phi 257" "ExtEuclid ?phi 257 \<le> ?phi" by linarith+
  obtain d where d: "lift_pos (ExtEuclid ?phi 257) ?phi = Some d" "0 \<le> d" "d \<le> ?phi"
    "d mod ?phi = ExtEuclid ?phi 257 mod ?phi"
    using lift_pos_returns [OF phi range] by blast
  have "257 * d mod ?phi = 257 * ExtEuclid ?phi 257 mod ?phi"
    using d(4) by (metis mod_mult_right_eq)
  also have "\<dots> = 1 mod ?phi" using y(2) by (metis mod_mult_self3 mult.commute)
  finally have "?phi dvd 257 * d - 1" by (simp add: mod_eq_dvd_iff)
  then obtain k where k: "257 * d - 1 = ?phi * k" by (rule dvdE)
  have d0: "d \<noteq> 0"
  proof
    assume "d = 0"
    then have "?phi dvd 1" using k by (metis dvd_triv_left mult_zero_right diff_0 dvd_minus_iff)
    then have "?phi = 1" using phi by (simp add: zdvd1_eq)
    then have "p = 2" "q = 2" using ge by (auto simp: pos_zmult_eq_1_iff)
    then show False using mem(3) by simp
  qed
  then have "0 < ?phi * k" using k d(2) by linarith
  then have k0: "0 < k" using phi by (metis zero_less_mult_pos)
  have n: "nat ?phi = (nat p - 1) * (nat q - 1)"
    using ge by (simp add: nat_mult_distrib nat_diff_distrib)
  have de: "257 * nat d = 1 + nat k * ((nat p - 1) * (nat q - 1))"
  proof -
    have "int (257 * nat d) = int (1 + nat k * nat ?phi)"
      using k d(2) k0 phi by (simp add: algebra_simps)
    then show ?thesis unfolding n by (simp only: of_nat_eq_iff)
  qed
  have lt: "0 < nat d" "nat d < 2 ^ 64" using d(2,3) d0 phi62 by simp_all
  have w: "word_of_int (p * q) = (word_of_nat (nat p * nat q) :: u64)" "word_of_int d = (word_of_nat (nat d) :: u64)"
    using ge d(2) by simp_all
  have k: "modulus pub = word_of_nat (nat p * nat q) \<and> exponent pub = 257
    \<and> modulus priv = word_of_nat (nat p * nat q) \<and> exponent priv = word_of_nat (nat d)"
    using keys unfolding rsa_gen_keys_def pq by (simp only: option.case prod.case Let_def d(1) option.map option.inject prod.inject w) auto
  have "nat p \<noteq> nat q" using mem(3) ge by simp
  moreover have "int (nat p) \<in> set primes" "int (nat q) \<in> set primes" using mem ge by simp_all
  ultimately show ?thesis using P(1,2) de lt k by blast
qed

lemma map_res_total: "(\<And>x. x \<in> set xs \<Longrightarrow> f x = Inr (g x)) \<Longrightarrow> map_res f xs = Inr (map g xs)"
  by (induction xs) auto

lemma words_at:
  "i < length ws \<Longrightarrow> take 8 (drop (8 * i) (concat (map (\<lambda>w. le_enc 8 (unat (w :: u64))) ws))) = le_enc 8 (unat (ws ! i))"
proof (induction ws arbitrary: i)
  case (Cons w ws)
  then show ?case by (cases i) simp_all
qed simp

lemma length_words: "length (concat (map (\<lambda>w. le_enc 8 (unat (w :: u64))) ws)) = 8 * length ws"
  by (induction ws) simp_all

definition rsa_code :: "rsa_key \<Rightarrow> byte \<Rightarrow> u64" where
  "rsa_code pub b = word_of_nat (unat b ^ unat (exponent pub) mod unat (modulus pub))"

lemma rsa_byte:
  assumes key: "is_prime p" "is_prime q" "p \<noteq> q" "257 * d = 1 + j * ((p - 1) * (q - 1))" "0 < d" "d < 2 ^ 64"
    and n: "256 \<le> p * q" "p * q \<le> 2 ^ 32"
    and pub: "modulus pub = word_of_nat (p * q)" "exponent pub = 257"
    and priv: "modulus priv = word_of_nat (p * q)" "exponent priv = word_of_nat d"
  shows "rsa_modExp (ucast b) (exponent pub) (modulus pub) = Inr (rsa_code pub b)"
    and "\<exists>r. rsa_modExp (rsa_code pub b) (exponent priv) (modulus priv) = Inr r \<and> ucast r = b"
proof -
  let ?n = "p * q" and ?m = "word_of_nat (p * q) :: u64"
  have m: "unat ?m = ?n" using n(2) by (intro unat_of_nat_u64) simp
  have m0: "?m \<noteq> 0" using m n(1) by (metis unat_0 not_numeral_le_zero)
  have m1: "unat ?m \<le> 2 ^ 32" using n(2) by (simp only: m)
  have e: "unat (exponent pub) = 257" "exponent pub \<noteq> 0" by (simp_all add: pub)
  have b: "unat (ucast b :: u64) = unat b"
  proof -
    have "unat b < 256" using unsigned_less [of b] by simp
    then show ?thesis by (simp add: unsigned_ucast_eq take_bit_eq_mod)
  qed
  obtain c where c: "rsa_modExp (ucast b) (exponent pub) ?m = Inr c" "unat c = unat b ^ 257 mod ?n"
    using rsa_modExp_power [OF m0 m1, of "ucast b" "exponent pub"] e b m by auto
  have "rsa_code pub b = c"
    unfolding rsa_code_def e pub(1) m c(2) [symmetric] by simp
  then show "rsa_modExp (ucast b) (exponent pub) (modulus pub) = Inr (rsa_code pub b)"
    using c(1) pub by simp
  have d: "unat (word_of_nat d :: u64) = d" using key(6) by (rule unat_of_nat_u64)
  then have d0: "(word_of_nat d :: u64) \<noteq> 0" using key(5) by (auto simp: unat_eq_zero [symmetric])
  obtain r where r: "rsa_modExp c (word_of_nat d) ?m = Inr r" "unat r = unat c ^ d mod ?n"
    using rsa_modExp_power [OF m0 m1, of c "word_of_nat d"] d d0 m by auto
  have lt: "unat b < 256" using unsigned_less [of b] by simp
  have "unat r = unat b ^ (257 * d) mod ?n" unfolding r(2) c(2) by (simp only: power_mod power_mult)
  also have "\<dots> = unat b"
    unfolding key(4) using lt n(1) by (intro rsa_identity [OF key(1,2,3)]) simp
  finally have "unat r = unat b" .
  then have "ucast r = b" using lt by (simp add: word_unat_eq_iff unsigned_ucast_eq take_bit_eq_mod)
  then show "\<exists>r. rsa_modExp (rsa_code pub b) (exponent priv) (modulus priv) = Inr r \<and> ucast r = b"
    using r(1) priv \<open>rsa_code pub b = c\<close> by simp
qed

lemma rsa_inverse:
  assumes "rsa_gen_keys primes draws = Some (pub, priv)" "primes \<noteq> []"
    and "\<forall>p \<in> set primes. is_prime (nat p) \<and> 16 < p \<and> p \<le> 2 ^ 16"
  shows "\<exists>c. rsa_encrypt m pub = Inr c \<and> length c = length m
    \<and> rsa_decrypt (concat (map (\<lambda>w. le_enc 8 (unat w)) c)) priv = Inr (Some m)"
proof -
  obtain p q d j where key: "is_prime p" "is_prime q" "p \<noteq> q" "257 * d = 1 + j * ((p - 1) * (q - 1))" "0 < d" "d < 2 ^ 64"
    and mem: "int p \<in> set primes" "int q \<in> set primes"
    and pub: "modulus pub = word_of_nat (p * q)" "exponent pub = 257"
    and priv: "modulus priv = word_of_nat (p * q)" "exponent priv = word_of_nat d"
    using rsa_key_sound [OF assms(1,2)] assms(3) by fastforce
  have pq: "16 < p" "p \<le> 2 ^ 16" "16 < q" "q \<le> 2 ^ 16" using assms(3) mem by auto
  have "17 * 17 \<le> p * q" using pq by (intro mult_le_mono) simp_all
  moreover have "p * q \<le> 2 ^ 16 * 2 ^ 16" using pq by (intro mult_le_mono) simp_all
  ultimately have n: "256 \<le> p * q" "p * q \<le> 2 ^ 32" by simp_all
  note one = rsa_byte [OF key n pub priv]
  let ?c = "map (rsa_code pub) (m)"
  let ?bytes = "concat (map (\<lambda>w. le_enc 8 (unat w)) ?c)"
  have enc: "rsa_encrypt m pub = Inr ?c"
    using map_res_total [of "m" "\<lambda>b. rsa_modExp (ucast b) (exponent pub) (modulus pub)" "rsa_code pub"] one(1)
    by (simp add: rsa_encrypt_def)
  define r where "r b = (SOME r. rsa_modExp (rsa_code pub b) (exponent priv) (modulus priv) = Inr r \<and> ucast r = b)" for b
  have r: "rsa_modExp (rsa_code pub b) (exponent priv) (modulus priv) = Inr (r b)" "ucast (r b) = b" for b
    unfolding r_def using someI_ex [OF one(2) [of b]] by auto
  let ?f = "\<lambda>i. rsa_modExp (word_of_nat (le_dec (take 8 (drop (8 * i) ?bytes)))) (exponent priv) (modulus priv)"
  have "?f i = Inr (r (m ! i))" if "i < length (m)" for i
    using words_at [of i ?c] that r(1) by simp
  then have "map_res ?f [0 ..< length (m)] = Inr (map (\<lambda>i. r (m ! i)) [0 ..< length (m)])"
    by (intro map_res_total) simp
  moreover have "map ucast (map (\<lambda>i. r (m ! i)) [0 ..< length (m)]) = m"
    using r(2) by (simp add: comp_def map_nth)
  ultimately have "rsa_decrypt ?bytes priv = Inr (Some (m))"
    by (simp only: rsa_decrypt_def length_words length_map) simp
  then show ?thesis using enc by auto
qed

text \<open>
  C21. RSA round trip: for keys generated, by whatever draws, from primes between 17 and \<open>2 ^ 16\<close>, decrypting
  an encrypted string gives it back, eight bytes of cipher text for each byte. The key search ends with a
  positive inverse of the exponent, so the decryption exponent fits its field.
\<close>

theorem rsa_round_trip:
  assumes "rsa_gen_keys primes draws = Some (pub, priv)" "primes \<noteq> []"
    and "\<forall>p \<in> set primes. is_prime (nat p) \<and> 16 < p \<and> p \<le> 2 ^ 16"
  shows "\<exists>c. EncryptRSARawMsg rd pub = Inr c \<and> length (rdata c) = 8 * length (rdata rd)
    \<and> DecryptRSARawMsg c priv = Inr rd"
proof -
  obtain c where "rsa_encrypt (rdata rd) pub = Inr c" "length c = length (rdata rd)"
    "rsa_decrypt (concat (map (\<lambda>w. le_enc 8 (unat w)) c)) priv = Inr (Some (rdata rd))"
    using rsa_inverse [OF assms] by blast
  then show ?thesis by (simp add: EncryptRSARawMsg_def DecryptRSARawMsg_def length_words)
qed

lemma lift_pos_nonneg [simp]: "0 \<le> d \<Longrightarrow> lift_pos d phi = Some d"
  by (simp add: lift_pos.simps)

theorem rsa_round_trip_witness:
  "\<exists>pub priv c. rsa_gen_keys [17, 19] [(0, 0), (0, 1)] = Some (pub, priv)
    \<and> EncryptRSARawMsg ((new_raw_data 1 [])\<lparr>rdata := [7, 255]\<rparr>) pub = Inr c
    \<and> DecryptRSARawMsg c priv = Inr ((new_raw_data 1 [])\<lparr>rdata := [7, 255]\<rparr>)"
proof -
  have "is_prime 17" "is_prime 19" by code_simp+
  then have pr: "\<forall>p \<in> set [17, 19 :: int]. is_prime (nat p) \<and> 16 < p \<and> p \<le> 2 ^ 16" by simp
  have "gcd_c (16 * 18) 257 = 1" "ExtEuclid (16 * 18) 257 = 65" by code_simp+
  then have "rsa_gen_keys [17, 19] [(0, 0), (0, 1)] \<noteq> None"
    by (simp add: rsa_gen_keys_def prime_at_def Let_def lift_pos.simps)
  then obtain pub priv where "rsa_gen_keys [17, 19] [(0, 0), (0, 1)] = Some (pub, priv)" by auto
  with rsa_round_trip [OF this _ pr, of "(new_raw_data 1 [])\<lparr>rdata := [7, 255]\<rparr>"] show ?thesis by auto
qed


end
