(* ===== verification/Rng.thy ===== *)
theory Rng
  imports Prelude
begin

text \<open>
  The generators of \<^theory_text>\<open>src/include/rng.hpp\<close>, from which packets, requests, client identifiers and keys draw
  their 64-bit numbers. A call returns the value and the new state.
\<close>

definition rotl :: "u64 \<Rightarrow> nat \<Rightarrow> u64" where
  "rotl x k = push_bit k x OR drop_bit (64 - k) x"

definition mix64 :: "u64 \<Rightarrow> u64" where
  "mix64 z =
     (let z = (z XOR drop_bit 30 z) * 0xBF58476D1CE4E5B9;
          z = (z XOR drop_bit 27 z) * 0x94D049BB133111EB
      in z XOR drop_bit 31 z)"

definition rng64 :: "u64 \<Rightarrow> u64 \<times> u64" where
  "rng64 state = (let state = state + 0x9E3779B97F4A7C15 in (mix64 state, state))"

definition rng128_seed :: "u64 \<Rightarrow> u64 \<times> u64" where
  "rng128_seed seed =
     (let (a, seeder) = rng64 seed; (b, seeder) = rng64 seeder in (a, b))"

definition rng128 :: "u64 \<times> u64 \<Rightarrow> u64 \<times> (u64 \<times> u64)" where
  "rng128 state =
     (let (s0, s1) = state; val = s0 + s1; s1 = s1 XOR s0
      in (val, (rotl s0 55 XOR s1 XOR push_bit 14 s1, rotl s1 36)))"

definition jump_step :: "u64 \<Rightarrow> (u64 \<times> u64) \<times> (u64 \<times> u64) \<Rightarrow> nat \<Rightarrow> (u64 \<times> u64) \<times> (u64 \<times> u64)" where
  "jump_step j acc b =
     (let ((s0, s1), state) = acc;
          s = (if j AND push_bit b 1 \<noteq> 0 then (s0 XOR fst state, s1 XOR snd state) else (s0, s1))
      in (s, snd (rng128 state)))"

definition jump :: "u64 \<times> u64 \<Rightarrow> u64 \<times> u64" where
  "jump state =
     fst (foldl (\<lambda>acc j. foldl (jump_step j) acc [0 ..< 64]) ((0, 0), state) [0xbeac0467eba5facb, 0xd86b048b86aa9922])"

fun rng64_calls :: "nat \<Rightarrow> u64 \<Rightarrow> u64 list" where
  "rng64_calls 0 state = []"
| "rng64_calls (Suc n) state = (let (v, state) = rng64 state in v # rng64_calls n state)"

section \<open>The numbers drawn are distinct\<close>

lemma xorshift_inj:
  fixes x y :: u64
  assumes eq: "x XOR drop_bit k x = y XOR drop_bit k y" and k: "0 < k"
  shows "x = y"
proof -
  have "bit x n = bit y n" for n
  proof (induction "64 - n" arbitrary: n rule: less_induct)
    case less
    show ?case
    proof (cases "n < 64")
      case True
      then have "bit x (k + n) = bit y (k + n)" using less [of "k + n"] k by simp
      moreover have "bit (x XOR drop_bit k x) n = bit (y XOR drop_bit k y) n" using eq by simp
      ultimately show ?thesis by (auto simp: bit_xor_iff bit_drop_bit_eq)
    next
      case False
      then show ?thesis using bit_imp_le_length [of x n] bit_imp_le_length [of y n] by auto
    qed
  qed
  then show ?thesis by (simp add: bit_eq_iff)
qed

lemma mult_inj:
  fixes x y c d :: u64
  assumes "c * d = 1" "x * c = y * c"
  shows "x = y"
proof -
  have "x * (c * d) = y * (c * d)" by (simp only: mult.assoc [symmetric] assms(2))
  then show ?thesis by (simp add: assms(1))
qed

lemma inverses:
  "0xBF58476D1CE4E5B9 * 0x96de1b173f119089 = (1 :: u64)"
  "0x94D049BB133111EB * 0x319642b2d24d8ec3 = (1 :: u64)"
  "0x9E3779B97F4A7C15 * 0xf1de83e19937733d = (1 :: u64)"
  by simp_all

lemma mix64_inj:
  assumes "mix64 x = mix64 y"
  shows "x = y"
proof -
  let ?f = "\<lambda>z. (z XOR drop_bit 30 z) * 0xBF58476D1CE4E5B9 :: u64"
  let ?g = "\<lambda>z. (z XOR drop_bit 27 z) * 0x94D049BB133111EB :: u64"
  have "?g (?f x) = ?g (?f y)"
    by (rule xorshift_inj [where k = 31]) (use assms in \<open>simp_all add: mix64_def Let_def\<close>)
  then have "?f x XOR drop_bit 27 (?f x) = ?f y XOR drop_bit 27 (?f y)"
    by (rule mult_inj [OF inverses(2)])
  then have "?f x = ?f y" by (rule xorshift_inj) simp
  then have "x XOR drop_bit 30 x = y XOR drop_bit 30 y"
    by (rule mult_inj [OF inverses(1)])
  then show ?thesis by (rule xorshift_inj) simp
qed

lemma rng64_calls_nth:
  "i < n \<Longrightarrow> rng64_calls n s ! i = mix64 (s + word_of_nat (Suc i) * 0x9E3779B97F4A7C15)"
proof (induction n arbitrary: i s)
  case (Suc n)
  then show ?case by (cases i) (simp_all add: rng64_def Let_def algebra_simps)
qed simp

lemma length_rng64_calls [simp]: "length (rng64_calls n s) = n"
  by (induction n arbitrary: s) (simp_all add: split_def Let_def)

text \<open>
  C39. The generator does not repeat itself: any \<open>2 ^ 64\<close> consecutive draws are pairwise distinct, so two packets,
  requests or clients numbered from one generator never share an identifier within its period.
\<close>

theorem rng64_distinct:
  assumes "n \<le> 2 ^ 64"
  shows "distinct (rng64_calls n s)"
proof (rule ccontr)
  assume "\<not> distinct (rng64_calls n s)"
  then obtain i j where ij: "i < n" "j < n" "i \<noteq> j" "rng64_calls n s ! i = rng64_calls n s ! j"
    by (auto simp: distinct_conv_nth)
  have "s + word_of_nat (Suc i) * 0x9E3779B97F4A7C15 = s + word_of_nat (Suc j) * (0x9E3779B97F4A7C15 :: u64)"
    by (rule mix64_inj) (use ij in \<open>simp only: rng64_calls_nth\<close>)
  then have "word_of_nat (Suc i) = (word_of_nat (Suc j) :: u64)"
    by (rule mult_inj [OF inverses(3) add_left_imp_eq])
  then have "word_of_nat i = (word_of_nat j :: u64)" by simp
  moreover have "unat (word_of_nat i :: u64) = i" "unat (word_of_nat j :: u64) = j"
    using ij assms by (auto intro!: unat_of_nat_u64)
  ultimately show False using ij(3) by metis
qed

theorem rng64_distinct_witness: "distinct (rng64_calls 1000 1)"
  using rng64_distinct [of 1000 1] by simp

end
