(* ===== verification/SquareServer.thy ===== *)
theory SquareServer
  imports NetBoxes Posts Rsa Rng
begin

text \<open>
  The server behind the transport in \<^theory_text>\<open>src/src/server.cpp\<close>: tagged strings become packets, packets become
  requests, requests are answered, and the packets to send become datagrams. Every daemon holds its mutexes for
  its whole loop, so an activation is one step on the state. Pointers to a \<open>client_register\<close> that several
  tables share are copies here; the shared object is only written again by \<open>MakeIV\<close>, which depends on its key.

  Parameters, because their code is not part of the repository or is vendored: \<open>inet_addr\<close>, the MD5 function,
  the memory image of a public key (\<^theory_text>\<open>rsa.h\<close>), the members that the JSON parser finds in a document (a
  missing member is an assertion failure, a fault), and the statements on the table \<open>register_info\<close>.
\<close>

record client_register =
  c_id :: u64
  c_key :: aes_key256
  c_name :: string
  c_tag :: string
  c_click :: u32
  c_passwd :: u64
  c_addr :: addr

record reg_row =
  row_name :: string
  row_tag :: string
  row_client_id :: u64
  row_key :: "u64 list"
  row_ip :: string
  row_udp :: int
  row_tcp :: int
  row_passwd :: u64
  row_status :: int

record reg_doc =
  j_key :: "int list"
  j_name :: string
  j_tag :: string
  j_port :: int
  j_ip :: string

record 'db db_ops =
  db_insert :: "reg_row \<Rightarrow> 'db \<Rightarrow> 'db"
  db_select :: "string \<Rightarrow> 'db \<Rightarrow> reg_row option"
  db_status :: "int \<Rightarrow> u64 \<Rightarrow> 'db \<Rightarrow> 'db"

record 'db env = "'db db_ops" +
  env_inet_addr :: "string \<Rightarrow> u32"
  env_md5 :: "byte list \<Rightarrow> string"
  env_key_image :: "rsa_key \<Rightarrow> byte list"
  env_register :: "string \<Rightarrow> reg_doc res"
  env_login :: "string \<Rightarrow> (int \<times> int) res"

record 'db square = server +
  packets_in :: "packet list"
  packets_out :: "packet list"
  req_list :: "request list"
  client_lst :: "(u64 \<times> client_register) list"
  rids :: "(u64 \<times> client_register) list"
  timers :: "client_register list"
  database :: 'db
  rand_state :: u64
  pkc :: rsa_key
  prc :: rsa_key

definition on_server :: "(server \<Rightarrow> server res) \<Rightarrow> 'db square \<Rightarrow> 'db square res" where
  "on_server f s = bind_res (f \<lparr>boxls = boxls s, rawdata_in = rawdata_in s\<rparr>) (\<lambda>t.
     Inr (s\<lparr>boxls := boxls t, rawdata_in := rawdata_in t\<rparr>))"

section \<open>Tagged strings to packets\<close>

definition packet_of_raw :: "rsa_key \<Rightarrow> raw_data \<Rightarrow> packet list res" where
  "packet_of_raw priv rd =
     (if rinfo rd = bytes_of ''SPKT'' then
        bind_res (Rawdata2Packet (new_packet 0 zero_sockaddr) rd) (\<lambda>p. Inr [p\<lparr>paddress := raddress rd\<rparr>])
      else if rinfo rd = bytes_of ''RPKT'' then
        bind_res (DecryptRSARawMsg rd priv) (\<lambda>rd.
        bind_res (Rawdata2Packet ((new_packet 0 zero_sockaddr)\<lparr>pif_encrypt := True\<rparr>) rd) (\<lambda>p.
          Inr [p\<lparr>paddress := raddress rd\<rparr>]))
      else Inr [])"

text \<open>The loops take at most \<open>prm\<close> elements; the rest stays in the list.\<close>

fun raw_loop :: "rsa_key \<Rightarrow> nat \<Rightarrow> raw_data list \<Rightarrow> (packet list \<times> raw_data list) res" where
  "raw_loop priv prm [] = Inr ([], [])"
| "raw_loop priv 0 (rd # rds) = Inr ([], rd # rds)"
| "raw_loop priv (Suc prm) (rd # rds) =
     bind_res (packet_of_raw priv rd) (\<lambda>ps.
     bind_res (raw_loop priv prm rds) (\<lambda>(qs, rest). Inr (ps @ qs, rest)))"

definition ProcessRawData :: "'db square \<Rightarrow> 'db square res" where
  "ProcessRawData s =
     bind_res (raw_loop (prc s) 2048 (rawdata_in s)) (\<lambda>(ps, rest).
       Inr (s\<lparr>rawdata_in := rest, packets_in := packets_in s @ ps\<rparr>))"

section \<open>Packets to requests\<close>

text \<open>A post is decrypted and checked for a registered client; its content is then dropped.\<close>

definition process_packet :: "'db env \<Rightarrow> packet \<Rightarrow> 'db square \<Rightarrow> 'db square res" where
  "process_packet E pkt s =
     (if ptype pkt = REQUSET_TYPE then
        let (r, rs) = rng64 (rand_state s) in
        bind_res (Packet2Request pkt (new_request r)) (\<lambda>req.
          Inr (s\<lparr>req_list := req_list s @ [req\<lparr>q_addr := SetSockAddr (paddress pkt) (q_addr req)\<rparr>], rand_state := rs\<rparr>))
      else if ptype pkt = ENCRYPT_POST_TYPE then
        bind_res (GetPostInfo pkt new_post) (\<lambda>pst.
        case map_of (client_lst s) (client_id pst) of
          None \<Rightarrow> Inr s
        | Some c \<Rightarrow> bind_res (Packet2Post (env_md5 E) pkt pst (c_key c)) (\<lambda>_. Inr s))
      else Inr s)"

fun packet_loop :: "'db env \<Rightarrow> nat \<Rightarrow> packet list \<Rightarrow> 'db square \<Rightarrow> ('db square \<times> packet list) res" where
  "packet_loop E prm [] s = Inr (s, [])"
| "packet_loop E 0 (p # ps) s = Inr (s, p # ps)"
| "packet_loop E (Suc prm) (p # ps) s = bind_res (process_packet E p s) (packet_loop E prm ps)"

definition ProcessPacket :: "'db env \<Rightarrow> 'db square \<Rightarrow> 'db square res" where
  "ProcessPacket E s =
     bind_res (packet_loop E 2048 (packets_in s) s) (\<lambda>(s, rest). Inr (s\<lparr>packets_in := rest\<rparr>))"

section \<open>Answering requests\<close>

definition respond_packet :: "request \<Rightarrow> string \<Rightarrow> byte list \<Rightarrow> packet res" where
  "respond_packet preq ty buff =
     bind_res (SetBuff buff (length buff) (new_respond\<lparr>s_id := q_id preq\<rparr>)) (\<lambda>pnr.
     Respond2Packet (new_packet 0 zero_sockaddr)
       (pnr\<lparr>s_type := ty, s_addr := SetPort (int (unat (recv_port preq))) (q_addr preq)\<rparr>))"

definition send_respond :: "request \<Rightarrow> string \<Rightarrow> byte list \<Rightarrow> 'db square \<Rightarrow> 'db square res" where
  "send_respond preq ty buff s =
     bind_res (respond_packet preq ty buff) (\<lambda>p. Inr (s\<lparr>packets_out := packets_out s @ [p]\<rparr>))"

definition status_ok :: "byte list" where
  "status_ok = bytes_of (''{'' @ [CHR 0x22] @ ''status'' @ [CHR 0x22] @ '':'' @ [CHR 0x22] @ ''ok'' @ [CHR 0x22] @ ''}'')"

definition new_key :: "u64 \<Rightarrow> aes_key256 \<times> u64" where
  "new_key rs = (\<lparr>key = rng64_calls 4 rs, iv = []\<rparr>, rs + 4 * 0x9E3779B97F4A7C15)"

text \<open>\<open>pkey[idx++] = kitem.GetInt()\<close> writes through the 32 bytes of the key with no bound on \<open>idx\<close>.\<close>

definition store_key :: "int list \<Rightarrow> aes_key256 \<Rightarrow> aes_key256 res" where
  "store_key ks k =
     (if 32 < length ks then Inl OutOfBounds
      else let bs = map word_of_int ks @ drop (length ks) (GetKey k)
        in Inr (k\<lparr>key := map (\<lambda>i. word_of_nat (le_dec (take 8 (drop (8 * i) bs)))) [0 ..< 4]\<rparr>))"

definition register_client :: "'db env \<Rightarrow> request \<Rightarrow> 'db square \<Rightarrow> 'db square res" where
  "register_client E preq s =
     (let (k, rs) = new_key (rand_state s); (cid, rs) = rng64 rs in
      bind_res (env_register E (c_str (q_data preq))) (\<lambda>jdoc.
      bind_res (store_key (j_key jdoc) k) (\<lambda>k.
      let (pw, rs) = rng64 rs;
          port = j_port jdoc; ip = c_str (j_ip jdoc);
          pclr = \<lparr>c_id = cid, c_key = k, c_name = c_str (j_name jdoc), c_tag = c_str (j_tag jdoc), c_click = 99999,
                  c_passwd = pw, c_addr = SetPort port (SetIP (env_inet_addr E) ip (q_addr preq))\<rparr>;
          row = \<lparr>row_name = c_name pclr, row_tag = c_tag pclr, row_client_id = cid, row_key = key k, row_ip = ip,
                 row_udp = to_int32 (int (unat (recv_port preq))), row_tcp = port, row_passwd = pw, row_status = 0\<rparr>
      in Inr (s\<lparr>client_lst := map_insert cid pclr (client_lst s), timers := timers s @ [pclr],
           rids := map_insert (q_id preq) pclr (rids s), database := db_insert E row (database s), rand_state := rs\<rparr>))))"

definition client_login :: "'db env \<Rightarrow> request \<Rightarrow> 'db square \<Rightarrow> 'db square res" where
  "client_login E preq s =
     (let (k, rs) = new_key (rand_state s) in
      bind_res (env_login E (c_str (q_data preq))) (\<lambda>(lid, lpw).
      let cid = word_of_int lid; s = s\<lparr>rand_state := rs\<rparr> in
      case db_select E (show_nat (unat cid)) (database s) of
        None \<Rightarrow> Inr s
      | Some row \<Rightarrow>
          if row_passwd row = word_of_int lpw then
            let s = (if row_status row = 0 then
                  let pclr = \<lparr>c_id = cid, c_key = k\<lparr>key := row_key row\<rparr>, c_name = row_name row, c_tag = row_tag row,
                        c_click = 0, c_passwd = row_passwd row,
                        c_addr = SetPort (row_tcp row) (SetIP (env_inet_addr E) (row_ip row) Addr_empty)\<rparr>
                  in s\<lparr>timers := timers s @ [pclr], rids := map_insert (q_id preq) pclr (rids s),
                       database := db_status E 1 cid (database s)\<rparr>
                else s)
            in send_respond preq ''register respond'' status_ok s
          else Inr s))"

definition process_request :: "'db env \<Rightarrow> request \<Rightarrow> 'db square \<Rightarrow> 'db square res" where
  "process_request E preq s =
     (if q_type preq = ''public request'' then
        (if q_data preq = ''request for public key''
         then send_respond preq ''square public key'' (env_key_image E (pkc s)) s else Inr s)
      else if q_type preq = ''private request'' then
        bind_res (case map_of (rids s) (q_id preq) of Some _ \<Rightarrow> Inr s | None \<Rightarrow> register_client E preq s)
          (send_respond preq ''register respond'' status_ok)
      else if q_type preq = ''client login'' then client_login E preq s
      else Inr s)"

fun request_loop :: "'db env \<Rightarrow> nat \<Rightarrow> request list \<Rightarrow> 'db square \<Rightarrow> ('db square \<times> request list) res" where
  "request_loop E prm [] s = Inr (s, [])"
| "request_loop E 0 (q # qs) s = Inr (s, q # qs)"
| "request_loop E (Suc prm) (q # qs) s = bind_res (process_request E q s) (request_loop E prm qs)"

definition ProcessRequset :: "'db env \<Rightarrow> 'db square \<Rightarrow> 'db square res" where
  "ProcessRequset E s =
     bind_res (request_loop E 2048 (req_list s) s) (\<lambda>(s, rest). Inr (s\<lparr>req_list := rest\<rparr>))"

section \<open>Sending\<close>

text \<open>The datagrams of a packet with the address they go to; the tags of \<open>nrwd\<close> are overwritten.\<close>

definition send_packet :: "u64 \<Rightarrow> packet \<Rightarrow> (sockaddr_in \<times> byte list list) res" where
  "send_packet rid p =
     bind_res (Packet2Rawdata p (new_raw_data rid [])) (\<lambda>nrwd.
     bind_res (SignedRawdata nrwd ''SPKT'') (\<lambda>nrwd.
     bind_res (SentRawdata nrwd) (\<lambda>dgs. Inr (paddress p, dgs))))"

fun send_loop :: "nat \<Rightarrow> packet list \<Rightarrow> u64 \<Rightarrow> ((sockaddr_in \<times> byte list list) list \<times> packet list \<times> u64) res" where
  "send_loop prm [] rs = Inr ([], [], rs)"
| "send_loop 0 (p # ps) rs = Inr ([], p # ps, rs)"
| "send_loop (Suc prm) (p # ps) rs =
     (let (rid, rs) = rng64 rs in
      bind_res (send_packet rid p) (\<lambda>d.
      bind_res (send_loop prm ps rs) (\<lambda>(ds, rest, rs). Inr (d # ds, rest, rs))))"

definition ProcessSendPackets :: "'db square \<Rightarrow> ('db square \<times> (sockaddr_in \<times> byte list list) list) res" where
  "ProcessSendPackets s =
     bind_res (send_loop 512 (packets_out s) (rand_state s)) (\<lambda>(ds, rest, rs).
       Inr (s\<lparr>packets_out := rest, rand_state := rs\<rparr>, ds))"

end
