(* ===== verification/Client.thy ===== *)
theory Client
  imports NetBoxes Requests Rsa Rng "HOL-Library.Multiset"
begin

text \<open>
  The client of \<^theory_text>\<open>src/src/client.cpp\<close>: building and sending requests, receiving responds, and the round
  that matches responds with waiting requests, sends requests again and times them out. A callback is an entry of
  the event list: the caller's argument, and the respond or nothing. What is sent is a list of datagrams with the
  address they go to.
\<close>

record request_listener =
  p_req :: request
  timeout :: u32
  lclicks :: u32
  trwd :: raw_data
  active :: bool
  cb_args :: nat

type_synonym event = "nat \<times> respond option"
type_synonym sending = "sockaddr_in \<times> byte list list"

record client =
  req_lst :: "request_listener list"
  res_lst :: "respond list"
  listen_port :: u16
  sqe_pbc :: rsa_key

definition SetPublicKey :: "rsa_key \<Rightarrow> client \<Rightarrow> client" where
  "SetPublicKey t_pbc c = c\<lparr>sqe_pbc := t_pbc\<rparr>"

definition NewRequest ::
  "(string \<Rightarrow> u32) \<Rightarrow> u64 \<Rightarrow> string \<Rightarrow> int \<Rightarrow> string \<Rightarrow> string \<Rightarrow> bool \<Rightarrow> client \<Rightarrow> request" where
  "NewRequest inet_addr rnd send_ip send_port ty da if_encrypt c =
     \<lparr>q_id = rnd, q_type = ty, q_data = da, recv_port = ucast (listen_port c), q_encrypt = if_encrypt,
      q_addr = SetPort send_port (SetIP inet_addr send_ip Addr_empty)\<rparr>"

definition request_raw :: "rsa_key \<Rightarrow> u64 \<Rightarrow> request \<Rightarrow> raw_data res" where
  "request_raw pbc rnd preq =
     bind_res (Request2Packet (new_packet 0 zero_sockaddr) preq) (\<lambda>npkt.
     bind_res (Packet2Rawdata npkt (new_raw_data rnd [])) (\<lambda>rd.
     if q_encrypt preq then bind_res (EncryptRSARawMsg rd pbc) (\<lambda>rd. SignedRawdata rd ''RPKT'')
     else SignedRawdata rd ''SPKT''))"

text \<open>\<open>timeout\<close> is an \<open>int\<close> stored in a \<open>uint32_t\<close>; \<open>Client::SendRawData\<close> is \<open>SentRawdata\<close> of \<open>NetBoxes\<close>.\<close>

definition NewRequestListener :: "u64 \<Rightarrow> request \<Rightarrow> int \<Rightarrow> nat \<Rightarrow> client \<Rightarrow> (client \<times> sending) res" where
  "NewRequestListener rnd preq tmo args c =
     bind_res (request_raw (sqe_pbc c) rnd preq) (\<lambda>rd.
     bind_res (SentRawdata rd) (\<lambda>dgs.
     Inr (c\<lparr>req_lst := req_lst c @ [\<lparr>p_req = preq, timeout = word_of_int tmo, lclicks = 0, trwd = rd,
            active = True, cb_args = args\<rparr>]\<rparr>, (address (q_addr preq), dgs))))"

section \<open>Responds\<close>

definition receive_respond :: "raw_data \<Rightarrow> respond \<Rightarrow> byte list \<Rightarrow> client \<Rightarrow> client res" where
  "receive_respond fresh blank str c =
     bind_res (CheckRawMsg str) (\<lambda>ok. if \<not> ok then Inr c else
     bind_res (ProcessSignedRawMsg str fresh) (\<lambda>rd.
     if rinfo rd = bytes_of ''SPKT'' then
       bind_res (Rawdata2Packet (new_packet 0 zero_sockaddr) rd) (\<lambda>npkt.
       if ptype npkt = RESPOND_TYPE then
         bind_res (Packet2Respond npkt blank) (\<lambda>res. Inr (c\<lparr>res_lst := res_lst c @ [res]\<rparr>))
       else Inr c)
     else Inr c))"

fun receive_responds :: "raw_data \<Rightarrow> respond \<Rightarrow> byte list list \<Rightarrow> client \<Rightarrow> client res" where
  "receive_responds fresh blank [] c = Inr c"
| "receive_responds fresh blank (str # strs) c =
     bind_res (receive_respond fresh blank str c) (receive_responds fresh blank strs)"

text \<open>One activation reads at most 513 datagrams.\<close>

definition clientRespondDeamon :: "raw_data \<Rightarrow> respond \<Rightarrow> byte list list \<Rightarrow> client \<Rightarrow> client res" where
  "clientRespondDeamon fresh blank pending c = receive_responds fresh blank (take 513 pending) c"

section \<open>The round of the waiting requests\<close>

fun match_respond :: "respond \<Rightarrow> request_listener list \<Rightarrow> request_listener list \<times> event list" where
  "match_respond pres [] = ([], [])"
| "match_respond pres (l # ls) =
     (let (ls', es) = match_respond pres ls in
      if active l \<and> q_id (p_req l) = s_id pres then (l\<lparr>active := False\<rparr> # ls', (cb_args l, Some pres) # es)
      else (l # ls', es))"

fun match_responds :: "respond list \<Rightarrow> request_listener list \<Rightarrow> request_listener list \<times> event list" where
  "match_responds [] ls = (ls, [])"
| "match_responds (r # rs) ls =
     (let (ls, es) = match_respond r ls; (ls, es') = match_responds rs ls in (ls, es @ es'))"

text \<open>The timeout branch deletes the listener and then writes its member \<open>active\<close>.\<close>

definition tick_listener :: "request_listener \<Rightarrow> (request_listener \<times> sending list) res" where
  "tick_listener l =
     (if \<not> active l then Inr (l, [])
      else if lclicks l < timeout l then
        let l = l\<lparr>lclicks := lclicks l + 1\<rparr> in
        if lclicks l mod 2 = 0 then
          bind_res (SentRawdata (trwd l)) (\<lambda>dgs. Inr (l, [(address (q_addr (p_req l)), dgs)]))
        else Inr (l, [])
      else Inl UseAfterFree)"

fun tick_listeners :: "request_listener list \<Rightarrow> (request_listener list \<times> sending list) res" where
  "tick_listeners [] = Inr ([], [])"
| "tick_listeners (l # ls) =
     bind_res (tick_listener l) (\<lambda>(l, out).
     bind_res (tick_listeners ls) (\<lambda>(ls, outs). Inr (l # ls, out @ outs)))"

definition ProcessRequestListener :: "client \<Rightarrow> (client \<times> event list \<times> sending list) res" where
  "ProcessRequestListener c =
     (let (ls, es) = match_responds (res_lst c) (req_lst c) in
      bind_res (tick_listeners ls) (\<lambda>(ls, outs).
        Inr (c\<lparr>res_lst := [], req_lst := filter active ls\<rparr>, es, outs)))"

section \<open>Every request is answered at most once\<close>

definition answered :: "respond list \<Rightarrow> request_listener \<Rightarrow> bool" where
  "answered rs l \<longleftrightarrow> active l \<and> (\<exists>r \<in> set rs. s_id r = q_id (p_req l))"

definition answer :: "respond list \<Rightarrow> request_listener \<Rightarrow> event" where
  "answer rs l = (cb_args l, find (\<lambda>r. s_id r = q_id (p_req l)) rs)"

definition settle :: "respond list \<Rightarrow> request_listener \<Rightarrow> request_listener" where
  "settle rs l = (if answered rs l then l\<lparr>active := False\<rparr> else l)"

lemma match_respond_map:
  "match_respond r ls = (map (settle [r]) ls, map (answer [r]) (filter (answered [r]) ls))"
  by (induction ls) (auto simp: settle_def answered_def answer_def Let_def)

lemma match_responds_spec:
  "match_responds rs ls = (ls', es) \<Longrightarrow>
   ls' = map (settle rs) ls \<and> mset es = mset (map (answer rs) (filter (answered rs) ls))"
proof (induction rs arbitrary: ls ls' es)
  case Nil
  then show ?case by (simp add: settle_def answered_def map_idI)
next
  case (Cons r rs)
  let ?ls1 = "map (settle [r]) ls"
  obtain es' where es': "match_responds rs ?ls1 = (ls', es')"
    "es = map (answer [r]) (filter (answered [r]) ls) @ es'"
    using Cons.prems by (auto simp: match_respond_map split: prod.splits)
  have ih: "ls' = map (settle rs) ?ls1" "mset es' = mset (map (answer rs) (filter (answered rs) ?ls1))"
    using Cons.IH [OF es'(1)] by auto
  have "settle rs (settle [r] l) = settle (r # rs) l" for l
    by (auto simp: settle_def answered_def)
  moreover have "mset (map (answer [r]) (filter (answered [r]) ls)) + mset (map (answer rs) (filter (answered rs) ?ls1))
      = mset (map (answer (r # rs)) (filter (answered (r # rs)) ls))"
    by (induction ls) (auto simp: settle_def answered_def answer_def)
  ultimately show ?case using ih es'(2) by (simp add: comp_def)
qed

text \<open>
  C27. Answers reach their requests: in a round that succeeds, every waiting request whose identifier occurs among
  the received responds has its callback called exactly once, with the first such respond, and leaves the list;
  no other callback is called, and the responds are used up.
\<close>

theorem responds_answer_once:
  assumes "ProcessRequestListener c = Inr (c', es, outs)"
  shows "mset es = mset (map (answer (res_lst c)) (filter (answered (res_lst c)) (req_lst c)))
    \<and> res_lst c' = [] \<and> map p_req (req_lst c') = map p_req (filter (\<lambda>l. active l \<and> \<not> answered (res_lst c) l) (req_lst c))"
proof -
  obtain ls es0 where m: "match_responds (res_lst c) (req_lst c) = (ls, es0)" by (cases "match_responds (res_lst c) (req_lst c)")
  then obtain ls' where t: "tick_listeners ls = Inr (ls', outs)" and c': "c' = c\<lparr>res_lst := [], req_lst := filter active ls'\<rparr>" "es = es0"
    using assms by (auto simp: ProcessRequestListener_def)
  have tick: "tick_listeners ks = Inr (ks', os) \<Longrightarrow> map p_req ks' = map p_req ks \<and> map active ks' = map active ks" for ks ks' os
  proof (induction ks arbitrary: ks' os)
    case (Cons k ks)
    then obtain k1 o1 ks1 os1 where 1: "tick_listener k = Inr (k1, o1)" "tick_listeners ks = Inr (ks1, os1)" "ks' = k1 # ks1"
      by auto
    have "p_req k1 = p_req k \<and> active k1 = active k"
      using 1(1) by (auto simp: tick_listener_def Let_def split: if_splits)
    then show ?case using Cons.IH [OF 1(2)] 1(3) by simp
  qed simp
  have filt: "map p_req ks' = map p_req ks \<Longrightarrow> map active ks' = map active ks \<Longrightarrow>
      map p_req (filter active ks') = map p_req (filter active ks)" for ks ks' :: "request_listener list"
  proof (induction ks arbitrary: ks')
    case (Cons k ks)
    then obtain k1 ks1 where 1: "ks' = k1 # ks1" "p_req k1 = p_req k" "active k1 = active k"
      "map p_req ks1 = map p_req ks" "map active ks1 = map active ks"
      by (cases ks') simp_all
    from Cons.IH [OF 1(4,5)] 1(1-3) show ?case by simp
  qed simp
  have "map p_req (filter active (map (settle rs) ks)) = map p_req (filter (\<lambda>l. active l \<and> \<not> answered rs l) ks)" for rs ks
    by (induction ks) (auto simp: settle_def answered_def)
  then show ?thesis using match_responds_spec [OF m] tick [OF t] filt [of ls' ls] c' by simp
qed

section \<open>Requests that are not answered\<close>

fun client_rounds :: "nat \<Rightarrow> client \<Rightarrow> (client \<times> sending list) res" where
  "client_rounds 0 c = Inr (c, [])"
| "client_rounds (Suc n) c = bind_res (ProcessRequestListener c) (\<lambda>(c, es, outs).
     bind_res (client_rounds n c) (\<lambda>(c, outs'). Inr (c, outs @ outs')))"

lemma waiting_round:
  assumes "active l" "SentRawdata (trwd l) = Inr dgs" "k < unat (timeout l)"
  shows "ProcessRequestListener (c\<lparr>res_lst := [], req_lst := [l\<lparr>lclicks := word_of_nat k\<rparr>]\<rparr>) =
    Inr (c\<lparr>res_lst := [], req_lst := [l\<lparr>lclicks := word_of_nat (Suc k)\<rparr>]\<rparr>, [],
      replicate (Suc k div 2 - k div 2) (address (q_addr (p_req l)), dgs))"
proof -
  have k: "Suc k < 2 ^ 32" 
  proof -
    have "unat (timeout l) < 2 ^ 32" using unsigned_less [of "timeout l"] by simp
    then show ?thesis using assms(3) by simp
  qed
  then have u: "unat (word_of_nat k :: u32) = k" "unat (word_of_nat (Suc k) :: u32) = Suc k"
    using unat_of_nat_u32 [of k] unat_of_nat_u32 [OF k] by (simp_all only: Suc_lessD)
  have lt: "word_of_nat k < timeout l" using u(1) assms(3) by (simp add: word_less_nat_alt)
  have "(word_of_nat (Suc k) :: u32) mod 2 = 0 \<longleftrightarrow> Suc k mod 2 = 0"
  proof -
    have "unat ((word_of_nat (Suc k) :: u32) mod 2) = Suc k mod 2" unfolding unat_mod u(2) by simp
    then show ?thesis by (metis unat_eq_zero)
  qed
  then have ev: "(word_of_nat k + 1 :: u32) mod 2 = 0 \<longleftrightarrow> Suc k mod 2 = 0" by (simp add: add.commute)
  have "Suc k div 2 - k div 2 = (if Suc k mod 2 = 0 then 1 else 0)" by presburger
  then show ?thesis
    using assms(1,2) lt ev by (simp add: ProcessRequestListener_def tick_listener_def Let_def add.commute)
qed

lemma waiting_rounds:
  assumes "active l" "SentRawdata (trwd l) = Inr dgs"
  shows "k + n \<le> unat (timeout l) \<Longrightarrow>
    client_rounds n (c\<lparr>res_lst := [], req_lst := [l\<lparr>lclicks := word_of_nat k\<rparr>]\<rparr>) =
    Inr (c\<lparr>res_lst := [], req_lst := [l\<lparr>lclicks := word_of_nat (k + n)\<rparr>]\<rparr>,
      replicate ((k + n) div 2 - k div 2) (address (q_addr (p_req l)), dgs))"
proof (induction n arbitrary: k)
  case (Suc n)
  have le: "k div 2 \<le> Suc k div 2" "Suc k div 2 \<le> (Suc k + n) div 2" by (simp_all add: div_le_mono)
  have "(Suc k div 2 - k div 2) + ((Suc k + n) div 2 - Suc k div 2) = (k + Suc n) div 2 - k div 2"
    using le by simp
  then show ?case
    using waiting_round [OF assms, of k c] Suc.IH [of "Suc k"] Suc.prems
    by (simp add: replicate_add [symmetric])
qed simp

text \<open>
  A request that is never answered is sent again every second round. After as many rounds as its timeout, the
  next round times it out: the code calls the callback, frees the listener and then writes to it.
\<close>

theorem client_timeout:
  assumes "req_lst c = [l]" "res_lst c = []" "active l" "lclicks l = 0" "SentRawdata (trwd l) = Inr dgs"
  shows "(\<forall>n \<le> unat (timeout l). \<exists>c'. client_rounds n c = Inr (c', replicate (n div 2) (address (q_addr (p_req l)), dgs))
      \<and> map p_req (req_lst c') = [p_req l])
    \<and> client_rounds (unat (timeout l) + 1) c = Inl UseAfterFree"
proof -
  have c: "c = c\<lparr>res_lst := [], req_lst := [l\<lparr>lclicks := word_of_nat 0\<rparr>]\<rparr>"
    using assms(1,2,4) by (cases c; cases l) simp
  note rounds = waiting_rounds [OF assms(3,5), of 0 _ c, folded c, simplified]
  have stop: "ProcessRequestListener (c\<lparr>res_lst := [], req_lst := [l\<lparr>lclicks := timeout l\<rparr>]\<rparr>) = Inl UseAfterFree"
    using assms(3) by (simp add: ProcessRequestListener_def tick_listener_def)
  have split: "client_rounds (n + 1) d = bind_res (client_rounds n d) (\<lambda>(d, outs).
      bind_res (ProcessRequestListener d) (\<lambda>(d, es, outs'). Inr (d, outs @ outs')))" for n d
  proof (induction n arbitrary: d)
    case 0
    show ?case by (cases "ProcessRequestListener d") auto
  next
    case (Suc n)
    then show ?case by (cases "ProcessRequestListener d") (auto simp: bind_res_def split: sum.splits)
  qed
  have "client_rounds (unat (timeout l) + 1) c = Inl UseAfterFree"
    unfolding split using rounds [of "unat (timeout l)"] stop by simp
  then show ?thesis using rounds by auto
qed

definition sample_listener :: "u64 \<Rightarrow> request_listener" where
  "sample_listener i = \<lparr>p_req = new_request i, timeout = 3, lclicks = 0, trwd = (new_raw_data 1 [])\<lparr>rmsg := [1, 2]\<rparr>,
     active = True, cb_args = unat i\<rparr>"

definition sample_client :: "u64 list \<Rightarrow> u64 list \<Rightarrow> client" where
  "sample_client qs rs = \<lparr>req_lst = map sample_listener qs, res_lst = map (\<lambda>i. new_respond\<lparr>s_id := i\<rparr>) rs,
     listen_port = 9050, sqe_pbc = \<lparr>modulus = 323, exponent = 257\<rparr>\<rparr>"

theorem responds_answer_once_witness:
  "\<exists>c' es outs. ProcessRequestListener (sample_client [5, 6] [6, 6]) = Inr (c', es, outs)
    \<and> mset es = mset [(6, Some (new_respond\<lparr>s_id := 6\<rparr>))] \<and> map p_req (req_lst c') = [new_request 5]"
proof -
  let ?c = "sample_client [5, 6] [6, 6]"
  have "\<exists>c' es outs. ProcessRequestListener ?c = Inr (c', es, outs)"
    by (simp add: ProcessRequestListener_def sample_client_def sample_listener_def new_request_def new_respond_def
        tick_listener_def Let_def)
  then obtain c' es outs where run: "ProcessRequestListener ?c = Inr (c', es, outs)" by blast
  have "map (answer (res_lst ?c)) (filter (answered (res_lst ?c)) (req_lst ?c)) = [(6, Some (new_respond\<lparr>s_id := 6\<rparr>))]"
    "map p_req (filter (\<lambda>l. active l \<and> \<not> answered (res_lst ?c) l) (req_lst ?c)) = [new_request 5]"
    by (simp_all add: sample_client_def sample_listener_def answered_def answer_def new_request_def new_respond_def)
  with responds_answer_once [OF run] run show ?thesis by auto
qed

theorem client_timeout_witness:
  "(\<exists>c'. client_rounds 3 (sample_client [5] []) = Inr (c', [(zero_sockaddr, [[1, 2]])]))
   \<and> client_rounds 4 (sample_client [5] []) = Inl UseAfterFree"
proof -
  have "SentRawdata (trwd (sample_listener 5)) = Inr [[1, 2]]"
    by (simp add: sample_listener_def SentRawdata_def)
  moreover have "req_lst (sample_client [5] []) = [sample_listener 5]" "res_lst (sample_client [5] []) = []"
    "active (sample_listener 5)" "lclicks (sample_listener 5) = 0" "unat (timeout (sample_listener 5)) = 3"
    "address (q_addr (p_req (sample_listener 5))) = zero_sockaddr"
    by (simp_all add: sample_client_def sample_listener_def new_request_def Addr_empty_def)
  ultimately show ?thesis using client_timeout [of "sample_client [5] []" "sample_listener 5" "[[1, 2]]"] by auto
qed

end
