(* ===== verification/EndToEnd.thy ===== *)
theory EndToEnd
  imports SquareServer Client
begin

text \<open>
  The components together: a request of the client travels through tags, boxes, the listener table and the
  processing loops of the server into its list of requests, in clear or under the server's RSA key; and what the
  server does with requests that arrive more than once.
\<close>

section \<open>Transport of a tagged string\<close>

lemma check_tags_False: "length h = 4 \<Longrightarrow> h \<noteq> tag \<Longrightarrow> check_tags tag tag' (h @ rest) = Inr False"
  by (simp add: check_tags_def cut_def)

lemma SignedRawdata_msg:
  assumes "SignedRawdata rd0 info = Inr rd"
  shows "rmsg rd = bytes_of ''NETC'' @ rinfo rd @ rdata rd0 @ bytes_of ''CTEN''" "r_id rd = r_id rd0"
    "length (rinfo rd) = 4"
  using assms by (auto simp: SignedRawdata_def Let_def dest: cut_length)

lemma receive_short:
  assumes "3 \<le> length info" "SignedRawdata rd0 info = Inr rd"
  shows "receive fresh (rmsg rd) a s = Inr (s\<lparr>rawdata_in := rawdata_in s @ [fresh\<lparr>rdata := rdata rd0,
    rhead := bytes_of ''NETC'', rinfo := info_tag info, rtail := bytes_of ''CTEN'', raddress := a\<rparr>]\<rparr>)"
proof -
  obtain sd where sd: "SignedRawdata rd0 info = Inr sd" "CheckRawMsg (rmsg sd) = Inr True"
    "ProcessSignedRawMsg (rmsg sd) fresh = Inr (fresh\<lparr>rdata := rdata rd0, rhead := bytes_of ''NETC'',
       rinfo := info_tag info, rtail := bytes_of ''CTEN''\<rparr>)"
    using signed_round_trip [OF assms(1)] by blast
  have "sd = rd" using sd(1) assms(2) by simp
  moreover have "CheckNetBox (rmsg rd) = Inr False"
    unfolding SignedRawdata_msg [OF assms(2)] CheckNetBox_def
    by (rule check_tags_False) (simp_all add: bytes_of_def code_def)
  ultimately show ?thesis using sd by (simp add: receive_def)
qed

lemma transport:
  assumes info: "3 \<le> length info" "SignedRawdata rd0 info = Inr rd"
    and len: "length (rmsg rd) < 2 ^ 24" "length (rmsg rd) \<le> 256 \<or> length (rmsg rd) mod 256 \<noteq> 0"
    and idle: "boxls s = []"
  shows "\<exists>dgs. SentRawdata rd = Inr dgs \<and> (\<forall>js. distinct js \<and> set js = {..< length dgs} \<longrightarrow>
    (\<exists>s1 s2 rd'. receive_all fresh a (map ((!) dgs) js) s = Inr s1 \<and> boxProcessorDeamon fresh s1 = Inr s2
      \<and> boxls s2 = [] \<and> rawdata_in s2 = rawdata_in s @ [rd']
      \<and> rdata rd' = rdata rd0 \<and> rinfo rd' = info_tag info \<and> raddress rd' = a))"
proof (cases "length (rmsg rd) \<le> 256")
  case True
  have "\<exists>s1 s2 rd'. receive_all fresh a (map ((!) [rmsg rd]) js) s = Inr s1 \<and> boxProcessorDeamon fresh s1 = Inr s2
      \<and> boxls s2 = [] \<and> rawdata_in s2 = rawdata_in s @ [rd']
      \<and> rdata rd' = rdata rd0 \<and> rinfo rd' = info_tag info \<and> raddress rd' = a"
    if js: "distinct js" "set js = {..< length [rmsg rd]}" for js
  proof -
    have "js = [0]"
    proof -
      have "length js = 1" using distinct_card [OF js(1)] js(2) by simp
      then obtain j where "js = [j]" by (cases js) auto
      with js(2) show ?thesis by auto
    qed
    then show ?thesis using receive_short [OF info] idle
      by (simp add: boxProcessorDeamon_def CleaningBoxs_def)
  qed
  moreover have "SentRawdata rd = Inr [rmsg rd]" using True by (simp add: SentRawdata_def)
  ultimately show ?thesis by blast
next
  case False
  then have long: "256 < length (rmsg rd)" "length (rmsg rd) mod 256 \<noteq> 0" using len(2) by auto
  let ?rd' = "fresh\<lparr>rdata := rdata rd0, rhead := bytes_of ''NETC'', rinfo := info_tag info, rtail := bytes_of ''CTEN''\<rparr>"
  have ok: "CheckRawMsg (rmsg rd) = Inr True" "ProcessSignedRawMsg (rmsg rd) fresh = Inr ?rd'"
    using signed_round_trip [OF info(1), of rd0 fresh] info(2) by auto
  note go = reassembly [OF long(1) len(1) long(2) ok idle]
  have "\<exists>js :: nat list. distinct js \<and> set js = {..< length (rmsg rd) div 256}"
    using finite_distinct_list [of "{..< length (rmsg rd) div 256}"] by blast
  then obtain dgs where dgs: "SentRawdata rd = Inr dgs" "length dgs = length (rmsg rd) div 256"
    using go by blast
  show ?thesis
  proof (intro exI [of _ dgs] conjI allI impI dgs(1))
    fix js :: "nat list"
    assume js: "distinct js \<and> set js = {..< length dgs}"
    then obtain dgs' s1 s2 where *: "SentRawdata rd = Inr dgs'"
      "receive_all fresh a (map (\<lambda>j. dgs' ! j) js) s = Inr s1" "boxProcessorDeamon fresh s1 = Inr s2"
      "boxls s2 = []" "rawdata_in s2 = rawdata_in s @ [?rd'\<lparr>r_id := r_id rd, raddress := a\<rparr>]"
      using go [of js] dgs(2) by (metis (no_types, lifting))
    moreover have "dgs' = dgs" using *(1) dgs(1) by simp
    ultimately show "\<exists>s1 s2 rd'. receive_all fresh a (map ((!) dgs) js) s = Inr s1 \<and> boxProcessorDeamon fresh s1 = Inr s2
      \<and> boxls s2 = [] \<and> rawdata_in s2 = rawdata_in s @ [rd']
      \<and> rdata rd' = rdata rd0 \<and> rinfo rd' = info_tag info \<and> raddress rd' = a"
      by (intro exI [of _ s1] exI [of _ s2] exI [of _ "?rd'\<lparr>r_id := r_id rd, raddress := a\<rparr>"]) simp
  qed
qed

section \<open>A request from the client to the server\<close>

definition request_bytes :: "request \<Rightarrow> byte list" where
  "request_bytes r = le_enc 4 (unat REQUSET_TYPE) @ packet_bytes (request_blocks r)"

definition request_length :: "request \<Rightarrow> nat" where
  "request_length r = 12 + (if q_encrypt r then 8 else 1) * length (request_bytes r)"

definition keys_ok :: "int list \<Rightarrow> (nat \<times> nat) list \<Rightarrow> rsa_key \<Rightarrow> rsa_key \<Rightarrow> bool" where
  "keys_ok primes draws pub priv \<longleftrightarrow> rsa_gen_keys primes draws = Some (pub, priv) \<and> primes \<noteq> []
     \<and> (\<forall>p \<in> set primes. is_prime (nat p) \<and> 16 < p \<and> p \<le> 2 ^ 16)"

definition request_tag :: "request \<Rightarrow> string" where
  "request_tag r = (if q_encrypt r then ''RPKT'' else ''SPKT'')"

lemma tags: "info_tag ''SPKT'' = bytes_of ''SPKT''" "info_tag ''RPKT'' = bytes_of ''RPKT''"
  "bytes_of ''RPKT'' \<noteq> bytes_of ''SPKT''"
  by (simp_all add: info_tag_def bytes_of_def code_def)

text \<open>What the client sends of a request, and that the server's decoding of these bytes is the request packet.\<close>

lemma request_raw_signed:
  assumes wf: "wf_request r" and fits: "length (request_bytes r) \<le> BUFSIZ"
    and enc: "q_encrypt r \<Longrightarrow> keys_ok primes draws pub priv"
  shows "\<exists>rd0 rd. request_raw pub rnd r = Inr rd \<and> SignedRawdata rd0 (request_tag r) = Inr rd
    \<and> length (rmsg rd) = request_length r
    \<and> (\<forall>rd'. rdata rd' = rdata rd0 \<and> rinfo rd' = info_tag (request_tag r) \<longrightarrow>
        (\<exists>p. packet_of_raw priv rd' = Inr [p] \<and> ptype p = REQUSET_TYPE \<and> buffs p = request_blocks r
          \<and> paddress p = raddress rd'))"
proof -
  let ?p = "(new_packet 0 zero_sockaddr)\<lparr>paddress := address (q_addr r), ptype := REQUSET_TYPE, buffs := request_blocks r\<rparr>"
  let ?rd = "(new_raw_data rnd [])\<lparr>rdata := request_bytes r\<rparr>"
  have pkt: "Request2Packet (new_packet 0 zero_sockaddr) r = Inr ?p"
    using Request2Packet_blocks [OF wf] by (simp add: new_packet_def)
  have pf: "packet_fits ?p" using fits by (simp add: packet_fits_def request_bytes_def)
  have raw: "Packet2Rawdata ?p (new_raw_data rnd []) = Inr ?rd"
    using Packet2Rawdata_fits [of ?p "new_raw_data rnd []"] pf by (simp add: request_bytes_def)
  have blocks: "\<forall>b \<in> set (request_blocks r). length b < 2 ^ 32" using packet_fits_blocks [OF pf] by simp
  have unp: "Rawdata2Packet q rd' = Inr (q\<lparr>ptype := REQUSET_TYPE, buffs := buffs q @ request_blocks r\<rparr>)"
    if "rdata rd' = request_bytes r" for q rd'
    using Rawdata2Packet_packet [OF blocks] that by (simp add: request_bytes_def)
  have sig: "\<exists>sd. SignedRawdata rd1 info = Inr sd \<and> length (rmsg sd) = 12 + length (rdata rd1)"
    if info: "3 \<le> length info" for rd1 info
  proof -
    obtain sd where sd: "SignedRawdata rd1 info = Inr sd" using signed_round_trip [OF info, of rd1] by blast
    then show ?thesis using SignedRawdata_msg [OF sd] by simp
  qed
  show ?thesis
  proof (cases "q_encrypt r")
    case False
    obtain sd where sd: "SignedRawdata ?rd ''SPKT'' = Inr sd" "length (rmsg sd) = 12 + length (rdata ?rd)"
      using sig [of "''SPKT''" ?rd] by auto
    have "\<exists>p. packet_of_raw priv rd' = Inr [p] \<and> ptype p = REQUSET_TYPE \<and> buffs p = request_blocks r \<and> paddress p = raddress rd'"
      if "rdata rd' = request_bytes r" "rinfo rd' = bytes_of ''SPKT''" for rd'
      using unp [OF that(1)] that(2) by (simp add: packet_of_raw_def new_packet_def)
    then show ?thesis using False sd pkt raw
      by (intro exI [of _ ?rd] exI [of _ sd]) (simp add: request_raw_def request_tag_def request_length_def tags)
  next
    case True
    from enc [OF True] rsa_inverse [of primes draws pub priv "request_bytes r"]
    obtain cs where cs: "rsa_encrypt (request_bytes r) pub = Inr cs" "length cs = length (request_bytes r)"
      "rsa_decrypt (concat (map (\<lambda>w. le_enc 8 (unat w)) cs)) priv = Inr (Some (request_bytes r))"
      by (auto simp: keys_ok_def)
    let ?rc = "?rd\<lparr>rdata := concat (map (\<lambda>w. le_enc 8 (unat w)) cs)\<rparr>"
    obtain sd where sd: "SignedRawdata ?rc ''RPKT'' = Inr sd" "length (rmsg sd) = 12 + length (rdata ?rc)"
      using sig [of "''RPKT''" ?rc] by auto
    have "\<exists>p. packet_of_raw priv rd' = Inr [p] \<and> ptype p = REQUSET_TYPE \<and> buffs p = request_blocks r \<and> paddress p = raddress rd'"
      if "rdata rd' = rdata ?rc" "rinfo rd' = bytes_of ''RPKT''" for rd'
    proof -
      have "DecryptRSARawMsg rd' priv = Inr (rd'\<lparr>rdata := request_bytes r\<rparr>)"
        using cs(3) that(1) by (simp add: DecryptRSARawMsg_def)
      then show ?thesis using that(2) tags(3) unp [of "rd'\<lparr>rdata := request_bytes r\<rparr>"]
        by (simp add: packet_of_raw_def new_packet_def)
    qed
    moreover have "EncryptRSARawMsg ?rd pub = Inr ?rc" by (simp add: EncryptRSARawMsg_def cs(1))
    ultimately show ?thesis using True sd pkt raw
      by (intro exI [of _ ?rc] exI [of _ sd])
        (simp add: request_raw_def request_tag_def request_length_def tags length_words cs(2))
  qed
qed

text \<open>One round of tagged strings and one of packets over a received request.\<close>

lemma request_rounds:
  assumes wf: "wf_request r" and p: "packet_of_raw (prc s) rd' = Inr [p]" "ptype p = REQUSET_TYPE"
      "buffs p = request_blocks r" "paddress p = a" and idle: "packets_in s = []"
  shows "\<exists>s3 s4 q. ProcessRawData (s\<lparr>boxls := [], rawdata_in := [rd']\<rparr>) = Inr s3 \<and> ProcessPacket E s3 = Inr s4
    \<and> req_list s4 = req_list s @ [q] \<and> q_id q = q_id r \<and> q_type q = q_type r \<and> q_data q = q_data r
    \<and> recv_port q = recv_port r \<and> address (q_addr q) = a
    \<and> boxls s4 = [] \<and> rawdata_in s4 = [] \<and> packets_in s4 = []
    \<and> rids s4 = rids s \<and> timers s4 = timers s \<and> packets_out s4 = packets_out s \<and> database s4 = database s"
proof -
  let ?s2 = "s\<lparr>boxls := [], rawdata_in := [rd']\<rparr>"
  let ?s3 = "s\<lparr>boxls := [], rawdata_in := [], packets_in := [p]\<rparr>"
  have 3: "ProcessRawData ?s2 = Inr ?s3"
    using p(1) idle raw_loop.simps(3) [of "prc s" 2047 rd' "[]"] by (simp add: ProcessRawData_def)
  obtain v rs where rng: "rng64 (rand_state s) = (v, rs)" by (cases "rng64 (rand_state s)")
  let ?q = "(request_arrived r (new_request v))\<lparr>q_addr := SetSockAddr a (Addr_from (address (q_addr r)))\<rparr>"
  have "Packet2Request p (new_request v) = Inr (request_arrived r (new_request v))"
    by (rule Packet2Request_blocks [OF wf p(2,3)])
  then have pp: "process_packet E p ?s3 = Inr (?s3\<lparr>req_list := req_list s @ [?q], rand_state := rs\<rparr>)"
    using p rng by (simp add: process_packet_def request_arrived_def)
  let ?s4 = "?s3\<lparr>req_list := req_list s @ [?q], rand_state := rs, packets_in := []\<rparr>"
  from pp have 4: "ProcessPacket E ?s3 = Inr ?s4"
    using packet_loop.simps(3) [of E 2047 p "[]"] by (simp add: ProcessPacket_def)
  have "q_id ?q = q_id r \<and> q_type ?q = q_type r \<and> q_data ?q = q_data r \<and> recv_port ?q = recv_port r
      \<and> address (q_addr ?q) = a"
    by (simp add: request_arrived_def SetSockAddr_def)
  with 3 4 show ?thesis
    by (intro exI [of _ ?s3] exI [of _ ?s4] exI [of _ ?q]) simp
qed

lemma request_reaches:
  assumes "wf_request r" "length (request_bytes r) \<le> BUFSIZ" "request_length r \<le> 256 \<or> request_length r mod 256 \<noteq> 0"
    and "q_encrypt r \<longrightarrow> keys_ok primes draws (sqe_pbc c) (prc s)"
    and "boxls s = []" "rawdata_in s = []" "packets_in s = []"
  shows "\<exists>c' dgs. NewRequestListener rnd r tmo args c = Inr (c', (address (q_addr r), dgs))
    \<and> (\<forall>js. distinct js \<and> set js = {..< length dgs} \<longrightarrow>
        (\<exists>s1 s2 s3 s4 q. on_server (receive_all fresh a (map ((!) dgs) js)) s = Inr s1
          \<and> on_server (boxProcessorDeamon fresh) s1 = Inr s2 \<and> ProcessRawData s2 = Inr s3 \<and> ProcessPacket E s3 = Inr s4
          \<and> req_list s4 = req_list s @ [q] \<and> q_id q = q_id r \<and> q_type q = q_type r \<and> q_data q = q_data r
          \<and> recv_port q = recv_port r \<and> address (q_addr q) = a
          \<and> boxls s4 = [] \<and> rawdata_in s4 = [] \<and> packets_in s4 = []
          \<and> rids s4 = rids s \<and> timers s4 = timers s \<and> packets_out s4 = packets_out s \<and> database s4 = database s))"
proof -
  from request_raw_signed [OF assms(1,2) assms(4) [rule_format]] obtain rd0 rd where
    raw: "request_raw (sqe_pbc c) rnd r = Inr rd" and sig: "SignedRawdata rd0 (request_tag r) = Inr rd"
    and len: "length (rmsg rd) = request_length r"
    and unp: "\<And>rd'. rdata rd' = rdata rd0 \<Longrightarrow> rinfo rd' = info_tag (request_tag r) \<Longrightarrow>
        \<exists>p. packet_of_raw (prc s) rd' = Inr [p] \<and> ptype p = REQUSET_TYPE \<and> buffs p = request_blocks r
          \<and> paddress p = raddress rd'"
    by blast
  have "length (rmsg rd) < 2 ^ 24" using len assms(2) by (simp add: request_length_def BUFSIZ_def)
  moreover have "3 \<le> length (request_tag r)" by (simp add: request_tag_def)
  ultimately obtain dgs where dgs: "SentRawdata rd = Inr dgs"
    and go: "\<And>js. distinct js \<and> set js = {..< length dgs} \<Longrightarrow>
      \<exists>s1 s2 rd'. receive_all fresh a (map ((!) dgs) js) \<lparr>boxls = boxls s, rawdata_in = rawdata_in s\<rparr> = Inr s1
        \<and> boxProcessorDeamon fresh s1 = Inr s2 \<and> boxls s2 = [] \<and> rawdata_in s2 = rawdata_in s @ [rd']
        \<and> rdata rd' = rdata rd0 \<and> rinfo rd' = info_tag (request_tag r) \<and> raddress rd' = a"
    using transport [OF _ sig, of "\<lparr>boxls = boxls s, rawdata_in = rawdata_in s\<rparr>" fresh a] len assms(3,5) by auto
  have step: "\<exists>s1 s2 s3 s4 q. on_server (receive_all fresh a (map ((!) dgs) js)) s = Inr s1
      \<and> on_server (boxProcessorDeamon fresh) s1 = Inr s2 \<and> ProcessRawData s2 = Inr s3 \<and> ProcessPacket E s3 = Inr s4
      \<and> req_list s4 = req_list s @ [q] \<and> q_id q = q_id r \<and> q_type q = q_type r \<and> q_data q = q_data r
      \<and> recv_port q = recv_port r \<and> address (q_addr q) = a
      \<and> boxls s4 = [] \<and> rawdata_in s4 = [] \<and> packets_in s4 = []
      \<and> rids s4 = rids s \<and> timers s4 = timers s \<and> packets_out s4 = packets_out s \<and> database s4 = database s"
    if js: "distinct js \<and> set js = {..< length dgs}" for js
  proof -
    obtain t1 t2 rd' where t: "receive_all fresh a (map ((!) dgs) js) \<lparr>boxls = boxls s, rawdata_in = rawdata_in s\<rparr> = Inr t1"
      "boxProcessorDeamon fresh t1 = Inr t2" "boxls t2 = []" "rawdata_in t2 = [rd']"
      "rdata rd' = rdata rd0" "rinfo rd' = info_tag (request_tag r)" "raddress rd' = a"
      using go [OF js] assms(6) by auto
    obtain p where p: "packet_of_raw (prc s) rd' = Inr [p]" "ptype p = REQUSET_TYPE" "buffs p = request_blocks r" "paddress p = a"
      using unp [OF t(5,6)] t(7) by auto
    let ?s1 = "s\<lparr>boxls := boxls t1, rawdata_in := rawdata_in t1\<rparr>"
    let ?s2 = "s\<lparr>boxls := [], rawdata_in := [rd']\<rparr>"
    have "on_server (receive_all fresh a (map ((!) dgs) js)) s = Inr ?s1" by (simp add: on_server_def t(1))
    moreover have "on_server (boxProcessorDeamon fresh) ?s1 = Inr ?s2"
      using t(2-4) by (cases t1) (simp add: on_server_def)
    ultimately show ?thesis using request_rounds [OF assms(1) p assms(7), of E] by blast
  qed
  have "NewRequestListener rnd r tmo args c = Inr (c\<lparr>req_lst := req_lst c @ [\<lparr>p_req = r, timeout = word_of_int tmo,
      lclicks = 0, trwd = rd, active = True, cb_args = args\<rparr>]\<rparr>, (address (q_addr r), dgs))"
    by (simp add: NewRequestListener_def raw dgs)
  with step show ?thesis by blast
qed

text \<open>
  C1. End to end: a request that fits the serialisation buffer, in clear or encrypted for the server's keys, and
  whose tagged string is not a longer multiple of 256 bytes. The client's datagrams, received in any order by a
  server at rest, one round of boxes, one of tagged strings and one of packets, put exactly this request at the
  end of the server's list, with the sender's address as the one to answer to; nothing stays behind and nothing
  else is changed.
\<close>

theorem request_delivery:
  assumes "wf_request r" "length (request_bytes r) \<le> BUFSIZ" "request_length r \<le> 256 \<or> request_length r mod 256 \<noteq> 0"
    and "q_encrypt r \<Longrightarrow> keys_ok primes draws (sqe_pbc c) (prc s)"
    and "boxls s = []" "rawdata_in s = []" "packets_in s = []"
  shows "\<exists>c' dgs. NewRequestListener rnd r tmo args c = Inr (c', (address (q_addr r), dgs))
    \<and> (\<forall>js. distinct js \<and> set js = {..< length dgs} \<longrightarrow>
        (\<exists>s1 s2 s3 s4 q. on_server (receive_all fresh a (map ((!) dgs) js)) s = Inr s1
          \<and> on_server (boxProcessorDeamon fresh) s1 = Inr s2 \<and> ProcessRawData s2 = Inr s3 \<and> ProcessPacket E s3 = Inr s4
          \<and> req_list s4 = req_list s @ [q] \<and> q_id q = q_id r \<and> q_type q = q_type r \<and> q_data q = q_data r
          \<and> recv_port q = recv_port r \<and> address (q_addr q) = a
          \<and> boxls s4 = [] \<and> rawdata_in s4 = [] \<and> packets_in s4 = []
          \<and> rids s4 = rids s \<and> timers s4 = timers s \<and> packets_out s4 = packets_out s \<and> database s4 = database s))"
proof -
  have "q_encrypt r \<longrightarrow> keys_ok primes draws (sqe_pbc c) (prc s)" using assms(4) by simp
  with assms(1-3) show ?thesis using assms(5-7) by (rule request_reaches)
qed

definition sample_env :: "reg_row list env" where
  "sample_env = \<lparr>db_insert = (\<lambda>r db. db @ [r]),
     db_select = (\<lambda>t db. find (\<lambda>r. show_nat (unat (row_client_id r)) = t) db),
     db_status = (\<lambda>st cid db. map (\<lambda>r. if row_client_id r = cid then r\<lparr>row_status := st\<rparr> else r) db),
     env_inet_addr = (\<lambda>_. 0), env_md5 = sample_md5, env_key_image = (\<lambda>_. replicate 16 0),
     env_register = (\<lambda>_. Inr \<lparr>j_key = [1, 2, 3], j_name = ''n'', j_tag = ''t'', j_port = 9052, j_ip = ''127.0.0.1''\<rparr>),
     env_login = (\<lambda>_. Inr (0, 0))\<rparr>"

definition sample_server :: "rsa_key \<Rightarrow> reg_row list square" where
  "sample_server priv = \<lparr>boxls = [], rawdata_in = [], packets_in = [], packets_out = [], req_list = [], client_lst = [],
     rids = [], timers = [], database = [], rand_state = 1, pkc = priv, prc = priv\<rparr>"

definition sample_request :: request where
  "sample_request = (new_request 7)\<lparr>q_type := ''public request'', q_data := ''request for public key'', q_encrypt := True\<rparr>"

lemma sample_keys: "\<exists>pub priv. keys_ok [17, 19] [(0, 1)] pub priv"
proof -
  have "is_prime 17" "is_prime 19" by code_simp+
  moreover have "gcd_c (16 * 18) 257 = 1" "ExtEuclid (16 * 18) 257 = 65" by code_simp+
  ultimately show ?thesis
    by (simp add: keys_ok_def rsa_gen_keys_def prime_at_def Let_def)
qed

lemma length_sockaddr_zero: "length (sockaddr_bytes zero_sockaddr) = 16"
  by (simp add: sockaddr_bytes_def zero_sockaddr_def)

theorem request_delivery_witness:
  "\<exists>pub priv c' dgs s1 s2 s3 s4 q.
     NewRequestListener 3 sample_request 5 0 \<lparr>req_lst = [], res_lst = [], listen_port = 9050, sqe_pbc = pub\<rparr>
       = Inr (c', (zero_sockaddr, dgs))
     \<and> on_server (receive_all (new_raw_data 1 []) zero_sockaddr (map ((!) dgs) (rev [0 ..< length dgs]))) (sample_server priv) = Inr s1
     \<and> on_server (boxProcessorDeamon (new_raw_data 1 [])) s1 = Inr s2 \<and> ProcessRawData s2 = Inr s3
     \<and> ProcessPacket sample_env s3 = Inr s4 \<and> req_list s4 = [q] \<and> q_type q = ''public request''"
proof -
  obtain pub priv where keys: "keys_ok [17, 19] [(0, 1)] pub priv" using sample_keys by blast
  have wf: "wf_request sample_request"
    by (simp add: wf_request_def sample_request_def new_request_def Addr_empty_def wf_sockaddr_def zero_sockaddr_def)
  have len: "length (request_bytes sample_request) = 112"
    by (simp add: request_bytes_def request_blocks_def packet_bytes_def sample_request_def new_request_def Addr_empty_def
        length_sockaddr_zero)
  have rl: "request_length sample_request = 908"
    unfolding request_length_def len by (simp add: sample_request_def new_request_def)
  let ?c = "\<lparr>req_lst = [], res_lst = [], listen_port = 9050, sqe_pbc = pub\<rparr>"
  have z: "address (q_addr sample_request) = zero_sockaddr"
    by (simp add: sample_request_def new_request_def Addr_empty_def)
  let ?s = "sample_server priv"
  let ?ends = "\<lambda>dgs js. \<exists>s1 s2 s3 s4 q.
    on_server (receive_all (new_raw_data 1 []) zero_sockaddr (map ((!) dgs) js)) ?s = Inr s1
    \<and> on_server (boxProcessorDeamon (new_raw_data 1 [])) s1 = Inr s2 \<and> ProcessRawData s2 = Inr s3
    \<and> ProcessPacket sample_env s3 = Inr s4
    \<and> req_list s4 = req_list ?s @ [q] \<and> q_id q = q_id sample_request \<and> q_type q = q_type sample_request
    \<and> q_data q = q_data sample_request
    \<and> recv_port q = recv_port sample_request \<and> address (q_addr q) = zero_sockaddr
    \<and> boxls s4 = [] \<and> rawdata_in s4 = [] \<and> packets_in s4 = []
    \<and> rids s4 = rids ?s \<and> timers s4 = timers ?s \<and> packets_out s4 = packets_out ?s \<and> database s4 = database ?s"
  have "length (request_bytes sample_request) \<le> BUFSIZ"
    "request_length sample_request \<le> 256 \<or> request_length sample_request mod 256 \<noteq> 0"
    unfolding len rl by (simp_all add: BUFSIZ_def)
  moreover have "keys_ok [17, 19] [(0, 1)] (sqe_pbc ?c) (prc ?s)" "boxls ?s = []" "rawdata_in ?s = []" "packets_in ?s = []"
    using keys by (simp_all add: sample_server_def)
  ultimately have "\<exists>c' dgs. NewRequestListener 3 sample_request 5 0 ?c = Inr (c', (address (q_addr sample_request), dgs))
    \<and> (\<forall>js. distinct js \<and> set js = {..< length dgs} \<longrightarrow> ?ends dgs js)"
    using wf by (intro request_delivery) assumption+
  then obtain c' dgs where sent: "NewRequestListener 3 sample_request 5 0 ?c = Inr (c', (zero_sockaddr, dgs))"
    and all: "\<forall>js. distinct js \<and> set js = {..< length dgs} \<longrightarrow> ?ends dgs js"
    unfolding z by (elim exE conjE) (rule that)
  have "distinct (rev [0 ..< length dgs]) \<and> set (rev [0 ..< length dgs]) = {..< length dgs}" by auto
  with all have "?ends dgs (rev [0 ..< length dgs])" by blast
  then obtain s1 s2 s3 s4 q where
    "on_server (receive_all (new_raw_data 1 []) zero_sockaddr (map ((!) dgs) (rev [0 ..< length dgs]))) ?s = Inr s1"
    "on_server (boxProcessorDeamon (new_raw_data 1 [])) s1 = Inr s2" "ProcessRawData s2 = Inr s3"
    "ProcessPacket sample_env s3 = Inr s4" "req_list s4 = [q]" "q_type q = ''public request''"
    by (elim exE conjE) (simp add: sample_server_def sample_request_def)
  with sent show ?thesis by blast
qed

section \<open>Requests that arrive again\<close>

lemma map_of_map_insert: "\<exists>v'. map_of (map_insert k v es) k = Some v'"
  by (induction es) auto

lemma respond_packet_wf:
  assumes "wf_sockaddr (address (q_addr preq))" "length ty < 2 ^ 32"
  shows "\<exists>p. respond_packet preq ty buff = Inr p"
  using assms by (simp add: respond_packet_def Respond2Packet_def SetBuff_def cut_def new_respond_def SetPort_def
      wf_sockaddr_def Let_def)

text \<open>
  C25. A registration is done once: the client repeats its request until an answer arrives, and every further
  copy of a registration that was processed is answered with the same packet and changes nothing else, so no
  second client, timer or table row appears and no numbers are drawn.
\<close>

theorem registration_idempotent:
  assumes "q_type preq = ''private request''" "process_request E preq s = Inr s1"
  shows "process_request E preq s1 = Inr (s1\<lparr>packets_out := packets_out s1 @ [last (packets_out s1)]\<rparr>)
    \<and> ProcessRequset E (s1\<lparr>req_list := [preq, preq]\<rparr>)
        = Inr (s1\<lparr>req_list := [], packets_out := packets_out s1 @ replicate 2 (last (packets_out s1))\<rparr>)"
proof -
  from assms obtain s0 p where s0: "(case map_of (rids s) (q_id preq) of Some _ \<Rightarrow> Inr s | None \<Rightarrow> register_client E preq s) = Inr s0"
    and p: "respond_packet preq ''register respond'' status_ok = Inr p" "s1 = s0\<lparr>packets_out := packets_out s0 @ [p]\<rparr>"
    by (auto simp: process_request_def send_respond_def)
  have "\<exists>v. map_of (rids s0) (q_id preq) = Some v"
  proof (cases "map_of (rids s) (q_id preq)")
    case None
    then have "register_client E preq s = Inr s0" using s0 by simp
    then have "\<exists>v. rids s0 = map_insert (q_id preq) v (rids s)"
      by (auto simp: register_client_def Let_def split_def)
    then show ?thesis using map_of_map_insert by fastforce
  next
    case (Some v)
    then show ?thesis using s0 by simp
  qed
  then obtain v where v: "map_of (rids s1) (q_id preq) = Some v" using p(2) by auto
  have again: "process_request E preq t = Inr (t\<lparr>packets_out := packets_out t @ [p]\<rparr>)"
    if "map_of (rids t) (q_id preq) = Some v" for t
    using that assms(1) p(1) by (simp add: process_request_def send_respond_def)
  have last: "last (packets_out s1) = p" using p(2) by simp
  have "request_loop E 2048 [preq, preq] (s1\<lparr>req_list := [preq, preq]\<rparr>)
      = Inr (s1\<lparr>req_list := [preq, preq], packets_out := packets_out s1 @ [p, p]\<rparr>, [])"
    using again v request_loop.simps(3) [of E 2047 preq "[preq]"] request_loop.simps(3) [of E 2046 preq "[]"] by simp
  then have "ProcessRequset E (s1\<lparr>req_list := [preq, preq]\<rparr>)
      = Inr (s1\<lparr>req_list := [], packets_out := packets_out s1 @ [p, p]\<rparr>)"
    by (simp add: ProcessRequset_def)
  then show ?thesis using again [OF v] last by (simp add: numeral_2_eq_2)
qed

definition sample_registration :: request where
  "sample_registration = (new_request 9)\<lparr>q_type := ''private request''\<rparr>"

lemma sample_addr: "wf_sockaddr (address (q_addr (new_request i)))"
  by (simp add: new_request_def Addr_empty_def wf_sockaddr_def zero_sockaddr_def)

lemma sample_registers: "\<exists>s1. process_request sample_env sample_registration (sample_server k) = Inr s1"
proof -
  obtain p where "respond_packet sample_registration ''register respond'' status_ok = Inr p"
    using respond_packet_wf [of sample_registration "''register respond''" status_ok] sample_addr [of 9]
    by (auto simp: sample_registration_def)
  then show ?thesis
    by (simp add: process_request_def send_respond_def register_client_def sample_registration_def sample_env_def
        sample_server_def store_key_def Let_def split_def)
qed

theorem registration_idempotent_witness:
  "\<exists>s1. process_request sample_env sample_registration (sample_server \<lparr>modulus = 323, exponent = 257\<rparr>) = Inr s1
    \<and> process_request sample_env sample_registration s1 = Inr (s1\<lparr>packets_out := packets_out s1 @ [last (packets_out s1)]\<rparr>)"
proof -
  obtain s1 where s1: "process_request sample_env sample_registration (sample_server \<lparr>modulus = 323, exponent = 257\<rparr>) = Inr s1"
    using sample_registers by blast
  have "q_type sample_registration = ''private request''" by (simp add: sample_registration_def)
  from registration_idempotent [OF this s1] s1 show ?thesis by blast
qed

text \<open>
  C26. Logging in: after a registration, a login with the identifier and the password that the server drew starts
  the service of a client with the name, tag and key of the registration and marks its row as active. This rests
  on what the database promises: a row inserted under an identifier that it does not hold yet is the one selected by
  the identifier's decimal text, for identifiers that are positive as signed numbers.
\<close>

theorem register_then_login:
  assumes db: "\<And>row d. unat (row_client_id row) < 2 ^ 63 \<Longrightarrow> db_select E (show_nat (unat (row_client_id row))) d = None \<Longrightarrow>
      db_select E (show_nat (unat (row_client_id row))) (db_insert E row d) = Some row"
    and reg: "register_client E preq s = Inr s1" and c: "c = last (timers s1)"
    and new: "unat (c_id c) < 2 ^ 63" "db_select E (show_nat (unat (c_id c))) (database s) = None"
    and login: "q_type l = ''client login''" "env_login E (c_str (q_data l)) = Inr (sint (c_id c), sint (c_passwd c))"
    and addr: "wf_sockaddr (address (q_addr l))"
  shows "\<exists>s2 c'. process_request E l s1 = Inr s2 \<and> timers s2 = timers s1 @ [c'] \<and> c_id c' = c_id c
    \<and> c_name c' = c_name c \<and> c_tag c' = c_tag c \<and> key (c_key c') = key (c_key c) \<and> c_passwd c' = c_passwd c
    \<and> database s2 = db_status E 1 (c_id c) (database s1)"
proof -
  from reg obtain row where row: "database s1 = db_insert E row (database s)" "row_client_id row = c_id c"
    "row_passwd row = c_passwd c" "row_name row = c_name c" "row_tag row = c_tag c" "row_key row = key (c_key c)"
    "row_status row = 0"
    unfolding c by (auto simp: register_client_def Let_def split_def)
  have sel: "db_select E (show_nat (unat (c_id c))) (database s1) = Some row"
    using db [of row "database s"] new row by simp
  have w: "word_of_int (sint (c_id c)) = c_id c" "word_of_int (sint (c_passwd c)) = c_passwd c" by simp_all
  obtain p where "respond_packet l ''register respond'' status_ok = Inr p"
    using respond_packet_wf [OF addr, of "''register respond''" status_ok] by auto
  then show ?thesis
    using login sel row
    by (simp add: process_request_def client_login_def send_respond_def w Let_def split_def)
qed

lemma find_snoc: "find P db = None \<Longrightarrow> P r \<Longrightarrow> find P (db @ [r]) = Some r"
  by (induction db) (auto split: if_splits)

lemma sample_db_law:
  "db_select sample_env (show_nat (unat (row_client_id row))) d = None \<Longrightarrow>
   db_select sample_env (show_nat (unat (row_client_id row))) (db_insert sample_env row d) = Some row"
  by (simp add: sample_env_def find_snoc)

definition login_env :: "u64 \<Rightarrow> u64 \<Rightarrow> reg_row list env" where
  "login_env cid pw = sample_env\<lparr>env_login := (\<lambda>_. Inr (sint cid, sint pw))\<rparr>"

lemma register_client_draws:
  assumes "register_client E preq s = Inr s1"
  shows "c_id (last (timers s1)) = fst (rng64 (snd (new_key (rand_state s))))"
    "c_passwd (last (timers s1)) = fst (rng64 (snd (rng64 (snd (new_key (rand_state s))))))"
    "\<exists>doc. env_register E (c_str (q_data preq)) = Inr doc \<and> c_name (last (timers s1)) = c_str (j_name doc)"
  using assms by (auto simp: register_client_def Let_def split_def)

theorem register_then_login_witness:
  "\<exists>E s1 s2 c'. register_client E sample_registration (sample_server \<lparr>modulus = 323, exponent = 257\<rparr>) = Inr s1
    \<and> process_request E ((new_request 10)\<lparr>q_type := ''client login''\<rparr>) s1 = Inr s2
    \<and> timers s2 = timers s1 @ [c'] \<and> c_name c' = ''n''"
proof -
  let ?s = "sample_server \<lparr>modulus = 323, exponent = 257\<rparr>" and ?l = "(new_request 10)\<lparr>q_type := ''client login''\<rparr>"
  let ?cid = "fst (rng64 (snd (new_key 1)))" and ?pw = "fst (rng64 (snd (rng64 (snd (new_key 1)))))"
  let ?E = "login_env ?cid ?pw"
  have "\<exists>s1. register_client ?E sample_registration ?s = Inr s1"
    by (simp add: register_client_def login_env_def sample_env_def store_key_def Let_def split_def)
  then obtain s1 where reg: "register_client ?E sample_registration ?s = Inr s1" by blast
  have draws: "c_id (last (timers s1)) = ?cid" "c_passwd (last (timers s1)) = ?pw" "c_name (last (timers s1)) = ''n''"
  proof -
    have rs: "rand_state ?s = 1" by (simp add: sample_server_def)
    show "c_id (last (timers s1)) = ?cid" "c_passwd (last (timers s1)) = ?pw"
      using register_client_draws(1,2) [OF reg] unfolding rs .
    have "env_register ?E x = env_register sample_env x" for x by (simp add: login_env_def)
    then show "c_name (last (timers s1)) = ''n''"
      using register_client_draws(3) [OF reg] by (auto simp: sample_env_def c_str_def)
  qed
  have "?cid = 8195237237126968761" by code_simp
  then have id: "unat ?cid < 2 ^ 63" by simp
  have law: "db_select ?E (show_nat (unat (row_client_id row))) d = None \<Longrightarrow>
      db_select ?E (show_nat (unat (row_client_id row))) (db_insert ?E row d) = Some row" for row d
    using sample_db_law [of row d] by (simp add: login_env_def)
  have none: "db_select ?E (show_nat (unat ?cid)) (database ?s) = None"
    by (simp add: login_env_def sample_env_def sample_server_def)
  have login: "q_type ?l = ''client login''" "env_login ?E (c_str (q_data ?l)) = Inr (sint ?cid, sint ?pw)"
    by (simp_all add: login_env_def)
  have "\<exists>s2 c'. process_request ?E ?l s1 = Inr s2 \<and> timers s2 = timers s1 @ [c'] \<and> c_id c' = c_id (last (timers s1))
    \<and> c_name c' = c_name (last (timers s1)) \<and> c_tag c' = c_tag (last (timers s1))
    \<and> key (c_key c') = key (c_key (last (timers s1))) \<and> c_passwd c' = c_passwd (last (timers s1))
    \<and> database s2 = db_status ?E 1 (c_id (last (timers s1))) (database s1)"
    using sample_addr [of 10]
    by (intro register_then_login [OF law reg refl]) (simp_all only: draws id none login, simp)
  then show ?thesis unfolding draws using reg by blast
qed

end
