(* ===== verification/Clock.thy ===== *)
theory Clock
  imports Prelude "HOL-Library.Signed_Division"
begin

text \<open>
  The clocks of \<^theory_text>\<open>src/src/clock.cpp\<close> that start the daemons, one tick per timer signal, and the clocks
  that the server and the client register. Starting a thread is an entry of the tick's output. The number of
  ticks until a clock starts its daemon is \<open>click\<close>; a clock that is reset counts from \<open>rawclick\<close> again.
\<close>

datatype daemon = ServerDeamon | DataProcessor | SendPacketProcessor | BoxProcessor | BoxsCleaning
  | PacketProcessor | RequestProcessor | ClientRespond | ClientRequest | ClientWait

record clock_register =
  func :: daemon
  if_thread :: bool
  if_reset :: bool
  click :: int
  rawclick :: int
  arg :: nat

type_synonym start = "daemon \<times> nat"

record clock_state =
  clocks_list :: "clock_register option list"
  thread_map :: "u32 \<rightharpoonup> nat"
  thread_finished :: "u32 list"
  tid_r :: u32
  clock_erase :: nat

definition CLOCKESE :: nat where "CLOCKESE = 30"

definition init_state :: clock_state where
  "init_state = \<lparr>clocks_list = [], thread_map = (\<lambda>_. None), thread_finished = [], tid_r = 0, clock_erase = CLOCKESE\<rparr>"

definition newClock :: "clock_register \<Rightarrow> clock_state \<Rightarrow> clock_state" where
  "newClock pncr s = s\<lparr>clocks_list := clocks_list s @ [Some pncr]\<rparr>"

definition clockThreadFinish :: "u32 \<Rightarrow> clock_state \<Rightarrow> clock_state" where
  "clockThreadFinish tid s = s\<lparr>thread_finished := thread_finished s @ [tid]\<rparr>"

text \<open>\<open>find(tid)->second\<close> of a thread that is not in the map dereferences the end of the map.\<close>

fun join_finished :: "u32 list \<Rightarrow> (u32 \<rightharpoonup> nat) \<Rightarrow> (u32 \<rightharpoonup> nat) res" where
  "join_finished [] m = Inr m"
| "join_finished (tid # tids) m =
     (case m tid of None \<Rightarrow> Inl OutOfBounds | Some _ \<Rightarrow> join_finished tids (m(tid := None)))"

definition clean_clocks :: "clock_state \<Rightarrow> clock_state" where
  "clean_clocks s =
     (if clock_erase s = 0 then s\<lparr>clocks_list := filter (\<lambda>c. c \<noteq> None) (clocks_list s), clock_erase := CLOCKESE\<rparr>
      else s\<lparr>clock_erase := clock_erase s - 1\<rparr>)"

definition run_clock :: "clock_register \<Rightarrow> clock_register option \<times> start list" where
  "run_clock c =
     (if click c = 0 then
        (if if_reset c then Some (c\<lparr>if_thread := True, click := rawclick c\<rparr>) else None, [(func c, arg c)])
      else if 0 < click c then (Some (c\<lparr>click := click c - 1\<rparr>), [])
      else (Some c, []))"

fun run_clocks ::
  "clock_register option list \<Rightarrow> u32 \<Rightarrow> (u32 \<rightharpoonup> nat) \<Rightarrow> clock_register option list \<times> u32 \<times> (u32 \<rightharpoonup> nat) \<times> start list" where
  "run_clocks [] tid m = ([], tid, m, [])"
| "run_clocks (None # cs) tid m = (let (cs, tid, m, st) = run_clocks cs tid m in (None # cs, tid, m, st))"
| "run_clocks (Some c # cs) tid m =
     (let (c, st) = run_clock c;
          (tid, m) = (case st of [] \<Rightarrow> (tid, m)
            | (f, a) # _ \<Rightarrow> (tid + 1, if m tid = None then m(tid \<mapsto> a) else m));
          (cs, tid, m, st') = run_clocks cs tid m
      in (c # cs, tid, m, st @ st'))"

definition threadsClock :: "clock_state \<Rightarrow> (clock_state \<times> start list) res" where
  "threadsClock s =
     bind_res (join_finished (thread_finished s) (thread_map s)) (\<lambda>m.
     let s = clean_clocks (s\<lparr>thread_map := m, thread_finished := []\<rparr>);
         (cs, tid, m, st) = run_clocks (clocks_list s) (tid_r s) (thread_map s)
     in Inr (s\<lparr>clocks_list := cs, tid_r := tid, thread_map := m\<rparr>, st))"

section \<open>The clocks of the server and the client\<close>

text \<open>
  The counts are converted from \<open>double\<close> by truncation; \<open>clicks/1.5+1\<close> is \<open>(2 * clicks + 3) / 3\<close>, and for no
  \<open>int\<close> does the rounding of \<open>double\<close> reach the next integer.
\<close>

definition mk_clock :: "daemon \<Rightarrow> int \<Rightarrow> int \<Rightarrow> nat \<Rightarrow> clock_register" where
  "mk_clock f n r a = \<lparr>func = f, if_thread = True, if_reset = True, click = n, rawclick = r, arg = a\<rparr>"

definition setServerClock :: "nat \<Rightarrow> int \<Rightarrow> clock_state \<Rightarrow> clock_state res" where
  "setServerClock psvr clicks s =
     (if clicks = 0 then Inl (ThrownText ''clock clicks error'')
      else Inr (newClock (mk_clock BoxsCleaning ((clicks + 1) * 5) ((5 * clicks + 2) sdiv 2) psvr)
               (newClock (mk_clock BoxProcessor (clicks + 1) ((2 * clicks + 3) sdiv 3) psvr)
               (newClock (mk_clock SendPacketProcessor (clicks * 2) ((2 * clicks + 3) sdiv 3) psvr)
               (newClock (mk_clock DataProcessor (clicks * 2) (clicks * 2) psvr)
               (newClock (mk_clock ServerDeamon clicks clicks psvr) s))))))"

definition setServerClockForSquare :: "nat \<Rightarrow> int \<Rightarrow> clock_state \<Rightarrow> clock_state res" where
  "setServerClockForSquare psvr clicks s =
     bind_res (setServerClock psvr clicks s) (\<lambda>s.
       Inr (newClock (mk_clock RequestProcessor (clicks * 2 + 7) (clicks sdiv 2) psvr)
           (newClock (mk_clock PacketProcessor (clicks * 2 + 3) (clicks * 2) psvr) s)))"

definition setClientClock :: "nat \<Rightarrow> int \<Rightarrow> clock_state \<Rightarrow> clock_state" where
  "setClientClock pclient clicks s =
     newClock (mk_clock ClientRequest (clicks + 3) (clicks * 2) pclient)
    (newClock (mk_clock ClientRespond clicks clicks pclient) s)"

section \<open>When the daemons start\<close>

fun ticks :: "nat \<Rightarrow> clock_state \<Rightarrow> (clock_state \<times> start list list) res" where
  "ticks 0 s = Inr (s, [])"
| "ticks (Suc n) s = bind_res (threadsClock s) (\<lambda>(s, st). bind_res (ticks n s) (\<lambda>(s, sts). Inr (s, st # sts)))"

definition due :: "clock_register \<Rightarrow> nat \<Rightarrow> bool" where
  "due c i \<longleftrightarrow> int i = click c
     \<or> (if_reset c \<and> 0 \<le> click c \<and> click c < int i \<and> 0 \<le> rawclick c \<and> (int i - click c) mod (rawclick c + 1) = 0)"

definition starts_at :: "clock_register option list \<Rightarrow> nat \<Rightarrow> start list" where
  "starts_at cs i = concat (map (\<lambda>c. case c of None \<Rightarrow> [] | Some c \<Rightarrow> if due c i then [(func c, arg c)] else []) cs)"

lemma due_0: "due c 0 \<longleftrightarrow> click c = 0"
  by (auto simp: due_def)

lemma due_reset:
  assumes "0 \<le> r"
  shows "(int i = r \<or> r < int i \<and> (int i - r) mod (r + 1) = 0) \<longleftrightarrow> (int i + 1) mod (r + 1) = (0 :: int)"
proof -
  have "(int i + 1) mod (r + 1) = (int i - r) mod (r + 1)"
    using mod_add_self2 [of "int i - r" "r + 1"] by simp
  moreover have "(int i - r) mod (r + 1) \<noteq> 0" if "int i < r"
  proof -
    have "(int i + 1) mod (r + 1) = int i + 1" using that by (intro mod_pos_pos_trivial) simp_all
    with calculation show ?thesis by simp
  qed
  ultimately show ?thesis by force
qed

lemma due_step:
  assumes "run_clock c = (c', st)"
  shows "st = (if due c 0 then [(func c, arg c)] else [])"
    and "(case c' of None \<Rightarrow> \<not> due c (Suc i)
      | Some d \<Rightarrow> due d i = due c (Suc i) \<and> func d = func c \<and> arg d = arg c)"
proof -
  show "st = (if due c 0 then [(func c, arg c)] else [])"
    using assms by (auto simp: run_clock_def due_0 split: if_splits)
  consider "click c = 0" "if_reset c" | "click c = 0" "\<not> if_reset c" | "0 < click c" | "click c < 0" by linarith
  then show "(case c' of None \<Rightarrow> \<not> due c (Suc i)
      | Some d \<Rightarrow> due d i = due c (Suc i) \<and> func d = func c \<and> arg d = arg c)"
  proof cases
    case 1
    then show ?thesis using assms due_reset [of "rawclick c" i]
      by (cases "0 \<le> rawclick c") (auto simp: run_clock_def due_def add.commute)
  next
    case 2
    then show ?thesis using assms by (auto simp: run_clock_def due_def)
  next
    case 3
    then show ?thesis using assms by (auto simp: run_clock_def due_def algebra_simps)
  next
    case 4
    then show ?thesis using assms by (auto simp: run_clock_def due_def)
  qed
qed

lemma run_clocks_starts:
  "run_clocks cs tid m = (cs', tid', m', st) \<Longrightarrow> st = starts_at cs 0 \<and> (\<forall>i. starts_at cs' i = starts_at cs (Suc i))"
proof (induction cs tid m arbitrary: cs' tid' m' st rule: run_clocks.induct)
  case (3 c cs tid m)
  obtain d st1 where d: "run_clock c = (d, st1)" by (cases "run_clock c")
  define t1 m1 where "t1 = (case st1 of [] \<Rightarrow> tid | _ \<Rightarrow> tid + 1)"
    and "m1 = (case st1 of [] \<Rightarrow> m | (f, a) # _ \<Rightarrow> if m tid = None then m(tid \<mapsto> a) else m)"
  have tm: "(case st1 of [] \<Rightarrow> (tid, m) | (f, a) # _ \<Rightarrow> (tid + 1, if m tid = None then m(tid \<mapsto> a) else m)) = (t1, m1)"
    by (auto simp: t1_def m1_def split: list.splits prod.splits)
  obtain cs2 t2 m2 st2 where r: "run_clocks cs t1 m1 = (cs2, t2, m2, st2)" by (cases "run_clocks cs t1 m1") auto
  have out: "cs' = d # cs2" "st = st1 @ st2" using "3.prems" d tm r by (auto simp: Let_def)
  have ih: "st2 = starts_at cs 0 \<and> (\<forall>i. starts_at cs2 i = starts_at cs (Suc i))"
    using "3.IH" [OF d [symmetric] refl tm [symmetric] refl r] by simp
  have "(case d of None \<Rightarrow> [] | Some c \<Rightarrow> if due c i then [(func c, arg c)] else [])
      = (if due c (Suc i) then [(func c, arg c)] else [])" for i
    using due_step(2) [OF d, of i] by (cases d) auto
  then show ?case using ih out due_step(1) [OF d] by (simp add: starts_at_def)
qed (auto simp: starts_at_def Let_def split: prod.splits)

lemma starts_at_clean: "starts_at (filter (\<lambda>c. c \<noteq> None) cs) i = starts_at cs i"
  by (induction cs) (auto simp: starts_at_def)

lemma threadsClock_starts:
  assumes "thread_finished s = []"
  shows "\<exists>s'. threadsClock s = Inr (s', starts_at (clocks_list s) 0) \<and> thread_finished s' = []
    \<and> (\<forall>i. starts_at (clocks_list s') i = starts_at (clocks_list s) (Suc i))"
proof -
  let ?s = "clean_clocks s"
  obtain cs tid m st where r: "run_clocks (clocks_list ?s) (tid_r ?s) (thread_map ?s) = (cs, tid, m, st)"
    by (cases "run_clocks (clocks_list ?s) (tid_r ?s) (thread_map ?s)") auto
  have "starts_at (clocks_list ?s) i = starts_at (clocks_list s) i" for i
    by (simp add: clean_clocks_def starts_at_clean del: not_None_eq)
  moreover have "thread_finished ?s = []" using assms by (simp add: clean_clocks_def)
  moreover have eq: "s\<lparr>thread_finished := []\<rparr> = s" using assms by (cases s) simp
  have "threadsClock s = Inr (?s\<lparr>clocks_list := cs, tid_r := tid, thread_map := m\<rparr>, st)"
    by (simp add: threadsClock_def assms eq r Let_def)
  ultimately show ?thesis using run_clocks_starts [OF r] by simp
qed



end
