(* ===== verification/Sockets.thy ===== *)
theory Sockets
  imports RawData
begin

text \<open>
  The socket classes of \<^theory_text>\<open>src/src/socket.cpp\<close>: \<open>SocketUDPServer\<close>, \<open>SocketTCPCServer\<close> and
  \<open>SocketTCPClient\<close>. What the operating system answers to \<open>recv\<close>, \<open>recvfrom\<close>, \<open>read\<close> and \<open>send\<close> is an
  argument; the buffers, the framing of long strings and the assembly of received ones are the code's. A block from
  \<open>malloc\<close> is a list of optional bytes, \<open>None\<close> for a byte that was never written. The strings of \<open>Recv\<close> are
  lists of bytes.
\<close>

type_synonym block = "byte option list"

text \<open>What a blocking or non-blocking read returns: an error (with \<open>EAGAIN\<close> or not) or some bytes.\<close>

datatype recv_result = RecvError bool | Received "byte list"

section \<open>UDP\<close>

record udp_server =
  u_buff :: "byte list"
  u_addr :: addr
  set_fcntl :: bool

definition UDPSetFCNTL :: "udp_server \<Rightarrow> udp_server" where
  "UDPSetFCNTL u = u\<lparr>set_fcntl := True\<rparr>"

definition overlay :: "'a list \<Rightarrow> 'a list \<Rightarrow> 'a list" where
  "overlay xs buf = xs @ drop (length xs) buf"

definition terminated :: "byte list \<Rightarrow> byte list res" where
  "terminated buf = (if 0 \<in> set buf then Inr (takeWhile (\<lambda>b. b \<noteq> 0) buf) else Inl OutOfBounds)"

text \<open>
  The string is copied out of the buffer as a C string before the terminating NUL is written behind the received
  bytes, so it may hold bytes of an earlier datagram.
\<close>

definition take_string :: "byte list \<Rightarrow> udp_server \<Rightarrow> (int \<times> byte list option \<times> udp_server) res" where
  "take_string got u =
     (let buf = overlay got (u_buff u) in
      bind_res (terminated buf) (\<lambda>str.
        if length got < BUFSIZ then Inr (1, Some str, u\<lparr>u_buff := buf[length got := 0]\<rparr>) else Inl OutOfBounds))"

definition udp_Recv :: "recv_result \<Rightarrow> sockaddr_in \<Rightarrow> udp_server \<Rightarrow> (int \<times> byte list option \<times> udp_server) res" where
  "udp_Recv r from u =
     (if set_fcntl u then
        (case r of
           RecvError again \<Rightarrow> Inr (if again then 0 else - 1, None, u)
         | Received got \<Rightarrow> if got = [] then Inr (0, None, u\<lparr>u_addr := SetSockAddr from (u_addr u)\<rparr>)
             else take_string got (u\<lparr>u_addr := SetSockAddr from (u_addr u)\<rparr>))
      else
        (case r of
           RecvError again \<Rightarrow> Inr (- 1, None, u)
         | Received got \<Rightarrow> take_string got (u\<lparr>u_addr := SetSockAddr from (u_addr u)\<rparr>)))"

text \<open>
  \<open>RecvRAW\<close> returns the size, the pointer it leaves in \<open>*p_rdt\<close> and the address of the sender. The blocking branch
  copies the datagram over the pointer variable instead of into the new block: up to eight bytes change the pointer,
  more of them run over it.
\<close>

datatype raw_ptr = NullPtr | Block block | Smashed "byte list"

definition udp_RecvRAW :: "recv_result \<Rightarrow> sockaddr_in \<Rightarrow> addr \<Rightarrow> udp_server \<Rightarrow>
    (int \<times> raw_ptr \<times> addr \<times> udp_server) res" where
  "udp_RecvRAW r from taddr u =
     (if set_fcntl u then
        (case r of
           RecvError again \<Rightarrow> Inr (if again then 0 else - 1, NullPtr, taddr, u)
         | Received got \<Rightarrow>
             if got = [] then Inr (0, NullPtr, taddr, u)
             else Inr (int (length got), Block (map Some got), SetSockAddr from taddr,
                       u\<lparr>u_buff := overlay got (u_buff u)\<rparr>))
      else
        (case r of
           RecvError again \<Rightarrow> Inr (- 1, NullPtr, taddr, u)
         | Received got \<Rightarrow>
             (let u = u\<lparr>u_addr := SetSockAddr from (u_addr u), u_buff := overlay got (u_buff u)\<rparr> in
              if got = [] then Inr (0, Block [], taddr, u)
              else if length got \<le> 8 then Inr (int (length got), Smashed got, taddr, u)
              else Inl OutOfBounds)))"

section \<open>TCP: sending\<close>

definition tag :: "string \<Rightarrow> byte list" where
  "tag s = bytes_of s"

text \<open>
  One turn of the sending loop: the frame from position \<open>idx\<close> and the position behind it. \<open>nidx\<close> is the last
  position the frame takes; all frames but the last carry 1001 bytes.
\<close>

definition frame :: "byte list \<Rightarrow> nat \<Rightarrow> byte list \<times> nat" where
  "frame data idx =
     (let more = idx + 1000 < length data - 1;
          nidx = (if more then idx + 1000 else length data - 1)
      in (tag (if idx = 0 then ''DSAT'' else ''DCST'') @ take (nidx - idx + 1) (drop idx data)
            @ tag (if more then ''DCTN'' else ''DFSH''), nidx + 1))"

text \<open>
  The answer to each frame goes into \<open>gbuff\<close>, an array of 1024 bytes, although \<open>recv\<close> is allowed to write
  \<open>BUFSIZ\<close>. The result is the list of frames that were sent and whether all of them were acknowledged.
\<close>

function seg_loop :: "byte list \<Rightarrow> recv_result list \<Rightarrow> byte list \<Rightarrow> nat \<Rightarrow> (byte list list \<times> bool) res" where
  "seg_loop data acks gbuff idx =
     (if idx < length data - 1 then
        (case acks of
           Received got # acks' \<Rightarrow>
             if length gbuff < length got then Inl OutOfBounds
             else if got \<noteq> [] \<and> take 4 (overlay got gbuff) = tag ''DGET'' then
               bind_res (seg_loop data acks' (overlay got gbuff) (snd (frame data idx)))
                 (\<lambda>(fs, ok). Inr (fst (frame data idx) # fs, ok))
             else Inr ([fst (frame data idx)], False)
         | _ \<Rightarrow> Inr ([fst (frame data idx)], False))
      else Inr ([], True))"
  by pat_completeness auto
termination
  by (relation "measure (\<lambda>(data, acks, gbuff, idx). length data - idx)") (auto simp: frame_def Let_def)

declare seg_loop.simps [simp del]

definition tcp_SendRAW :: "byte list \<Rightarrow> recv_result list \<Rightarrow> byte list \<Rightarrow> int \<Rightarrow> (byte list list \<times> int) res" where
  "tcp_SendRAW data acks junk send_size =
     (if 1023 < length data then
        bind_res (seg_loop data acks junk 0) (\<lambda>(fs, ok). Inr (fs, if ok then int (length data) else - 1))
      else Inr ([data], send_size))"

text \<open>\<open>SocketTCPClient::Send\<close> throws when \<open>send\<close> took fewer bytes.\<close>

definition tcp_Send :: "byte list \<Rightarrow> int \<Rightarrow> (byte list) res" where
  "tcp_Send str len = (if len \<noteq> int (length str) then Inl (ThrownText ''size unmatch'') else Inr str)"

section \<open>TCP: receiving\<close>

text \<open>\<open>read\<close> until the connection ends (an empty result) or fails; \<open>str\<close> is extended.\<close>

fun tcp_Recv :: "recv_result list \<Rightarrow> byte list \<Rightarrow> nat \<Rightarrow> byte list \<times> nat" where
  "tcp_Recv (Received (b # bs) # rs) str bdtas = tcp_Recv rs (str @ b # bs) (bdtas + length (b # bs))"
| "tcp_Recv _ str bdtas = (str, bdtas)"

definition realloc :: "nat \<Rightarrow> block \<Rightarrow> block" where
  "realloc n p = take n p @ replicate (n - length p) None"

definition write_at :: "nat \<Rightarrow> byte list \<Rightarrow> block \<Rightarrow> block" where
  "write_at off xs p = take off p @ map Some xs @ drop (off + length xs) p"

text \<open>\<open>RecvRAW\<close>, for short connections: the received pieces are joined.\<close>

fun raw_pieces :: "recv_result list \<Rightarrow> block option \<Rightarrow> nat \<Rightarrow> block option \<times> nat" where
  "raw_pieces (Received (b # bs) # rs) p bdtas =
     (let n = length (b # bs);
          p' = (case p of None \<Rightarrow> map Some (b # bs)
                | Some q \<Rightarrow> write_at bdtas (b # bs) (realloc (bdtas + n) q))
      in raw_pieces rs (Some p') (bdtas + n))"
| "raw_pieces _ p bdtas = (p, bdtas)"

definition tcp_RecvRAW :: "recv_result list \<Rightarrow> block option \<times> nat" where
  "tcp_RecvRAW rs = raw_pieces rs None 0"

text \<open>\<open>RecvRAW_SM\<close>, for long connections: the state of its loop, with the answers it sent.\<close>

record sm =
  sm_buff :: "byte list"
  sm_rdt :: "block option"
  sm_bdtas :: nat
  dsat :: bool
  dfsh :: bool
  if_signal :: bool
  sm_sent :: "byte list list"

definition sm_start :: "byte list \<Rightarrow> sm" where
  "sm_start buf = \<lparr>sm_buff = buf, sm_rdt = None, sm_bdtas = 0, dsat = False, dfsh = False, if_signal = False, sm_sent = []\<rparr>"

text \<open>
  The signals are looked for in the whole buffer, the end mark in the last four received bytes. Sizes below the
  eight bytes of framing become huge as a \<open>size_t\<close>: \<open>malloc\<close> then returns a null pointer, and \<open>memcpy\<close> writes there.
\<close>

definition sm_signals :: "byte list \<Rightarrow> sm \<Rightarrow> sm res" where
  "sm_signals got s =
     (let buf = overlay got (sm_buff s);
          netc = (take 4 buf = tag ''NETC'')
      in if length got < 4 then Inl OutOfBounds
         else Inr (s\<lparr>sm_buff := buf, if_signal := if_signal s \<or> netc,
                dsat := dsat s \<or> netc \<or> take 4 buf = tag ''DSAT'',
                dfsh := dfsh s \<or> netc \<or> take 4 (drop (length got - 4) buf) = tag ''DFSH''\<rparr>))"

definition sm_store :: "byte list \<Rightarrow> sm \<Rightarrow> sm res" where
  "sm_store got s =
     (let n = length got in
      if \<not> dsat s then Inr (s\<lparr>sm_bdtas := sm_bdtas s + n\<rparr>)
      else let s = s\<lparr>sm_sent := sm_sent s @ [tag ''DGET'']\<rparr> in
        (case sm_rdt s of
           None \<Rightarrow>
             if if_signal s then Inr (s\<lparr>sm_rdt := Some (map Some got), sm_bdtas := sm_bdtas s + n\<rparr>)
             else if n < 8 then Inl NullDeref
             else Inr (s\<lparr>sm_rdt := Some (map Some (take (n - 8) (drop 4 (sm_buff s)))), sm_bdtas := sm_bdtas s + n\<rparr>)
         | Some p \<Rightarrow>
             if n < 8 then Inl OutOfBounds
             else Inr (s\<lparr>sm_rdt := Some (write_at (sm_bdtas s) (take (n - 8) (drop 4 (sm_buff s)))
                                         (realloc (sm_bdtas s + (n - 8)) p)),
                         sm_bdtas := sm_bdtas s + n\<rparr>)))"

fun sm_loop :: "recv_result list \<Rightarrow> sm \<Rightarrow> (sm \<times> recv_result list) res" where
  "sm_loop (Received (b # bs) # rs) s =
     (if dfsh s then Inr (s, Received (b # bs) # rs)
      else bind_res (sm_signals (b # bs) s) (\<lambda>s. bind_res (sm_store (b # bs) s) (sm_loop rs)))"
| "sm_loop rs s = Inr (s, if dfsh s then rs else tl rs)"

definition tcp_RecvRAW_SM :: "recv_result list \<Rightarrow> byte list \<Rightarrow> (block option \<times> nat \<times> byte list list \<times> recv_result list) res" where
  "tcp_RecvRAW_SM rs buf =
     bind_res (sm_loop rs (sm_start buf)) (\<lambda>(s, rest). Inr (sm_rdt s, sm_bdtas s, sm_sent s, rest))"

definition tcp_client_RecvRAW :: "recv_result \<Rightarrow> block option \<Rightarrow> int \<times> block option" where
  "tcp_client_RecvRAW r p =
     (case r of Received (b # bs) \<Rightarrow> (int (length (b # bs)), Some (map Some (b # bs)))
      | Received [] \<Rightarrow> (0, p) | RecvError _ \<Rightarrow> (- 1, p))"

definition GetRespond :: "recv_result \<Rightarrow> byte list" where
  "GetRespond r = (case r of Received got \<Rightarrow> got | RecvError _ \<Rightarrow> [])"

section \<open>What a long string looks like at the receiver\<close>

definition framing :: "bool \<Rightarrow> bool \<Rightarrow> byte list \<Rightarrow> byte list" where
  "framing first final b = tag (if first then ''DSAT'' else ''DCST'') @ b @ tag (if final then ''DFSH'' else ''DCTN'')"

text \<open>The frames of the pieces \<open>bs\<close>; the last of them is marked as the end when \<open>e\<close> holds.\<close>

fun frames_of :: "bool \<Rightarrow> bool \<Rightarrow> byte list list \<Rightarrow> byte list list" where
  "frames_of f e [] = []"
| "frames_of f e (b # bs) = framing f (bs = [] \<and> e) b # frames_of False e bs"

definition acknowledged :: "recv_result list \<Rightarrow> bool" where
  "acknowledged acks \<longleftrightarrow> (\<forall>a \<in> set acks. a = Received (tag ''DGET''))"

lemma length_tag [simp]: "length (tag s) = length s"
  by (simp add: tag_def)

lemma tag_neq: "tag ''DSAT'' \<noteq> tag ''NETC''" "tag ''DCST'' \<noteq> tag ''NETC''" "tag ''DCST'' \<noteq> tag ''DSAT''"
  "tag ''DCTN'' \<noteq> tag ''DFSH''"
  by (simp_all add: tag_def bytes_of_def code_def)

lemma seg_loop_end: "\<not> idx < length data - 1 \<Longrightarrow> seg_loop data acks gbuff idx = Inr ([], True)"
  by (subst seg_loop.simps) (rule if_not_P)

lemma overlay_get:
  "length gbuff = 1024 \<Longrightarrow> length (overlay (tag ''DGET'') gbuff) = 1024"
  "take 4 (overlay (tag ''DGET'') gbuff) = tag ''DGET''" "tag ''DGET'' \<noteq> []"
  by (simp_all add: overlay_def tag_def bytes_of_def)

lemma seg_loop_ack:
  assumes "idx < length data - 1" "length gbuff = 1024"
  shows "seg_loop data (Received (tag ''DGET'') # acks) gbuff idx =
    bind_res (seg_loop data acks (overlay (tag ''DGET'') gbuff) (snd (frame data idx)))
      (\<lambda>(fs, ok). Inr (fst (frame data idx) # fs, ok))"
  using assms overlay_get by (subst seg_loop.simps) simp

lemma frame_piece:
  assumes "idx < length data - 1"
  shows "frame data idx = (framing (idx = 0) (\<not> idx + 1000 < length data - 1) (take 1001 (drop idx data)),
    if idx + 1000 < length data - 1 then idx + 1001 else length data)"
  using assms by (auto simp: frame_def framing_def Let_def)

lemma seg_loop_frames:
  assumes "acknowledged acks" "length data - idx \<le> 1001 * length acks" "length gbuff = 1024" "idx < length data - 1"
    and "e \<longleftrightarrow> (length data - idx) mod 1001 \<noteq> 1"
  shows "\<exists>bs. seg_loop data acks gbuff idx = Inr (frames_of (idx = 0) e bs, True)
    \<and> concat bs = take (if e then length data - idx else length data - idx - 1) (drop idx data)
    \<and> [] \<notin> set bs \<and> length bs = (length data - idx + 999) div 1001"
  using assms
proof (induction acks arbitrary: gbuff idx)
  case (Cons a acks)
  let ?n = "length data - idx" and ?g = "overlay (tag ''DGET'') gbuff" and ?b = "take 1001 (drop idx data)"
  have acks: "a = Received (tag ''DGET'')" "acknowledged acks"
    using Cons.prems(1) by (simp_all add: acknowledged_def)
  note step = seg_loop_ack [OF Cons.prems(4,3), of acks, folded acks(1)] frame_piece [OF Cons.prems(4)]
  consider (last) "\<not> idx + 1000 < length data - 1" | (lost) "?n = 1002" | (more) "idx + 1001 < length data - 1"
    by linarith
  then show ?case
  proof cases
    case last
    then have "e" using Cons.prems(4,5) by (cases "?n = 1001") auto
    moreover have "(?n + 999) div 1001 = 1" using last Cons.prems(4) by (intro div_nat_eqI) auto
    moreover have "seg_loop data acks ?g (length data) = Inr ([], True)" by (rule seg_loop_end) simp
    ultimately show ?thesis using step last Cons.prems(4) by (intro exI [of _ "[?b]"]) auto
  next
    case lost
    then have "\<not> e" using Cons.prems(5) by simp
    moreover have "seg_loop data acks ?g (idx + 1001) = Inr ([], True)" using lost by (intro seg_loop_end) simp
    ultimately show ?thesis using step lost by (intro exI [of _ "[?b]"]) auto
  next
    case more
    then have n: "?n = (length data - (idx + 1001)) + 1001" by simp
    have e: "e \<longleftrightarrow> (length data - (idx + 1001)) mod 1001 \<noteq> 1" unfolding Cons.prems(5) by (subst n) simp
    have "\<exists>bs. seg_loop data acks ?g (idx + 1001) = Inr (frames_of (idx + 1001 = 0) e bs, True)
        \<and> concat bs = take (if e then length data - (idx + 1001) else length data - (idx + 1001) - 1) (drop (idx + 1001) data)
        \<and> [] \<notin> set bs \<and> length bs = (length data - (idx + 1001) + 999) div 1001"
      by (rule Cons.IH [OF acks(2) _ overlay_get(1) [OF Cons.prems(3)] more e]) (use Cons.prems(2) in simp)
    then obtain bs where bs: "seg_loop data acks ?g (idx + 1001) = Inr (frames_of False e bs, True)"
      "concat bs = take (if e then length data - (idx + 1001) else length data - (idx + 1001) - 1) (drop (idx + 1001) data)"
      "[] \<notin> set bs" "length bs = (length data - (idx + 1001) + 999) div 1001" by auto
    have "bs \<noteq> []" using bs(4) more by auto
    moreover have "concat (?b # bs) = take (if e then ?n else ?n - 1) (drop idx data)"
    proof -
      have "take k (drop idx data) = ?b @ take (k - 1001) (drop (idx + 1001) data)" if "1001 \<le> k" for k
        using that take_add [of 1001 "k - 1001" "drop idx data"] by (simp add: add.commute)
      from this [of ?n] this [of "?n - 1"] show ?thesis using bs(2) more by (cases e) simp_all
    qed
    moreover have "length (?b # bs) = (?n + 999) div 1001"
      using bs(4) by (subst n) simp
    ultimately show ?thesis using step bs(1,3) more by (intro exI [of _ "?b # bs"]) auto
  qed
qed simp

lemma length_framing [simp]: "length (framing f e b) = length b + 8"
  by (simp add: framing_def)

lemma framing_parts:
  "take 4 (overlay (framing f e b) buf) = tag (if f then ''DSAT'' else ''DCST'')"
  "take (length b) (drop 4 (overlay (framing f e b) buf)) = b"
  "take 4 (drop (4 + length b) (overlay (framing f e b) buf)) = tag (if e then ''DFSH'' else ''DCTN'')"
proof -
  have "overlay (framing f e b) buf = tag (if f then ''DSAT'' else ''DCST'') @ b @ tag (if e then ''DFSH'' else ''DCTN'')
      @ drop (length (framing f e b)) buf"
    by (simp add: overlay_def framing_def)
  then show "take 4 (overlay (framing f e b) buf) = tag (if f then ''DSAT'' else ''DCST'')"
    "take (length b) (drop 4 (overlay (framing f e b) buf)) = b"
    "take 4 (drop (4 + length b) (overlay (framing f e b) buf)) = tag (if e then ''DFSH'' else ''DCTN'')"
    by simp_all
qed

lemma sm_signals_framing:
  "sm_signals (framing f e b) s = Inr (s\<lparr>sm_buff := overlay (framing f e b) (sm_buff s),
     dsat := dsat s \<or> f, dfsh := dfsh s \<or> e\<rparr>)"
  by (cases f; cases e; cases s) (simp_all add: sm_signals_def Let_def framing_parts tag_neq tag_neq [symmetric])

lemma write_at_end: "write_at (length p + 8) b (realloc (length p + 8 + length b) p) = p @ replicate 8 None @ map Some b"
proof -
  have "realloc (length p + 8 + length b) p = p @ replicate 8 None @ replicate (length b) None"
    by (simp add: realloc_def replicate_add [symmetric])
  then show ?thesis by (simp add: write_at_def)
qed

lemma sm_loop_received:
  "got \<noteq> [] \<Longrightarrow> \<not> dfsh s \<Longrightarrow>
     sm_loop (Received got # rs) s = bind_res (sm_signals got s) (\<lambda>s. bind_res (sm_store got s) (sm_loop rs))"
  by (cases got) simp_all

text \<open>Frames after the first: each leaves eight bytes of its block unwritten.\<close>

lemma sm_loop_frames:
  assumes "dsat s" "\<not> dfsh s" "\<not> if_signal s" "sm_rdt s = Some p" "sm_bdtas s = length p + 8"
  shows "\<exists>buf. sm_loop (map Received (frames_of False e bs) @ rs) s =
    sm_loop rs (s\<lparr>sm_buff := buf, sm_rdt := Some (p @ concat (map (\<lambda>b. replicate 8 None @ map Some b) bs)),
      sm_bdtas := length p + 8 + sum_list (map (\<lambda>b. length b + 8) bs), dfsh := e \<and> bs \<noteq> [],
      sm_sent := sm_sent s @ replicate (length bs) (tag ''DGET'')\<rparr>)"
  using assms
proof (induction bs arbitrary: s p)
  case Nil
  have "s\<lparr>sm_buff := sm_buff s, sm_rdt := Some p, sm_bdtas := length p + 8, dfsh := False, sm_sent := sm_sent s\<rparr> = s"
    using Nil by (cases s) simp
  then show ?case by (intro exI [of _ "sm_buff s"]) simp
next
  case (Cons b bs)
  let ?f = "framing False (bs = [] \<and> e) b"
  let ?s1 = "s\<lparr>sm_buff := overlay ?f (sm_buff s), dfsh := bs = [] \<and> e\<rparr>"
  let ?s2 = "?s1\<lparr>sm_rdt := Some (p @ replicate 8 None @ map Some b), sm_bdtas := length p + length b + 16,
     sm_sent := sm_sent s @ [tag ''DGET'']\<rparr>"
  have sig: "sm_signals ?f s = Inr ?s1"
    using Cons.prems(1,2) by (cases s) (simp add: sm_signals_framing)
  have st: "sm_store ?f ?s1 = Inr ?s2"
    using Cons.prems write_at_end [of p b] framing_parts(2) [of b False "bs = [] \<and> e" "sm_buff s"]
    by (simp add: sm_store_def Let_def)
  have "?f \<noteq> []" by (simp add: framing_def tag_def bytes_of_def)
  then have step: "sm_loop (map Received (frames_of False e (b # bs)) @ rs) s =
      sm_loop (map Received (frames_of False e bs) @ rs) ?s2"
    using Cons.prems(2) sig st by (simp add: sm_loop_received)
  show ?case
  proof (cases "bs = []")
    case True
    then show ?thesis unfolding step
      by (intro exI [of _ "overlay ?f (sm_buff s)"], cases s) (simp add: add.commute)
  next
    case False
    have "\<exists>buf. sm_loop (map Received (frames_of False e bs) @ rs) ?s2 =
      sm_loop rs (?s2\<lparr>sm_buff := buf, sm_rdt := Some ((p @ replicate 8 None @ map Some b) @ concat (map (\<lambda>b. replicate 8 None @ map Some b) bs)),
        sm_bdtas := length (p @ replicate 8 None @ map Some b) + 8 + sum_list (map (\<lambda>b. length b + 8) bs), dfsh := e \<and> bs \<noteq> [],
        sm_sent := sm_sent ?s2 @ replicate (length bs) (tag ''DGET'')\<rparr>)"
      by (rule Cons.IH) (use Cons.prems False in simp_all)
    then show ?thesis unfolding step using False by (cases s) (simp add: algebra_simps)
  qed
qed

lemma sm_first_frame:
  "sm_loop (Received (framing True e b) # rs) (sm_start buf) =
    sm_loop rs \<lparr>sm_buff = overlay (framing True e b) buf, sm_rdt = Some (map Some b), sm_bdtas = length b + 8,
      dsat = True, dfsh = e, if_signal = False, sm_sent = [tag ''DGET'']\<rparr>"
proof -
  have "framing True e b \<noteq> []" by (simp add: framing_def tag_def bytes_of_def)
  then show ?thesis
    by (simp add: sm_loop_received sm_start_def sm_signals_framing sm_store_def framing_parts(2))
qed

text \<open>What the frames of some pieces leave at the receiver; \<open>e\<close> tells whether the end mark was sent.\<close>

lemma RecvRAW_SM_frames:
  assumes "bs \<noteq> []"
  shows "tcp_RecvRAW_SM (map Received (frames_of True e bs)) buf =
    Inr (Some (map Some (hd bs) @ concat (map (\<lambda>b. replicate 8 None @ map Some b) (tl bs))),
      sum_list (map (\<lambda>b. length b + 8) bs), replicate (length bs) (tag ''DGET''), [])"
proof (cases bs)
  case (Cons b cs)
  let ?s = "\<lparr>sm_buff = overlay (framing True (cs = [] \<and> e) b) buf, sm_rdt = Some (map Some b), sm_bdtas = length b + 8,
      dsat = True, dfsh = cs = [] \<and> e, if_signal = False, sm_sent = [tag ''DGET'']\<rparr>"
  show ?thesis
  proof (cases "cs = []")
    case True
    then show ?thesis by (simp add: Cons tcp_RecvRAW_SM_def sm_first_frame)
  next
    case False
    then have "\<exists>buf'. sm_loop (map Received (frames_of False e cs) @ []) ?s =
      sm_loop [] (?s\<lparr>sm_buff := buf', sm_rdt := Some (map Some b @ concat (map (\<lambda>b. replicate 8 None @ map Some b) cs)),
        sm_bdtas := length (map Some b) + 8 + sum_list (map (\<lambda>b. length b + 8) cs), dfsh := e \<and> cs \<noteq> [],
        sm_sent := sm_sent ?s @ replicate (length cs) (tag ''DGET'')\<rparr>)"
      by (intro sm_loop_frames) simp_all
    then show ?thesis by (auto simp: Cons tcp_RecvRAW_SM_def sm_first_frame False)
  qed
qed (use assms in simp)

lemma sum_framed: "sum_list (map (\<lambda>b. length b + 8) bs) = length (concat bs) + 8 * length bs"
  by (induction bs) simp_all

lemma gaps:
  "map the (filter (\<lambda>x. x \<noteq> None) (concat (map (\<lambda>b. replicate 8 None @ map Some b) bs))) = concat bs"
  "length (concat (map (\<lambda>b. replicate 8 None @ map Some b) bs)) = length (concat bs) + 8 * length bs"
  by (induction bs) (simp_all add: filter_map comp_def)

lemma length_frames_of [simp]: "length (frames_of f e bs) = length bs"
  by (induction bs arbitrary: f) simp_all

text \<open>A transfer of a long string: the frames sent, and what the receiver makes of them.\<close>

lemma tcp_transfer:
  assumes "1023 < length data" "acknowledged acks" "length data \<le> 1001 * length acks" "length junk = 1024"
    and "k = (if length data mod 1001 = 1 then length data - 1 else length data)"
  shows "\<exists>fs p. tcp_SendRAW data acks junk sz = Inr (fs, int (length data))
    \<and> tcp_RecvRAW_SM (map Received fs) buf
        = Inr (Some p, k + 8 * length fs, replicate (length fs) (tag ''DGET''), [])
    \<and> length p = k + 8 * (length fs - 1) \<and> length fs = (length data + 999) div 1001
    \<and> map the (filter (\<lambda>x. x \<noteq> None) p) = take k data"
proof -
  let ?e = "length data mod 1001 \<noteq> 1"
  from seg_loop_frames [of acks data 0 junk ?e] assms obtain bs where
    bs: "seg_loop data acks junk 0 = Inr (frames_of True ?e bs, True)" "concat bs = take k data"
      "length bs = (length data + 999) div 1001"
    by (auto split: if_splits)
  from bs(3) have ne: "bs \<noteq> []" using assms(1) by auto
  have cc: "hd bs @ concat (tl bs) = take k data" using bs(2) ne by (cases bs) auto
  have k: "length (concat bs) = k" using bs(2) assms(5) by auto
  let ?p = "map Some (hd bs) @ concat (map (\<lambda>b. replicate 8 None @ map Some b) (tl bs))"
  have "length ?p = k + 8 * (length bs - 1)"
    using arg_cong [OF cc, of length] bs(2) k by (simp add: gaps)
  moreover have "map the (filter (\<lambda>x. x \<noteq> None) ?p) = take k data"
    using cc by (simp add: gaps filter_map comp_def del: not_None_eq)
  moreover have "tcp_SendRAW data acks junk sz = Inr (frames_of True ?e bs, int (length data))"
    using assms(1) bs(1) by (simp add: tcp_SendRAW_def)
  ultimately show ?thesis
    using RecvRAW_SM_frames [OF ne, of ?e buf] bs(3) by (intro exI [of _ "frames_of True ?e bs"] exI [of _ ?p]) (simp add: sum_framed k)
qed

text \<open>
  C38. A string of more than 1023 bytes never arrives as it was sent over TCP, although every frame is acknowledged
  and \<open>SendRAW\<close> reports success: the receiver keeps the eight bytes of framing of every piece in its count, leaves
  gaps of eight unwritten bytes between the pieces, and reports eight bytes more than its block holds. When the size
  is 1 above a multiple of 1001 the last byte and the end mark are not even sent.
\<close>

theorem tcp_long_string_garbled:
  assumes "1023 < length data" "acknowledged acks" "length data \<le> 1001 * length acks" "length junk = 1024"
  shows "\<exists>fs p n. tcp_SendRAW data acks junk sz = Inr (fs, int (length data))
    \<and> tcp_RecvRAW_SM (map Received fs) buf = Inr (Some p, n, replicate (length fs) (tag ''DGET''), [])
    \<and> n = length p + 8 \<and> p \<noteq> map Some data
    \<and> map the (filter (\<lambda>x. x \<noteq> None) p) = (if length data mod 1001 = 1 then butlast data else data)
    \<and> length p = length (filter (\<lambda>x. x \<noteq> None) p) + 8 * ((length data + 999) div 1001 - 1)"
proof -
  define k where "k = (if length data mod 1001 = 1 then length data - 1 else length data)"
  from tcp_transfer [OF assms k_def, of sz buf] obtain fs p where
    t: "tcp_SendRAW data acks junk sz = Inr (fs, int (length data))"
      "tcp_RecvRAW_SM (map Received fs) buf = Inr (Some p, k + 8 * length fs, replicate (length fs) (tag ''DGET''), [])"
      "length p = k + 8 * (length fs - 1)" "length fs = (length data + 999) div 1001"
      "map the (filter (\<lambda>x. x \<noteq> None) p) = take k data" by blast
  have fs: "1 < length fs" using t(4) assms(1) by simp
  have "k \<le> length data" "length data \<le> k + 1" using assms(1) by (auto simp: k_def)
  then have ne: "p \<noteq> map Some data" using t(3) fs by auto
  have "length (filter (\<lambda>x. x \<noteq> None) p) = k"
    using arg_cong [OF t(5), of length] \<open>k \<le> length data\<close> by simp
  moreover have "take k data = (if length data mod 1001 = 1 then butlast data else data)"
    by (simp add: k_def butlast_conv_take)
  ultimately show ?thesis using t ne fs
    by (intro exI [of _ fs] exI [of _ p] exI [of _ "k + 8 * length fs"]) simp
qed

theorem tcp_long_string_garbled_witness:
  "\<exists>fs p n. tcp_SendRAW (replicate 1024 7) (replicate 2 (Received (tag ''DGET''))) (replicate 1024 0) 0 = Inr (fs, 1024)
    \<and> tcp_RecvRAW_SM (map Received fs) (replicate 8192 0) = Inr (Some p, n, replicate (length fs) (tag ''DGET''), [])
    \<and> n = length p + 8 \<and> p \<noteq> map Some (replicate 1024 7)"
  using tcp_long_string_garbled [of "replicate 1024 7" "replicate 2 (Received (tag ''DGET''))" "replicate 1024 0" 0 "replicate 8192 0"]
  by (auto simp: acknowledged_def)

lemma sm_loop_done: "dfsh s \<Longrightarrow> sm_loop rs s = Inr (s, rs)"
  by (cases "(rs, s)" rule: sm_loop.cases) auto

text \<open>A tagged string in a single read is what \<open>RecvRAW_SM\<close> delivers unchanged.\<close>

lemma tcp_short_string:
  assumes "take 4 data = tag ''NETC''" "length data \<le> 1023"
  shows "tcp_SendRAW data acks junk (int (length data)) = Inr ([data], int (length data))
    \<and> tcp_RecvRAW_SM (Received data # rs) buf = Inr (Some (map Some data), length data, [tag ''DGET''], rs)"
proof -
  have len: "4 \<le> length data" using arg_cong [OF assms(1), of length] by simp
  then obtain b bs where d: "data = b # bs" by (cases data) auto
  have "sm_signals data (sm_start buf) = Inr ((sm_start buf)\<lparr>sm_buff := overlay data buf, if_signal := True,
      dsat := True, dfsh := True\<rparr>)"
    using assms(1) len by (simp add: sm_signals_def Let_def overlay_def sm_start_def)
  then have "sm_loop (Received data # rs) (sm_start buf) = Inr (\<lparr>sm_buff = overlay data buf, sm_rdt = Some (map Some data),
      sm_bdtas = length data, dsat = True, dfsh = True, if_signal = True, sm_sent = [tag ''DGET'']\<rparr>, rs)"
    using d by (simp add: sm_start_def sm_store_def sm_loop_done)
  then show ?thesis using assms(2) by (simp add: tcp_SendRAW_def tcp_RecvRAW_SM_def)
qed

end
