(* ===== verification/BlocksPool.thy ===== *)
theory BlocksPool
  imports Prelude
begin

text \<open>
  The pool of reference-counted memory blocks: the class \<open>BlocksPool\<close> of \<^theory_text>\<open>src/include/memory.h\<close> with its
  \<open>block_info\<close>. An address is a natural number. Which address \<open>malloc\<close> returns, and what the fresh memory holds,
  are arguments; the heap maps every allocated address to its bytes. The count \<open>lock\<close> is an \<open>int\<close>, kept as a 32-bit
  word that wraps as the compilers of the code make it.
\<close>

record block_info =
  bi_size :: u32
  lock :: "32 word"
  pted :: bool
  pvle :: nat

record pool =
  blocks_list :: "nat \<rightharpoonup> block_info"
  heap :: "nat \<rightharpoonup> byte list"

text \<open>What \<open>malloc\<close> answers: a null pointer, or an address with its uninitialised bytes.\<close>

type_synonym malloc_answer = "(nat \<times> byte list) option"

definition b_malloc :: "malloc_answer \<Rightarrow> u32 \<Rightarrow> pool \<Rightarrow> nat option \<times> pool" where
  "b_malloc mem sz p =
     (case mem of
        None \<Rightarrow> (None, p)
      | Some (ptr, junk) \<Rightarrow>
          (Some ptr, p\<lparr>heap := (heap p)(ptr \<mapsto> junk),
             blocks_list := (if blocks_list p ptr = None
               then (blocks_list p)(ptr \<mapsto> \<lparr>bi_size = sz, lock = 1, pted = False, pvle = ptr\<rparr>) else blocks_list p)\<rparr>))"

text \<open>Neither of the copying forms looks whether \<open>b_malloc\<close> returned a null pointer.\<close>

definition bp_malloc :: "malloc_answer \<Rightarrow> u32 \<Rightarrow> byte list \<Rightarrow> pool \<Rightarrow> (nat \<times> pool) res" where
  "bp_malloc mem sz ptvle p =
     (case b_malloc mem sz p of
        (None, p) \<Rightarrow> Inl NullDeref
      | (Some ptr, p) \<Rightarrow> bind_res (cut ptvle 0 (unat sz)) (\<lambda>bs. Inr (ptr, p\<lparr>heap := (heap p)(ptr \<mapsto> bs)\<rparr>)))"

definition bv_malloc :: "malloc_answer \<Rightarrow> byte list \<Rightarrow> pool \<Rightarrow> (nat \<times> pool) res" where
  "bv_malloc mem val p =
     (case b_malloc mem (word_of_nat (length val)) p of
        (None, p) \<Rightarrow> Inl NullDeref
      | (Some ptr, p) \<Rightarrow> Inr (ptr, p\<lparr>heap := (heap p)(ptr \<mapsto> val)\<rparr>))"

definition b_size :: "nat \<Rightarrow> pool \<Rightarrow> u32 res" where
  "b_size ptr p = (case blocks_list p ptr of Some blk \<Rightarrow> Inr (bi_size blk) | None \<Rightarrow> Inl OutOfBounds)"

definition b_get :: "nat \<Rightarrow> pool \<Rightarrow> nat option \<times> pool" where
  "b_get ptr p =
     (case blocks_list p ptr of
        Some blk \<Rightarrow> (Some ptr, p\<lparr>blocks_list := (blocks_list p)(ptr \<mapsto> blk\<lparr>lock := lock blk + 1\<rparr>)\<rparr>)
      | None \<Rightarrow> (None, p))"

definition b_protect :: "nat \<Rightarrow> pool \<Rightarrow> pool res" where
  "b_protect ptr p =
     (case blocks_list p ptr of
        Some blk \<Rightarrow> Inr (p\<lparr>blocks_list := (blocks_list p)(ptr \<mapsto> blk\<lparr>pted := True\<rparr>)\<rparr>)
      | None \<Rightarrow> Inl (ThrownText ''protect nil value''))"

definition b_noprotect :: "nat \<Rightarrow> pool \<Rightarrow> pool res" where
  "b_noprotect ptr p =
     (case blocks_list p ptr of
        Some blk \<Rightarrow> Inr (p\<lparr>blocks_list := (blocks_list p)(ptr \<mapsto> blk\<lparr>pted := False\<rparr>)\<rparr>)
      | None \<Rightarrow> Inl (ThrownText ''noprotect nil value''))"

text \<open>\<open>free\<close> of an address that is not allocated is a use after free.\<close>

definition b_free :: "nat \<Rightarrow> pool \<Rightarrow> pool res" where
  "b_free ptr p =
     (case blocks_list p ptr of
        None \<Rightarrow> Inr p
      | Some blk \<Rightarrow>
          if pted blk then Inr p
          else if lock blk - 1 = 0 then
            (if heap p ptr = None then Inl UseAfterFree
             else Inr (p\<lparr>heap := (heap p)(ptr := None), blocks_list := (blocks_list p)(ptr := None)\<rparr>))
          else Inr (p\<lparr>blocks_list := (blocks_list p)(ptr \<mapsto> blk\<lparr>lock := lock blk - 1\<rparr>)\<rparr>))"

definition empty_pool :: pool where
  "empty_pool = \<lparr>blocks_list = Map.empty, heap = Map.empty\<rparr>"

section \<open>Histories\<close>

datatype pool_op = Malloc nat "byte list" | Get nat | Free nat | Protect nat | NoProtect nat

fun pool_step :: "pool_op \<Rightarrow> pool \<Rightarrow> pool res" where
  "pool_step (Malloc ptr junk) p = Inr (snd (b_malloc (Some (ptr, junk)) (word_of_nat (length junk)) p))"
| "pool_step (Get ptr) p = Inr (snd (b_get ptr p))"
| "pool_step (Free ptr) p = b_free ptr p"
| "pool_step (Protect ptr) p = b_protect ptr p"
| "pool_step (NoProtect ptr) p = b_noprotect ptr p"

fun pool_run :: "pool_op list \<Rightarrow> pool \<Rightarrow> pool res" where
  "pool_run [] p = Inr p"
| "pool_run (oper # ops) p = bind_res (pool_step oper p) (pool_run ops)"

text \<open>\<open>malloc\<close> returns addresses that are not allocated, and sizes that fit in 32 bits.\<close>

fun op_ok :: "pool_op \<Rightarrow> pool \<Rightarrow> bool" where
  "op_ok (Malloc ptr junk) p \<longleftrightarrow> heap p ptr = None \<and> length junk < 2 ^ 32"
| "op_ok _ p \<longleftrightarrow> True"

fun ops_ok :: "pool_op list \<Rightarrow> pool \<Rightarrow> bool" where
  "ops_ok [] p \<longleftrightarrow> True"
| "ops_ok (oper # ops) p \<longleftrightarrow> op_ok oper p \<and> (case pool_step oper p of Inl _ \<Rightarrow> True | Inr p' \<Rightarrow> ops_ok ops p')"

text \<open>
  Every block of the list is allocated with its size and counted between 1 and \<open>n\<close>, and nothing else is allocated.
\<close>

definition pool_ok :: "nat \<Rightarrow> pool \<Rightarrow> bool" where
  "pool_ok n p \<longleftrightarrow> (\<forall>ptr. blocks_list p ptr = None \<longrightarrow> heap p ptr = None) \<and> (\<forall>ptr blk. blocks_list p ptr = Some blk \<longrightarrow>
     pvle blk = ptr \<and> 1 \<le> unat (lock blk) \<and> unat (lock blk) \<le> n
     \<and> (\<exists>bs. heap p ptr = Some bs \<and> length bs = unat (bi_size blk)))"

lemma pool_okD:
  "pool_ok n p \<Longrightarrow> blocks_list p ptr = Some blk \<Longrightarrow> pvle blk = ptr \<and> 1 \<le> unat (lock blk) \<and> unat (lock blk) \<le> n
     \<and> (\<exists>bs. heap p ptr = Some bs \<and> length bs = unat (bi_size blk))"
  by (simp add: pool_ok_def)

lemma pool_ok_heap: "pool_ok n p \<Longrightarrow> (heap p ptr \<noteq> None) = (blocks_list p ptr \<noteq> None)"
proof (cases "blocks_list p ptr")
  case (Some blk)
  assume "pool_ok n p"
  from pool_okD [OF this Some] Some show ?thesis by auto
qed (simp add: pool_ok_def)

lemma unat_lock_inc: "unat (w :: 32 word) \<le> n \<Longrightarrow> n < 2 ^ 32 - 1 \<Longrightarrow> unat (w + 1) = unat w + 1"
  by (subst unat_add_lem [THEN iffD1]) simp_all

lemma unat_lock_dec: "1 \<le> unat (w :: 32 word) \<Longrightarrow> unat (w - 1) = unat w - 1"
  by (subst unat_minus_one) (auto simp: unat_eq_zero)

lemma lock_last: "(w :: 32 word) - 1 = 0 \<longleftrightarrow> unat w = 1"
  by (simp add: word_unat_eq_iff [of w 1])

lemma pool_step_ok:
  assumes "pool_ok n p" "op_ok oper p" "1 \<le> n" "n < 2 ^ 32 - 1"
  shows "case pool_step oper p of Inr p' \<Rightarrow> pool_ok (Suc n) p'
    | Inl e \<Rightarrow> (\<exists>t. e = ThrownText t)"
proof (cases oper)
  case (Malloc ptr junk)
  have "blocks_list p ptr = None"
    using assms(1,2) Malloc pool_okD [OF assms(1), of ptr] by (cases "blocks_list p ptr") auto
  then show ?thesis using assms Malloc
    by (auto simp: b_malloc_def pool_ok_def unat_of_nat_u32 le_SucI)
next
  case (Get ptr)
  show ?thesis
  proof (cases "blocks_list p ptr")
    case (Some blk)
    from pool_okD [OF assms(1) Some] have "unat (lock blk + 1) = unat (lock blk) + 1"
      using assms(4) by (intro unat_lock_inc) auto
    then show ?thesis using assms(1) Some by (auto simp: Get b_get_def pool_ok_def le_SucI)
  qed (use assms(1) Get in \<open>auto simp: b_get_def pool_ok_def le_SucI\<close>)
next
  case (Free ptr)
  show ?thesis
  proof (cases "blocks_list p ptr")
    case (Some blk)
    from pool_okD [OF assms(1) Some] have u: "unat (lock blk - 1) = unat (lock blk) - 1" "heap p ptr \<noteq> None"
      "1 \<le> unat (lock blk)" "unat (lock blk) \<le> n"
      using unat_lock_dec [of "lock blk"] by auto
    have "Suc 0 \<le> unat (lock blk) - Suc 0" if "lock blk \<noteq> 1"
      using that u(3) by (simp add: word_unat_eq_iff)
    then show ?thesis using assms(1) Some u
      by (auto simp: Free b_free_def pool_ok_def le_SucI intro: le_trans [OF diff_le_self])
  qed (use assms(1) Free in \<open>auto simp: b_free_def pool_ok_def le_SucI\<close>)
next
  case (Protect ptr)
  then show ?thesis using assms(1)
    by (cases "blocks_list p ptr") (auto simp: b_protect_def pool_ok_def le_SucI)
next
  case (NoProtect ptr)
  then show ?thesis using assms(1)
    by (cases "blocks_list p ptr") (auto simp: b_noprotect_def pool_ok_def le_SucI)
qed

text \<open>No history frees memory twice; the only failures are the exceptions of protecting an unknown block.\<close>

lemma pool_run_ok:
  assumes "pool_ok n p" "ops_ok ops p" "1 \<le> n" "n + length ops < 2 ^ 32 - 1"
  shows "case pool_run ops p of Inr p' \<Rightarrow> pool_ok (n + length ops) p' | Inl e \<Rightarrow> (\<exists>t. e = ThrownText t)"
  using assms
proof (induction ops arbitrary: n p)
  case (Cons oper ops)
  have step: "case pool_step oper p of Inr p' \<Rightarrow> pool_ok (Suc n) p' | Inl e \<Rightarrow> (\<exists>t. e = ThrownText t)"
    using Cons.prems by (intro pool_step_ok) auto
  show ?case
  proof (cases "pool_step oper p")
    case (Inr p')
    with step Cons.prems Cons.IH [of "Suc n" p'] show ?thesis by (simp split: sum.splits)
  qed (use step in simp)
qed simp

lemma pool_run_append: "pool_run (xs @ ys) p = bind_res (pool_run xs p) (pool_run ys)"
  by (induction xs arbitrary: p) (simp_all add: bind_res_assoc cong: bind_res_cong)

lemma ops_ok_append:
  "ops_ok (xs @ ys) p \<longleftrightarrow> ops_ok xs p \<and> (case pool_run xs p of Inl _ \<Rightarrow> True | Inr q \<Rightarrow> ops_ok ys q)"
  by (induction xs arbitrary: p) (auto split: sum.splits)

section \<open>References are counted\<close>

fun gets :: "nat \<Rightarrow> pool_op list \<Rightarrow> nat" where
  "gets ptr [] = 0"
| "gets ptr (Get q # ops) = (if q = ptr then 1 else 0) + gets ptr ops"
| "gets ptr (_ # ops) = gets ptr ops"

fun frees :: "nat \<Rightarrow> pool_op list \<Rightarrow> nat" where
  "frees ptr [] = 0"
| "frees ptr (Free q # ops) = (if q = ptr then 1 else 0) + frees ptr ops"
| "frees ptr (_ # ops) = frees ptr ops"

definition plain_for :: "nat \<Rightarrow> pool_op list \<Rightarrow> bool" where
  "plain_for ptr ops \<longleftrightarrow> Protect ptr \<notin> set ops \<and> (\<forall>junk. Malloc ptr junk \<notin> set ops)"


lemma all_le_Suc: "(\<forall>k\<le>Suc n. P k) \<longleftrightarrow> P 0 \<and> (\<forall>k\<le>n. P (Suc k))"
  by (metis Suc_le_mono le0 not0_implies_Suc)

lemma plain_for_Cons: "plain_for ptr (oper # ops) \<longleftrightarrow>
    oper \<noteq> Protect ptr \<and> (\<forall>junk. oper \<noteq> Malloc ptr junk) \<and> plain_for ptr ops"
  by (auto simp: plain_for_def)

lemma other_step:
  assumes "pool_step oper p = Inr p'" "plain_for ptr [oper]" "oper \<noteq> Get ptr" "oper \<noteq> Free ptr" "oper \<noteq> NoProtect ptr"
  shows "blocks_list p' ptr = blocks_list p ptr"
  using assms by (cases oper)
    (auto simp: plain_for_def b_malloc_def b_get_def b_free_def b_protect_def b_noprotect_def split: option.splits if_splits)

lemma released_stays:
  "pool_run ops p = Inr p' \<Longrightarrow> plain_for ptr ops \<Longrightarrow> blocks_list p ptr = None \<Longrightarrow> blocks_list p' ptr = None"
proof (induction ops arbitrary: p)
  case (Cons oper ops)
  then obtain q where q: "pool_step oper p = Inr q" "pool_run ops q = Inr p'" by auto
  have "blocks_list q ptr = None"
  proof (cases "oper = Get ptr \<or> oper = Free ptr \<or> oper = NoProtect ptr")
    case True
    then show ?thesis using q(1) Cons.prems(3) by (auto simp: b_get_def b_free_def b_noprotect_def)
  next
    case False
    then show ?thesis using other_step [OF q(1), of ptr] Cons.prems(2,3) by (simp add: plain_for_def)
  qed
  with Cons.IH [OF q(2)] Cons.prems(2) show ?case by (simp add: plain_for_Cons)
qed simp

text \<open>One operation on a counted, unprotected block, as it acts on its count.\<close>

lemma counted_step:
  assumes "pool_step oper p = Inr q" "plain_for ptr [oper]" "blocks_list p ptr = Some blk" "\<not> pted blk"
    and "1 \<le> unat (lock blk)" "unat (lock blk) < 2 ^ 32 - 1"
  shows "case blocks_list q ptr of
      None \<Rightarrow> oper = Free ptr \<and> unat (lock blk) = 1
    | Some blk' \<Rightarrow> \<not> pted blk' \<and> 1 \<le> unat (lock blk')
        \<and> unat (lock blk') + frees ptr [oper] = unat (lock blk) + gets ptr [oper]"
proof (cases "oper = Get ptr \<or> oper = Free ptr \<or> oper = NoProtect ptr")
  case False
  moreover have "frees ptr [oper] = 0 \<and> gets ptr [oper] = 0" using False by (cases oper) auto
  ultimately show ?thesis using other_step [OF assms(1,2)] assms(3-5) by simp
next
  case True
  have inc: "unat (lock blk + 1) = unat (lock blk) + 1" using assms(6) by (intro unat_lock_inc) auto
  have dec: "unat (lock blk - 1) = unat (lock blk) - 1" using assms(5) by (rule unat_lock_dec)
  from True show ?thesis
    using assms inc dec lock_last [of "lock blk"]
    by (auto simp: b_get_def b_free_def b_noprotect_def split: if_splits)
qed

lemma gets_Cons: "gets ptr (oper # ops) = gets ptr [oper] + gets ptr ops"
  by (cases oper) simp_all

lemma frees_Cons: "frees ptr (oper # ops) = frees ptr [oper] + frees ptr ops"
  by (cases oper) simp_all

lemma counted_run:
  assumes "pool_run ops p = Inr p'" "plain_for ptr ops" "blocks_list p ptr = Some blk" "\<not> pted blk"
    and "1 \<le> unat (lock blk)" "unat (lock blk) + length ops < 2 ^ 32"
  shows "(blocks_list p' ptr \<noteq> None) =
    (\<forall>k\<le>length ops. frees ptr (take k ops) < unat (lock blk) + gets ptr (take k ops))"
  using assms
proof (induction ops arbitrary: p blk)
  case (Cons oper ops)
  obtain q where q: "pool_step oper p = Inr q" "pool_run ops q = Inr p'" using Cons.prems(1) by auto
  have plain: "plain_for ptr [oper]" "plain_for ptr ops" using Cons.prems(2) by (simp_all add: plain_for_def)
  note step = counted_step [OF q(1) plain(1) Cons.prems(3,4,5)]
  show ?case
  proof (cases "blocks_list q ptr")
    case None
    then have "oper = Free ptr" "unat (lock blk) = 1" "blocks_list p' ptr = None"
      using step Cons.prems(6) released_stays [OF q(2) plain(2)] by auto
    then show ?thesis by (auto simp: all_le_Suc intro!: exI [of _ 0])
  next
    case (Some blk')
    then have b: "\<not> pted blk'" "1 \<le> unat (lock blk')"
      "unat (lock blk') + frees ptr [oper] = unat (lock blk) + gets ptr [oper]"
      using step Cons.prems(6) by auto
    have g: "gets ptr [oper] \<le> 1" by (cases oper) auto
    have "(blocks_list p' ptr \<noteq> None) = (\<forall>k\<le>length ops. frees ptr (take k ops) < unat (lock blk') + gets ptr (take k ops))"
      using Cons.IH [OF q(2) plain(2) Some b(1,2)] b(3) g Cons.prems(6) by simp
    also have "\<dots> = (\<forall>k\<le>length ops. frees ptr (oper # take k ops) < unat (lock blk) + gets ptr (oper # take k ops))"
      using b(3) by (subst frees_Cons, subst gets_Cons) (auto simp: algebra_simps)
    finally show ?thesis using Cons.prems(5) by (simp add: all_le_Suc)
  qed
qed simp

text \<open>
  C28. The pool counts references: in every history of fewer than $2^{32} - 2$ operations from the empty pool, with fresh
  addresses from \<open>malloc\<close>, a block that is not protected is listed, and its memory allocated, exactly as long as its
  releases never outnumbered the calls of \<open>b_get\<close>; every other block is allocated with its size as well, and nothing
  is freed twice.
\<close>

theorem pool_counts_references:
  assumes "pool_run (ops0 @ Malloc ptr junk # ops) empty_pool = Inr p'" "ops_ok (ops0 @ Malloc ptr junk # ops) empty_pool"
    and "plain_for ptr ops" "length ops0 + length ops < 2 ^ 32 - 3"
  shows "(blocks_list p' ptr \<noteq> None) = (\<forall>k\<le>length ops. frees ptr (take k ops) \<le> gets ptr (take k ops))
    \<and> (heap p' ptr \<noteq> None) = (blocks_list p' ptr \<noteq> None)
    \<and> pool_ok (2 + length ops0 + length ops) p'"
proof -
  have ok0: "pool_ok 1 empty_pool" by (simp add: pool_ok_def empty_pool_def)
  have ok': "pool_ok (2 + length ops0 + length ops) p'"
    using pool_run_ok [OF ok0 assms(2)] assms(1,4) by simp
  obtain p where p: "pool_run ops0 empty_pool = Inr p" "pool_run (Malloc ptr junk # ops) p = Inr p'"
    using assms(1) by (auto simp: pool_run_append)
  have ok: "ops_ok ops0 empty_pool" "op_ok (Malloc ptr junk) p"
    using assms(2) p(1) by (simp_all add: ops_ok_append)
  have okp: "pool_ok (1 + length ops0) p" using pool_run_ok [OF ok0 ok(1)] p(1) assms(4) by simp
  have free: "blocks_list p ptr = None" using ok(2) pool_okD [OF okp, of ptr] by (cases "blocks_list p ptr") auto
  let ?q = "snd (b_malloc (Some (ptr, junk)) (word_of_nat (length junk)) p)"
  have "pool_run ops ?q = Inr p'" using p(2) by simp
  moreover have "blocks_list ?q ptr = Some \<lparr>bi_size = word_of_nat (length junk), lock = 1, pted = False, pvle = ptr\<rparr>"
    using free by (simp add: b_malloc_def)
  ultimately have "(blocks_list p' ptr \<noteq> None) = (\<forall>k\<le>length ops. frees ptr (take k ops) < 1 + gets ptr (take k ops))"
    using counted_run [of ops ?q p' ptr] assms(3,4) by simp
  moreover have "(heap p' ptr \<noteq> None) = (blocks_list p' ptr \<noteq> None)"
    by (rule pool_ok_heap [OF ok'])
  ultimately show ?thesis using ok' by (simp add: less_Suc_eq_le)
qed

theorem pool_counts_references_witness:
  "\<exists>p'. pool_run [Malloc 8 [1, 2], Malloc 16 [0], Get 16, Free 16, Free 16, Free 8] empty_pool = Inr p'
     \<and> blocks_list p' 16 = None \<and> heap p' 16 = None"
proof -
  let ?ops = "[Get 16, Free 16, Free 16, Free 8]"
  have ex: "\<exists>p'. pool_run ([Malloc 8 [1, 2]] @ Malloc 16 [0] # ?ops) empty_pool = Inr p'"
    and ok: "ops_ok ([Malloc 8 [1, 2]] @ Malloc 16 [0] # ?ops) empty_pool"
    by (simp_all add: empty_pool_def b_malloc_def b_get_def b_free_def)
  then obtain p' where p': "pool_run ([Malloc 8 [1, 2]] @ Malloc 16 [0] # ?ops) empty_pool = Inr p'" by blast
  have "\<not> (\<forall>k\<le>length ?ops. frees 16 (take k ?ops) \<le> gets 16 (take k ?ops))"
    by (auto intro!: exI [of _ 3])
  moreover have "plain_for 16 ?ops" "length [Malloc 8 [1, 2]] + length ?ops < 2 ^ 32 - 3"
    by (simp_all add: plain_for_def)
  note pool_counts_references [OF p' ok this]
  ultimately have "blocks_list p' 16 = None \<and> heap p' 16 = None" by blast
  with p' show ?thesis by (intro exI [of _ p']) simp
qed

end
