(* ===== verification/CPart.thy ===== *)
theory CPart
  imports CStrings BlocksPool
begin

text \<open>
  Computation modules: the class \<open>CPart\<close> of \<^theory_text>\<open>src/src/cpart.cpp\<close> and the argument vectors \<open>LibArgsTransfer\<close>
  of \<^theory_text>\<open>src/include/compute.h\<close>. The file system, the compiler and the dynamic linker are the functions of a record
  \<open>host\<close>; the user's entry function, which is not part of the program, is a function of the two argument vectors of its
  library. A vector of \<open>block_info\<close> is the list of the contents of its blocks.
\<close>

record farg_info =
  f_type :: string
  f_size :: int

record cpart =
  fargs_in :: "farg_info list"
  fargs_out :: "farg_info list"
  args_in :: "nat list"
  args_out :: "nat list"
  func_set :: bool
  lib_handle :: "nat option"
  src_path :: string
  cp_name :: string
  lib_path :: string
  lib_name :: string
  src_name :: string

datatype access_mode = F_OK | R_OK | W_OK

record 'fs host =
  host_access :: "'fs \<Rightarrow> string \<Rightarrow> access_mode \<Rightarrow> bool"
  host_system :: "string \<Rightarrow> 'fs \<Rightarrow> int \<times> 'fs"
  host_dlopen :: "'fs \<Rightarrow> string \<Rightarrow> nat option"
  host_dlsym :: "nat \<Rightarrow> string \<Rightarrow> bool"

section \<open>Construction\<close>

definition strip_right :: "string \<Rightarrow> string" where
  "strip_right s = rev (dropWhile (\<lambda>c. c = CHR '' '') (rev s))"

text \<open>A path without trailing spaces and without one trailing slash; \<open>back()\<close> of an empty string is undefined.\<close>

definition trim_path :: "string \<Rightarrow> string res" where
  "trim_path s = (let t = strip_right s in
     if t = [] then Inl OutOfBounds else Inr (if last t = CHR ''/'' then butlast t else t))"

definition name_char :: "char \<Rightarrow> bool" where
  "name_char c \<longleftrightarrow> is_alnum c \<or> c = CHR ''_''"

text \<open>The compiler call; any status but \<open>-1\<close> and \<open>127\<close> counts as success, that of a failed compilation too.\<close>

definition BuildSo :: "'fs host \<Rightarrow> cpart \<Rightarrow> 'fs \<Rightarrow> 'fs res" where
  "BuildSo h cp fs =
     (let (rtn, fs) = host_system h (''g++ -fPIC -shared -std=c++11 -o '' @ lib_path cp @ ''/'' @ lib_name cp @ '' ''
                         @ src_path cp @ ''/'' @ src_name cp) fs
      in if rtn \<noteq> - 1 \<and> rtn \<noteq> 127 then Inr fs else Inl (ThrownText ''fail to build lib file''))"

definition GetSoHandle :: "'fs host \<Rightarrow> cpart \<Rightarrow> 'fs \<Rightarrow> cpart res" where
  "GetSoHandle h cp fs =
     (if \<not> host_access h fs (lib_path cp) R_OK then Inl (ThrownText ''library not found'')
      else case host_dlopen h fs (lib_path cp @ ''/'' @ lib_name cp) of
        None \<Rightarrow> Inl (ThrownText ''can not open library'')
      | Some hnd \<Rightarrow>
          if \<not> host_dlsym h hnd (cp_name cp) then Inl (ThrownString (''can not get func '' @ cp_name cp))
          else if \<not> host_dlsym h hnd (''__'' @ cp_name cp @ ''_args_in'')
            then Inl (ThrownText ''can not get the HANDLE to PUSH args'')
          else if \<not> host_dlsym h hnd (''__'' @ cp_name cp @ ''_args_out'')
            then Inl (ThrownText ''can not get the HANDLE to GET args'')
          else Inr (cp\<lparr>lib_handle := Some hnd, func_set := True\<rparr>))"

definition blank_cpart :: cpart where
  "blank_cpart = \<lparr>fargs_in = [], fargs_out = [], args_in = [], args_out = [], func_set = False, lib_handle = None,
     src_path = '''', cp_name = '''', lib_path = '''', lib_name = '''', src_name = ''''\<rparr>"

text \<open>
  The constructor. Whether the library exists is asked for the path and the name without a slash between them, and
  the handles are only fetched when it does not, or when a fresh compilation is wanted.
\<close>

definition CPart :: "'fs host \<Rightarrow> string \<Rightarrow> string \<Rightarrow> string \<Rightarrow> string \<Rightarrow> bool \<Rightarrow> 'fs \<Rightarrow> (cpart \<times> 'fs) res" where
  "CPart h t_srcpath t_libpath t_srcname t_name ffresh fs =
     bind_res (trim_path t_srcpath) (\<lambda>src.
       let srcname = dropWhile (\<lambda>c. c = CHR '' '') (strip_right t_srcname) in
       case find_from ''.cpp'' srcname 0 of
         None \<Rightarrow> Inl (ThrownText ''source file's name illegal(.cpp)'')
       | Some qpidx \<Rightarrow>
           if \<not> list_all name_char (take qpidx srcname) then Inl (ThrownText ''source file's name has illegal char'')
           else if \<not> host_access h fs (src @ ''/'' @ srcname) W_OK then Inl (ThrownText ''source file's state abnormal'')
           else bind_res (trim_path t_libpath) (\<lambda>lib.
             if \<not> host_access h fs lib W_OK then Inl (ThrownText ''library path is abnormal'')
             else if \<not> list_all name_char t_name then Inl (ThrownText ''PCSFUNC's name has illegal char'')
             else let cp = blank_cpart\<lparr>src_path := src, src_name := srcname, cp_name := t_name, lib_path := lib,
                     lib_name := ''lib'' @ take qpidx srcname @ ''.so''\<rparr>
                  in if \<not> host_access h fs (lib @ lib_name cp) F_OK \<or> ffresh then
                       bind_res (BuildSo h cp fs) (\<lambda>fs. bind_res (GetSoHandle h cp fs) (\<lambda>cp. Inr (cp, fs)))
                     else Inr (cp, fs)))"

text \<open>
  The constructor from the project's database: the texts are what the queries return (\<open>None\<close> for a null column, as
  it is also returned for a statement that was not stepped). The rows of the output arguments are read without a step
  before the first one, and only when the query for the input arguments had a row.
\<close>

definition text_column :: "string option \<Rightarrow> string res" where
  "text_column t = (case t of Some s \<Rightarrow> Inr s | None \<Rightarrow> Inl NullDeref)"

fun read_fargs :: "(string option \<times> int) list \<Rightarrow> farg_info list \<Rightarrow> farg_info list res" where
  "read_fargs [] fargs = Inr fargs"
| "read_fargs ((t, n) # rows) fargs =
     bind_res (text_column t) (\<lambda>t. read_fargs rows (fargs @ [\<lparr>f_type = t, f_size = n\<rparr>]))"

definition CPart_db :: "'fs host \<Rightarrow> string option \<Rightarrow> string option \<times> string option \<Rightarrow> (string option \<times> int) list \<Rightarrow>
    (string option \<times> int) list \<Rightarrow> 'fs \<Rightarrow> cpart res" where
  "CPart_db h libfile proj in_rows out_rows fs =
     bind_res (text_column libfile) (\<lambda>lname.
     bind_res (text_column (snd proj)) (\<lambda>lpath.
     bind_res (text_column (fst proj)) (\<lambda>pname.
     bind_res (GetSoHandle h (blank_cpart\<lparr>lib_name := lname, lib_path := lpath, cp_name := pname\<rparr>) fs) (\<lambda>cp.
     bind_res (read_fargs in_rows (fargs_in cp)) (\<lambda>fi.
       if in_rows = [] then Inr cp
       else bind_res (read_fargs ((None, 0) # out_rows) (fargs_out cp)) (\<lambda>fo.
         Inr (cp\<lparr>fargs_in := fi, fargs_out := fo\<rparr>)))))))"

definition setArgsType :: "farg_info list \<Rightarrow> farg_info list \<Rightarrow> cpart \<Rightarrow> cpart" where
  "setArgsType fin fout cp = cp\<lparr>fargs_in := fin, fargs_out := fout\<rparr>"

section \<open>Argument vectors of a library\<close>

record lib_args =
  lib_in :: "byte list list"
  lib_out :: "byte list list"

definition addArgPtr :: "nat \<Rightarrow> byte list \<Rightarrow> byte list list \<Rightarrow> byte list list res" where
  "addArgPtr sz p_arg args = bind_res (cut p_arg 0 sz) (\<lambda>bs. Inr (args @ [bs]))"

definition get_arg :: "nat \<Rightarrow> nat \<Rightarrow> byte list list \<Rightarrow> byte list res" where
  "get_arg sizeof_T idx args = bind_res (at args idx) (\<lambda>bs.
     if length bs = sizeof_T then Inr bs else Inl (ThrownText ''arg size conflict''))"

definition push_arg :: "byte list \<Rightarrow> byte list list \<Rightarrow> byte list list" where
  "push_arg arg args = args @ [arg]"

section \<open>Running a module\<close>

type_synonym entry = "byte list list \<Rightarrow> byte list list \<Rightarrow> int \<times> byte list list \<times> byte list list"

definition block_at :: "nat \<Rightarrow> pool \<Rightarrow> byte list res" where
  "block_at ptr p = (case heap p ptr of None \<Rightarrow> Inl UseAfterFree | Some bs \<Rightarrow> Inr bs)"

fun pass_inputs :: "nat list \<Rightarrow> pool \<Rightarrow> byte list list \<Rightarrow> byte list list res" where
  "pass_inputs [] p args = Inr args"
| "pass_inputs (ptr # ptrs) p args =
     bind_res (b_size ptr p) (\<lambda>sz. bind_res (block_at ptr p) (\<lambda>bs.
     bind_res (addArgPtr (unat sz) bs args) (pass_inputs ptrs p)))"

fun fetch_outputs :: "malloc_answer list \<Rightarrow> byte list list \<Rightarrow> nat list \<Rightarrow> pool \<Rightarrow> (nat list \<times> pool) res" where
  "fetch_outputs mem [] outs p = Inr (outs, p)"
| "fetch_outputs [] (bs # bss) outs p = Inl NullDeref"
| "fetch_outputs (m # mem) (bs # bss) outs p =
     bind_res (bp_malloc m (word_of_nat (length bs)) bs p) (\<lambda>(ptr, p). fetch_outputs mem bss (outs @ [ptr]) p)"

text \<open>
  \<open>Run\<close>. The vector of outputs is emptied after a successful call; nothing ever empties the vector of inputs, to which
  the inputs of the next call are appended. \<open>mem\<close> are the answers of \<open>malloc\<close>; none left stands for a null pointer.
\<close>

definition Run :: "entry \<Rightarrow> malloc_answer list \<Rightarrow> cpart \<Rightarrow> lib_args \<Rightarrow> pool \<Rightarrow> (int \<times> cpart \<times> lib_args \<times> pool) res" where
  "Run func mem cp lib p =
     (if \<not> func_set cp then Inl (ThrownText ''func is nullptr'')
      else if length (args_in cp) \<noteq> length (fargs_in cp) then Inl (ThrownText ''input arg buff is't correctly init'')
      else bind_res (pass_inputs (args_in cp) p (lib_in lib)) (\<lambda>lin.
        let (rtn, lin, lout) = func lin (lib_out lib) in
        if rtn = 0 then
          bind_res (fetch_outputs mem lout (args_out cp) p) (\<lambda>(outs, p).
            Inr (0, cp\<lparr>args_out := outs\<rparr>, \<lparr>lib_in = lin, lib_out = []\<rparr>, p))
        else Inr (- 1, cp, \<lparr>lib_in = lin, lib_out = lout\<rparr>, p)))"

fun free_all :: "nat list \<Rightarrow> pool \<Rightarrow> pool res" where
  "free_all [] p = Inr p"
| "free_all (ptr # ptrs) p = bind_res (b_free ptr p) (free_all ptrs)"

definition Clear :: "cpart \<Rightarrow> pool \<Rightarrow> (cpart \<times> pool) res" where
  "Clear cp p = bind_res (free_all (args_in cp) p) (\<lambda>p. bind_res (free_all (args_out cp) p) (\<lambda>p.
     Inr (cp\<lparr>args_in := [], args_out := []\<rparr>, p)))"

definition AddCPArgsIn :: "nat \<Rightarrow> cpart \<Rightarrow> pool \<Rightarrow> (cpart \<times> pool) res" where
  "AddCPArgsIn arg cp p =
     (case b_get arg p of
        (None, p) \<Rightarrow> Inl (ThrownText ''information lost'')
      | (Some ptr, p) \<Rightarrow> Inr (cp\<lparr>args_in := args_in cp @ [ptr]\<rparr>, p))"

section \<open>Facts\<close>

text \<open>A module built from the database never has output formats, and one with input formats is never built.\<close>

lemma CPart_db_formats:
  assumes "CPart_db h libfile proj in_rows out_rows fs = Inr cp"
  shows "in_rows = [] \<and> fargs_in cp = [] \<and> fargs_out cp = [] \<and> Some (cp_name cp) = fst proj"
  using assms
  by (auto simp: CPart_db_def GetSoHandle_def text_column_def blank_cpart_def split: if_splits option.splits)

text \<open>The contents of the inputs: blocks that are in the pool, allocated with their size.\<close>

definition holds :: "pool \<Rightarrow> nat \<Rightarrow> byte list \<Rightarrow> bool" where
  "holds p ptr bs \<longleftrightarrow> heap p ptr = Some bs
     \<and> (\<exists>blk. blocks_list p ptr = Some blk \<and> unat (bi_size blk) = length bs)"

lemma pass_inputs_contents:
  "list_all2 (holds p) ptrs bss \<Longrightarrow> pass_inputs ptrs p args = Inr (args @ bss)"
  by (induction ptrs bss arbitrary: args rule: list_all2_induct)
    (auto simp: holds_def b_size_def block_at_def addArgPtr_def cut_def)

fun all_fresh :: "malloc_answer list \<Rightarrow> byte list list \<Rightarrow> pool \<Rightarrow> bool" where
  "all_fresh mem [] p \<longleftrightarrow> True"
| "all_fresh [] (bs # bss) p \<longleftrightarrow> False"
| "all_fresh (None # mem) (bs # bss) p \<longleftrightarrow> False"
| "all_fresh (Some (ptr, junk) # mem) (bs # bss) p \<longleftrightarrow>
     heap p ptr = None \<and> blocks_list p ptr = None \<and> length bs < 2 ^ 32
     \<and> (\<forall>m \<in> set mem. \<forall>j. m \<noteq> Some (ptr, j)) \<and> all_fresh mem bss p"

lemma all_fresh_other:
  "all_fresh mem bss p \<Longrightarrow> \<forall>m \<in> set mem. \<forall>j. m \<noteq> Some (ptr, j) \<Longrightarrow>
    (\<And>q. q \<noteq> ptr \<Longrightarrow> heap p' q = heap p q \<and> blocks_list p' q = blocks_list p q) \<Longrightarrow> all_fresh mem bss p'"
  by (induction mem bss p rule: all_fresh.induct) auto

lemma all_fresh_Cons: "all_fresh mem (bs # bss) p \<Longrightarrow> \<exists>ptr junk mem'. mem = Some (ptr, junk) # mem'"
  by (induction mem "bs # bss" p rule: all_fresh.induct) auto

lemma fetch_outputs_blocks:
  "all_fresh mem bss p \<Longrightarrow>
     \<exists>ptrs p'. fetch_outputs mem bss outs p = Inr (outs @ ptrs, p') \<and> list_all2 (holds p') ptrs bss
       \<and> (\<forall>q bs. holds p q bs \<longrightarrow> holds p' q bs)"
proof (induction bss arbitrary: mem p outs)
  case (Cons bs bss)
  from all_fresh_Cons [OF Cons.prems] obtain ptr junk mem' where mem: "mem = Some (ptr, junk) # mem'" by blast
  let ?p1 = "p\<lparr>heap := (heap p)(ptr \<mapsto> bs), blocks_list := (blocks_list p)(ptr \<mapsto>
    \<lparr>bi_size = word_of_nat (length bs), lock = 1, pted = False, pvle = ptr\<rparr>)\<rparr>"
  from Cons.prems mem have fr: "heap p ptr = None" "blocks_list p ptr = None" "length bs < 2 ^ 32"
    "\<forall>m \<in> set mem'. \<forall>j. m \<noteq> Some (ptr, j)" "all_fresh mem' bss p" by simp_all
  have len: "unat (word_of_nat (length bs) :: u32) = length bs" using fr(3) by (rule unat_of_nat_u32)
  have new: "bp_malloc (Some (ptr, junk)) (word_of_nat (length bs)) bs p = Inr (ptr, ?p1)"
    using fr len by (simp add: bp_malloc_def b_malloc_def cut_def)
  have "all_fresh mem' bss ?p1"
    by (rule all_fresh_other [OF fr(5,4)]) simp
  from Cons.IH [OF this, of "outs @ [ptr]"] obtain ptrs p' where
    rest: "fetch_outputs mem' bss (outs @ [ptr]) ?p1 = Inr (outs @ ptr # ptrs, p')" "list_all2 (holds p') ptrs bss"
      "\<forall>q bs. holds ?p1 q bs \<longrightarrow> holds p' q bs" by auto
  have "holds p' ptr bs" using rest(3) len by (simp add: holds_def)
  moreover have "holds ?p1 q bs'" if "holds p q bs'" for q bs' using that fr(1) by (auto simp: holds_def)
  ultimately show ?case using rest new mem
    by (intro exI [of _ "ptr # ptrs"] exI [of _ p']) auto
qed simp

text \<open>
  A call of \<open>Run\<close> with the right number of inputs, all in the pool, calls the module with everything that was ever
  passed to its library followed by the contents of the inputs. When the module returns 0, the contents of its outputs
  are in fresh blocks of the pool at the end of \<open>args_out\<close>, every other block keeps its contents, and the vector of
  outputs is empty; otherwise \<open>Run\<close> returns -1 and the outputs stay in the library. The vector of inputs is left as
  the module left it.
\<close>

theorem Run_computes:
  assumes "func_set cp" "length (args_in cp) = length (fargs_in cp)" "list_all2 (holds p) (args_in cp) xs"
    and "func (lib_in lib @ xs) (lib_out lib) = (rtn, lin, lout)" "rtn = 0 \<Longrightarrow> all_fresh mem lout p"
  shows "if rtn = 0 then \<exists>ptrs p'. Run func mem cp lib p
        = Inr (0, cp\<lparr>args_out := args_out cp @ ptrs\<rparr>, \<lparr>lib_in = lin, lib_out = []\<rparr>, p')
      \<and> list_all2 (holds p') ptrs lout \<and> (\<forall>q bs. holds p q bs \<longrightarrow> holds p' q bs)
    else Run func mem cp lib p = Inr (- 1, cp, \<lparr>lib_in = lin, lib_out = lout\<rparr>, p)"
proof (cases "rtn = 0")
  case True
  from fetch_outputs_blocks [OF assms(5) [OF True], of "args_out cp"] True show ?thesis
    using assms(1-4) pass_inputs_contents [OF assms(3), of "lib_in lib"] by (auto simp: Run_def)
qed (use assms(1-4) pass_inputs_contents [OF assms(3), of "lib_in lib"] in \<open>simp add: Run_def\<close>)

definition sample_cpart :: cpart where
  "sample_cpart = blank_cpart\<lparr>func_set := True, fargs_in := [\<lparr>f_type = ''int'', f_size = 1\<rparr>], args_in := [4]\<rparr>"

definition sample_pool :: pool where
  "sample_pool = \<lparr>blocks_list = [4 \<mapsto> \<lparr>bi_size = 1, lock = 1, pted = False, pvle = 4\<rparr>], heap = [4 \<mapsto> [9]]\<rparr>"

theorem Run_computes_witness:
  "\<exists>ptrs p'. Run (\<lambda>i out. (0, i, out @ [hd i])) [Some (8, [0])] sample_cpart \<lparr>lib_in = [], lib_out = []\<rparr> sample_pool
     = Inr (0, sample_cpart\<lparr>args_out := ptrs\<rparr>, \<lparr>lib_in = [[9]], lib_out = []\<rparr>, p') \<and> list_all2 (holds p') ptrs [[9]]"
  using Run_computes [of sample_cpart sample_pool "[[9]]" "\<lambda>i out. (0, i, out @ [hd i])" "\<lparr>lib_in = [], lib_out = []\<rparr>"
      0 "[[9]]" "[[9]]" "[Some (8, [0])]"]
  by (auto simp: sample_cpart_def sample_pool_def blank_cpart_def holds_def)

text \<open>
  The second call of a module that leaves its vector of inputs alone, as the interface makes it (\<open>LibArgsTransfer\<close>
  offers a module no way to remove an argument), reads the arguments of the first call at the front.
\<close>

lemma Run_stale_inputs:
  assumes "func_set cp" "length (args_in cp) = length (fargs_in cp)" "list_all2 (holds p) (args_in cp) xs"
    and "func_set cq" "length (args_in cq) = length (fargs_in cq)" "list_all2 (holds q) (args_in cq) ys"
    and keeps: "\<And>i out. fst (snd (func i out)) = i"
    and first: "Run func mem cp \<lparr>lib_in = [], lib_out = []\<rparr> p = Inr (r, cp', lib, p')"
    and second: "Run func mem' cq lib q = Inr (r', cq', lib', q')"
  shows "r' = (if fst (func (xs @ ys) (lib_out lib)) = 0 then 0 else - 1)"
proof -
  have "lib_in lib = xs"
    using first assms(1,2) pass_inputs_contents [OF assms(3), of "[]"] keeps [of xs "[]"]
    by (auto simp: Run_def split: prod.splits if_splits)
  then show ?thesis
    using second assms(4,5) pass_inputs_contents [OF assms(6), of xs]
    by (auto simp: Run_def split: prod.splits if_splits)
qed

end
