(* ===== verification/CThread.thy ===== *)
theory CThread
  imports CPart "HOL-Library.AList"
begin

text \<open>
  Computation tasks: the class \<open>CThread\<close> of \<^theory_text>\<open>src/src/cthread.cpp\<close>. A module is known by its address, a number;
  the modules themselves, their libraries and the block pool are the record \<open>world\<close> that all threads share. A child
  thread is modelled as one step, in any order against the others; its interleaving with other threads inside the step,
  which the code does not guard, is not modelled.
\<close>

record thread_args =
  t_id :: u64
  t_pcp :: nat
  t_rtn :: int

record cthread =
  cparts :: "(string \<times> nat) list"
  rargs :: "(string \<times> nat list) list"
  rargs_out :: "(string \<times> nat list) list"
  ifsolved :: "(string \<times> bool) list"
  if_rargs :: "(string \<times> bool) list"
  idxtid :: u64
  thdnum :: int
  if_als :: bool
  child_finished :: "thread_args list"
  threads :: "(u64 \<times> nat) list"
  cpttid :: "(nat \<times> u64) list"
  line :: "nat list"

record world =
  parts :: "nat \<rightharpoonup> cpart"
  libs :: "nat \<Rightarrow> lib_args"
  w_pool :: pool

definition found :: "('k \<times> 'a) list \<Rightarrow> 'k \<Rightarrow> 'a res" where
  "found m k = (case map_of m k of Some x \<Rightarrow> Inr x | None \<Rightarrow> Inl OutOfBounds)"

definition part_of :: "nat \<Rightarrow> world \<Rightarrow> cpart res" where
  "part_of pcp w = (case parts w pcp of Some cp \<Rightarrow> Inr cp | None \<Rightarrow> Inl UseAfterFree)"

text \<open>
  A \<open>std::map\<close> is an association list: reading and assigning through the iterator of \<open>find\<close>, which is out of bounds
  for an unknown key, and \<open>insert\<close>, which keeps an existing entry.
\<close>

definition assign_at :: "string \<Rightarrow> 'a \<Rightarrow> (string \<times> 'a) list \<Rightarrow> (string \<times> 'a) list res" where
  "assign_at n v m = (case map_of m n of Some _ \<Rightarrow> Inr (AList.update n v m) | None \<Rightarrow> Inl OutOfBounds)"

definition insert_new :: "'k \<Rightarrow> 'a \<Rightarrow> ('k \<times> 'a) list \<Rightarrow> ('k \<times> 'a) list" where
  "insert_new k v m = (if map_of m k = None then m @ [(k, v)] else m)"

definition CThread :: "(string \<times> nat) list \<Rightarrow> int \<Rightarrow> cthread" where
  "CThread tp_map n = \<lparr>cparts = tp_map, rargs = map (\<lambda>cp. (fst cp, [])) tp_map, rargs_out = map (\<lambda>cp. (fst cp, [])) tp_map,
     ifsolved = map (\<lambda>cp. (fst cp, False)) tp_map, if_rargs = map (\<lambda>cp. (fst cp, False)) tp_map,
     idxtid = 0, thdnum = n, if_als = False, child_finished = [], threads = [], cpttid = [], line = []\<rparr>"

text \<open>The destructor releases every input twice and no output.\<close>

fun free_lists :: "nat list list \<Rightarrow> pool \<Rightarrow> pool res" where
  "free_lists [] p = Inr p"
| "free_lists (ptrs # rest) p = bind_res (free_all ptrs p) (free_lists rest)"

definition CThread_destroy :: "cthread \<Rightarrow> pool \<Rightarrow> pool res" where
  "CThread_destroy ct p = bind_res (free_lists (map snd (rargs ct)) p) (free_lists (map snd (rargs ct)))"

definition AddArgs :: "string \<Rightarrow> nat \<Rightarrow> cthread \<Rightarrow> pool \<Rightarrow> (cthread \<times> pool) res" where
  "AddArgs n ptr ct p =
     (case b_get ptr p of
        (None, p) \<Rightarrow> Inl (ThrownText ''information lost'')
      | (Some _, p) \<Rightarrow> bind_res (found (rargs ct) n) (\<lambda>ptrs. Inr (ct\<lparr>rargs := AList.update n (ptrs @ [ptr]) (rargs ct)\<rparr>, p)))"

definition AddArgsOut :: "string \<Rightarrow> nat \<Rightarrow> cthread \<Rightarrow> pool \<Rightarrow> (cthread \<times> pool) res" where
  "AddArgsOut n ptr ct p =
     (case b_get ptr p of
        (None, p) \<Rightarrow> Inl (ThrownText ''information lost'')
      | (Some _, p) \<Rightarrow> bind_res (found (rargs_out ct) n) (\<lambda>ptrs. Inr (ct\<lparr>rargs_out := AList.update n (ptrs @ [ptr]) (rargs_out ct)\<rparr>, p)))"

definition Analyse :: "cthread \<Rightarrow> cthread" where
  "Analyse ct = ct"

section \<open>Starting threads\<close>

text \<open>\<open>created\<close> lists what \<open>pthread_create\<close> answers: a handle, or \<open>None\<close> for a failure.\<close>

fun start_line :: "nat list \<Rightarrow> nat option list \<Rightarrow> world \<Rightarrow> cthread \<Rightarrow> cthread res" where
  "start_line [] created w ct = Inr ct"
| "start_line (pcp # ps) created w ct =
     bind_res (part_of pcp w) (\<lambda>cp.
     bind_res (found (rargs ct) (cp_name cp)) (\<lambda>args.
       case created of
         Some npdt # created \<Rightarrow>
           start_line ps created w (ct\<lparr>idxtid := idxtid ct + 1,
             threads := insert_new (idxtid ct) npdt (threads ct), cpttid := insert_new pcp (idxtid ct) (cpttid ct)\<rparr>)
       | _ \<Rightarrow> Inl (ThrownText ''fail to create thread'')))"

definition DoLine :: "nat option list \<Rightarrow> world \<Rightarrow> cthread \<Rightarrow> cthread res" where
  "DoLine created w ct = start_line (line ct) created w ct"

section \<open>A child thread\<close>

fun take_args :: "nat list \<Rightarrow> cpart \<Rightarrow> pool \<Rightarrow> (cpart \<times> pool) res" where
  "take_args [] cp p = Inr (cp, p)"
| "take_args (ptr # ptrs) cp p =
     (case b_get ptr p of
        (None, p) \<Rightarrow> Inl (ThrownText ''information lost'')
      | (Some _, p) \<Rightarrow> take_args ptrs (cp\<lparr>args_in := args_in cp @ [ptr]\<rparr>) p)"

definition PrepareArgsIn :: "cthread \<Rightarrow> nat \<Rightarrow> world \<Rightarrow> world res" where
  "PrepareArgsIn ct pcp w =
     bind_res (part_of pcp w) (\<lambda>cp.
     bind_res (found (rargs ct) (cp_name cp)) (\<lambda>args.
     bind_res (Clear cp (w_pool w)) (\<lambda>(cp, p).
     bind_res (take_args args cp p) (\<lambda>(cp, p). Inr (w\<lparr>parts := (parts w)(pcp \<mapsto> cp), w_pool := p\<rparr>)))))"

text \<open>The outputs are entered into the task without \<open>b_get\<close>; the module keeps the only reference.\<close>

definition GetArgsOut :: "nat \<Rightarrow> world \<Rightarrow> cthread \<Rightarrow> cthread res" where
  "GetArgsOut pcp w ct =
     bind_res (part_of pcp w) (\<lambda>cp.
     bind_res (found (rargs_out ct) (cp_name cp)) (\<lambda>outs.
       Inr (ct\<lparr>rargs_out := AList.update (cp_name cp) (outs @ args_out cp) (rargs_out ct)\<rparr>)))"

definition ChildThreadFSH :: "thread_args \<Rightarrow> cthread \<Rightarrow> cthread" where
  "ChildThreadFSH pta ct = ct\<lparr>child_finished := child_finished ct @ [pta]\<rparr>"

definition NewThread :: "(nat \<Rightarrow> entry) \<Rightarrow> malloc_answer list \<Rightarrow> thread_args \<Rightarrow> cthread \<times> world \<Rightarrow> (cthread \<times> world) res" where
  "NewThread entries mem pta s =
     (let (ct, w) = s; pcp = t_pcp pta in
      bind_res (PrepareArgsIn ct pcp w) (\<lambda>w.
      bind_res (part_of pcp w) (\<lambda>cp.
      bind_res (Run (entries pcp) mem cp (libs w pcp) (w_pool w)) (\<lambda>(rtn, cp, lib, p).
        let w = w\<lparr>parts := (parts w)(pcp \<mapsto> cp), libs := (libs w)(pcp := lib), w_pool := p\<rparr> in
        if rtn = 0 then
          bind_res (GetArgsOut pcp w ct) (\<lambda>ct. Inr (ChildThreadFSH (pta\<lparr>t_rtn := 0\<rparr>) ct, w))
        else Inr (ChildThreadFSH (pta\<lparr>t_rtn := - 1\<rparr>) ct, w)))))"

section \<open>The daemon\<close>

fun finish_children :: "thread_args list \<Rightarrow> world \<Rightarrow> cthread \<Rightarrow> cthread res" where
  "finish_children [] w ct = Inr ct"
| "finish_children (cfh # cfs) w ct =
     bind_res (found (threads ct) (t_id cfh)) (\<lambda>cpdt.
     bind_res (if t_rtn cfh = 0 then
         bind_res (part_of (t_pcp cfh) w) (\<lambda>cp.
         bind_res (assign_at (cp_name cp) True (ifsolved ct)) (\<lambda>so.
         bind_res (assign_at (cp_name cp) True (if_rargs ct)) (\<lambda>ir. Inr (ct\<lparr>ifsolved := so, if_rargs := ir\<rparr>))))
       else Inr ct) (\<lambda>ct.
     finish_children cfs w (ct\<lparr>threads := AList.delete (t_id cfh) (threads ct),
       cpttid := AList.delete (t_pcp cfh) (cpttid ct)\<rparr>)))"

text \<open>The second component tells whether the task registers itself for another round.\<close>

definition Daemon :: "world \<Rightarrow> cthread \<Rightarrow> (cthread \<times> bool) res" where
  "Daemon w ct =
     bind_res (finish_children (child_finished ct) w ct) (\<lambda>ct.
       Inr (ct\<lparr>child_finished := []\<rparr>, 0 < length (threads ct)))"

definition FindChildPCS :: "string \<Rightarrow> cthread \<Rightarrow> u64 res" where
  "FindChildPCS n ct = bind_res (found (cparts ct) n) (\<lambda>pcp. found (cpttid ct) pcp)"

text \<open>Cancelling removes the thread from \<open>threads\<close>, not from \<open>cpttid\<close>.\<close>

definition CancelChildPCS :: "u64 \<Rightarrow> cthread \<Rightarrow> (int \<times> cthread) res" where
  "CancelChildPCS tid ct = bind_res (found (threads ct) tid) (\<lambda>_. Inr (0, ct\<lparr>threads := AList.delete tid (threads ct)\<rparr>))"

section \<open>Results of other machines\<close>

record compute_result =
  cr_name :: string
  cr_args_in :: "nat list"
  cr_args_out :: "nat list option"

fun add_each :: "(nat \<Rightarrow> cthread \<Rightarrow> pool \<Rightarrow> (cthread \<times> pool) res) \<Rightarrow> nat list \<Rightarrow> cthread \<Rightarrow> pool \<Rightarrow> (cthread \<times> pool) res" where
  "add_each f [] ct p = Inr (ct, p)"
| "add_each f (ptr # ptrs) ct p = bind_res (f ptr ct p) (\<lambda>(ct, p). add_each f ptrs ct p)"

text \<open>\<open>args_out\<close> is \<open>None\<close> for the uninitialised pointer of a result of \<open>BuildCPUResult\<close>; \<open>MapThrough\<close> has an empty body.\<close>

definition GetCPUResult :: "compute_result \<Rightarrow> world \<Rightarrow> cthread \<Rightarrow> (int \<times> cthread \<times> world) res" where
  "GetCPUResult pcrt w ct =
     bind_res (assign_at (cr_name pcrt) True (ifsolved ct)) (\<lambda>so.
     bind_res (bind_res (found (cparts ct) (cr_name pcrt)) (\<lambda>pcp. part_of pcp w)) (\<lambda>cp.
     case cr_args_out pcrt of None \<Rightarrow> Inl OutOfBounds | Some outs \<Rightarrow>
     bind_res (add_each (AddArgsOut (cr_name pcrt)) outs (ct\<lparr>ifsolved := so\<rparr>) (w_pool w)) (\<lambda>(ct, p).
     bind_res (add_each (AddArgs (cr_name pcrt)) (cr_args_in pcrt) ct p) (\<lambda>(ct, p).
     bind_res (assign_at (cr_name pcrt) True (ifsolved ct)) (\<lambda>so.
     bind_res (assign_at (cr_name pcrt) True (if_rargs ct)) (\<lambda>ir.
       Inr (0, ct\<lparr>ifsolved := so, if_rargs := ir\<rparr>, w\<lparr>w_pool := p\<rparr>)))))))"

definition BuildCPUResult :: "nat \<Rightarrow> world \<Rightarrow> cthread \<Rightarrow> compute_result res" where
  "BuildCPUResult pcp w ct =
     bind_res (part_of pcp w) (\<lambda>cp. bind_res (found (rargs ct) (cp_name cp)) (\<lambda>args.
       Inr \<lparr>cr_name = cp_name cp, cr_args_in = args, cr_args_out = None\<rparr>))"

definition SignedCpart :: "(string \<times> bool) list \<Rightarrow> cpart \<Rightarrow> (string \<times> bool) list res" where
  "SignedCpart pifsolved cp = assign_at (cp_name cp) True pifsolved"

section \<open>A task from start to settled\<close>

definition named :: "world \<Rightarrow> nat \<Rightarrow> string \<Rightarrow> bool" where
  "named w pcp n \<longleftrightarrow> (\<exists>cp. parts w pcp = Some cp \<and> cp_name cp = n)"

fun run_children :: "(nat \<Rightarrow> entry) \<Rightarrow> (malloc_answer list \<times> thread_args) list \<Rightarrow> cthread \<times> world \<Rightarrow> (cthread \<times> world) res" where
  "run_children entries [] s = Inr s"
| "run_children entries ((mem, pta) # rest) s = bind_res (NewThread entries mem pta s) (run_children entries rest)"

lemma assign_at_Some: "map_of m n \<noteq> None \<Longrightarrow> assign_at n v m = Inr (AList.update n v m)"
  by (auto simp: assign_at_def)

lemma keys_delete: "fst ` set (AList.delete k al) = fst ` set al - {k}"
  by (auto simp: AList.delete_eq)

lemma delete_filter: "filter (\<lambda>kv. fst kv \<notin> A) (AList.delete k al) = filter (\<lambda>kv. fst kv \<notin> insert k A) al"
  by (auto simp: AList.delete_eq split_def intro!: filter_cong)

lemma finish_children_result:
  assumes "distinct (map t_id cfs)" "t_id ` set cfs \<subseteq> fst ` set (threads ct)"
    and "\<And>c. c \<in> set cfs \<Longrightarrow> \<exists>n. named w (t_pcp c) n \<and> map_of (ifsolved ct) n \<noteq> None \<and> map_of (if_rargs ct) n \<noteq> None"
  shows "\<exists>ct'. finish_children cfs w ct = Inr ct'
    \<and> threads ct' = filter (\<lambda>kv. fst kv \<notin> t_id ` set cfs) (threads ct)
    \<and> cpttid ct' = filter (\<lambda>kv. fst kv \<notin> t_pcp ` set cfs) (cpttid ct)
    \<and> (\<forall>n. map_of (ifsolved ct') n = (if \<exists>c \<in> set cfs. t_rtn c = 0 \<and> named w (t_pcp c) n then Some True else map_of (ifsolved ct) n))"
  using assms
proof (induction cfs arbitrary: ct)
  case (Cons c cfs)
  from Cons.prems(3) [of c] obtain cp where cp: "parts w (t_pcp c) = Some cp"
    "map_of (ifsolved ct) (cp_name cp) \<noteq> None" "map_of (if_rargs ct) (cp_name cp) \<noteq> None"
    by (auto simp: named_def)
  have thr: "map_of (threads ct) (t_id c) \<noteq> None" using Cons.prems(2) by (simp add: map_of_eq_None_iff)
  let ?solved = "if t_rtn c = 0 then ct\<lparr>ifsolved := AList.update (cp_name cp) True (ifsolved ct),
    if_rargs := AList.update (cp_name cp) True (if_rargs ct)\<rparr> else ct"
  let ?ct = "?solved\<lparr>threads := AList.delete (t_id c) (threads ct), cpttid := AList.delete (t_pcp c) (cpttid ct)\<rparr>"
  have step: "finish_children (c # cfs) w ct = finish_children cfs w ?ct"
    using thr cp by (auto simp: found_def part_of_def assign_at_Some)
  have "\<exists>ct'. finish_children cfs w ?ct = Inr ct'
    \<and> threads ct' = filter (\<lambda>kv. fst kv \<notin> t_id ` set cfs) (threads ?ct)
    \<and> cpttid ct' = filter (\<lambda>kv. fst kv \<notin> t_pcp ` set cfs) (cpttid ?ct)
    \<and> (\<forall>n. map_of (ifsolved ct') n = (if \<exists>c \<in> set cfs. t_rtn c = 0 \<and> named w (t_pcp c) n then Some True else map_of (ifsolved ?ct) n))"
  proof (rule Cons.IH)
    show "distinct (map t_id cfs)" using Cons.prems(1) by simp
    have "t_id c \<notin> t_id ` set cfs" "t_id ` set cfs \<subseteq> fst ` set (threads ct)" using Cons.prems(1,2) by simp_all
    then have "t_id ` set cfs \<subseteq> fst ` set (threads ct) - {t_id c}" by blast
    then have "t_id ` set cfs \<subseteq> fst ` set (AList.delete (t_id c) (threads ct))" by (simp only: keys_delete)
    then show "t_id ` set cfs \<subseteq> fst ` set (threads ?ct)" by simp
    fix d assume "d \<in> set cfs"
    then obtain n where "named w (t_pcp d) n" "map_of (ifsolved ct) n \<noteq> None" "map_of (if_rargs ct) n \<noteq> None"
      using Cons.prems(3) [of d] by auto
    then show "\<exists>n. named w (t_pcp d) n \<and> map_of (ifsolved ?ct) n \<noteq> None \<and> map_of (if_rargs ?ct) n \<noteq> None"
      by (intro exI [of _ n]) (auto simp: update_conv' intro: exI [of _ True])
  qed
  then obtain ct' where ct': "finish_children cfs w ?ct = Inr ct'"
    "threads ct' = filter (\<lambda>kv. fst kv \<notin> t_id ` set cfs) (threads ?ct)"
    "cpttid ct' = filter (\<lambda>kv. fst kv \<notin> t_pcp ` set cfs) (cpttid ?ct)"
    "\<And>n. map_of (ifsolved ct') n = (if \<exists>c \<in> set cfs. t_rtn c = 0 \<and> named w (t_pcp c) n then Some True else map_of (ifsolved ?ct) n)"
    by blast
  have "named w (t_pcp c) n \<longleftrightarrow> cp_name cp = n" for n using cp(1) by (simp add: named_def)
  then have "map_of (ifsolved ct') n = (if \<exists>d \<in> set (c # cfs). t_rtn d = 0 \<and> named w (t_pcp d) n then Some True else map_of (ifsolved ct) n)" for n
    by (auto simp: ct'(4) update_conv')
  then show ?case using ct'(1-3) unfolding step
    by (intro exI [of _ ct']) (simp add: delete_filter)
qed simp

text \<open>The parts of a task that the start of threads leaves alone.\<close>

definition same_task :: "cthread \<Rightarrow> cthread \<Rightarrow> bool" where
  "same_task ct' ct \<longleftrightarrow> cparts ct' = cparts ct \<and> rargs ct' = rargs ct \<and> rargs_out ct' = rargs_out ct
     \<and> ifsolved ct' = ifsolved ct \<and> if_rargs ct' = if_rargs ct \<and> child_finished ct' = child_finished ct \<and> line ct' = line ct"

lemma start_line_result:
  assumes "length hs = length ps" "\<And>p. p \<in> set ps \<Longrightarrow> \<exists>n. named w p n \<and> map_of (rargs ct) n \<noteq> None"
    and "length (threads ct) + length ps < 2 ^ 64" "idxtid ct = word_of_nat (length (threads ct))"
    and "map fst (threads ct) = map word_of_nat [0 ..< length (threads ct)]"
  shows "\<exists>ct'. start_line ps (map Some hs) w ct = Inr ct'
    \<and> map fst (threads ct') = map word_of_nat [0 ..< length (threads ct) + length ps]
    \<and> fst ` set (cpttid ct') = fst ` set (cpttid ct) \<union> set ps
    \<and> same_task ct' ct"
  using assms
proof (induction ps arbitrary: hs ct)
  case Nil
  then show ?case by (intro exI [of _ ct]) (auto simp: same_task_def)
next
  case (Cons p ps)
  then obtain h hs' where hs: "hs = h # hs'" by (cases hs) auto
  from Cons.prems(2) [of p] obtain cp where cp: "parts w p = Some cp" "map_of (rargs ct) (cp_name cp) \<noteq> None"
    by (auto simp: named_def)
  let ?k = "length (threads ct)"
  have "(word_of_nat ?k :: u64) \<notin> word_of_nat ` {0 ..< ?k}"
  proof
    assume "word_of_nat ?k \<in> (word_of_nat :: nat \<Rightarrow> u64) ` {0 ..< ?k}"
    then obtain i where i: "i < ?k" "(word_of_nat ?k :: u64) = word_of_nat i" by auto
    have "unat (word_of_nat ?k :: u64) = ?k" "unat (word_of_nat i :: u64) = i"
      using Cons.prems(3) i(1) by (intro unat_of_nat_u64; simp)+
    with i show False by simp
  qed
  then have new: "map_of (threads ct) (idxtid ct) = None"
    using Cons.prems(4,5) by (simp add: map_of_eq_None_iff) (metis atLeastLessThan_upt list.set_map)
  let ?ct = "ct\<lparr>idxtid := idxtid ct + 1, threads := threads ct @ [(idxtid ct, h)], cpttid := insert_new p (idxtid ct) (cpttid ct)\<rparr>"
  have step: "start_line (p # ps) (map Some hs) w ct = start_line ps (map Some hs') w ?ct"
    using cp new by (auto simp: part_of_def found_def hs insert_new_def)
  have "\<exists>ct'. start_line ps (map Some hs') w ?ct = Inr ct'
    \<and> map fst (threads ct') = map word_of_nat [0 ..< length (threads ?ct) + length ps]
    \<and> fst ` set (cpttid ct') = fst ` set (cpttid ?ct) \<union> set ps
    \<and> same_task ct' ?ct"
    by (rule Cons.IH) (use Cons.prems hs in auto)
  moreover have "fst ` set (insert_new p (idxtid ct) (cpttid ct)) = insert p (fst ` set (cpttid ct))"
    by (simp add: insert_new_def map_of_eq_None_iff insert_absorb)
  ultimately show ?case unfolding step by (auto simp: same_task_def)
qed

text \<open>A child thread adds its record and outputs to the task, and keeps the names of all modules.\<close>

lemma Clear_name: "Clear cp p = Inr (cp', p') \<Longrightarrow> cp_name cp' = cp_name cp"
  by (auto simp: Clear_def)

lemma take_args_name: "take_args ptrs cp p = Inr (cp', p') \<Longrightarrow> cp_name cp' = cp_name cp"
  by (induction ptrs cp p rule: take_args.induct) (auto split: prod.splits option.splits)

lemma Run_name: "Run func mem cp lib p = Inr (r, cp', lib', p') \<Longrightarrow> cp_name cp' = cp_name cp"
  by (auto simp: Run_def case_prod_beta Let_def split: if_splits)

lemma NewThread_frame:
  assumes "NewThread entries mem pta (ct, w) = Inr (ct', w')"
  shows "(\<forall>p n. named w' p n = named w p n) \<and> threads ct' = threads ct \<and> cpttid ct' = cpttid ct
    \<and> ifsolved ct' = ifsolved ct \<and> if_rargs ct' = if_rargs ct
    \<and> (\<exists>r. child_finished ct' = child_finished ct @ [pta\<lparr>t_rtn := r\<rparr>])"
  using assms
  by (auto simp: NewThread_def PrepareArgsIn_def part_of_def GetArgsOut_def ChildThreadFSH_def named_def Let_def
      split: if_splits option.splits dest!: Clear_name take_args_name Run_name)

lemma run_children_frame:
  assumes "run_children entries jobs (ct, w) = Inr (ct', w')"
  shows "(\<forall>p n. named w' p n = named w p n) \<and> threads ct' = threads ct \<and> cpttid ct' = cpttid ct
    \<and> ifsolved ct' = ifsolved ct \<and> if_rargs ct' = if_rargs ct
    \<and> (\<exists>rs. length rs = length jobs \<and> child_finished ct' = child_finished ct @
        map (\<lambda>(pta, r). pta\<lparr>t_rtn := r\<rparr>) (zip (map snd jobs) rs))"
  using assms
proof (induction jobs arbitrary: ct w)
  case (Cons j jobs)
  obtain mem pta where j: "j = (mem, pta)" by (cases j)
  with Cons.prems obtain ct1 w1 where s: "NewThread entries mem pta (ct, w) = Inr (ct1, w1)"
    "run_children entries jobs (ct1, w1) = Inr (ct', w')" by auto
  from NewThread_frame [OF s(1)] obtain r where "child_finished ct1 = child_finished ct @ [pta\<lparr>t_rtn := r\<rparr>]" by blast
  moreover from Cons.IH [OF s(2)] obtain rs where "length rs = length jobs"
    "child_finished ct' = child_finished ct1 @ map (\<lambda>(pta, r). pta\<lparr>t_rtn := r\<rparr>) (zip (map snd jobs) rs)" by blast
  ultimately show ?case using NewThread_frame [OF s(1)] Cons.IH [OF s(2)] j
    by (auto intro!: exI [of _ "r # rs"])
qed simp

definition child :: "nat list \<Rightarrow> nat \<Rightarrow> thread_args" where
  "child ps i = \<lparr>t_id = word_of_nat i, t_pcp = ps ! i, t_rtn = - 1\<rparr>"

lemma map_of_const: "map_of (map (\<lambda>cp. (fst cp, v)) m) n = (if map_of m n = None then None else Some v)"
  by (induction m) auto

lemma filter_all_removed: "fst ` set xs \<subseteq> A \<Longrightarrow> filter (\<lambda>kv. fst kv \<notin> A) xs = []"
  by (auto simp: filter_empty_conv)

lemma distinct_word_ids:
  assumes "distinct js" "set js \<subseteq> {..< 2 ^ 64}"
  shows "distinct (map (word_of_nat :: nat \<Rightarrow> u64) js)"
proof -
  have "inj_on (word_of_nat :: nat \<Rightarrow> u64) (set js)"
  proof (rule inj_onI)
    fix i j assume ij: "i \<in> set js" "j \<in> set js" "(word_of_nat i :: u64) = word_of_nat j"
    have "unat (word_of_nat i :: u64) = i" "unat (word_of_nat j :: u64) = j"
      using ij(1,2) assms(2) by (intro unat_of_nat_u64; auto)+
    with ij(3) show "i = j" by metis
  qed
  with assms(1) show ?thesis by (simp add: distinct_map)
qed

text \<open>All children that were started have run, and one round of the daemon follows.\<close>

lemma children_settle:
  assumes ct1: "map fst (threads ct1) = map word_of_nat [0 ..< length ps]" "fst ` set (cpttid ct1) = set ps"
      "same_task ct1 ((CThread m k)\<lparr>line := ps\<rparr>)" and len: "length ps < 2 ^ 64"
    and names: "\<And>p. p \<in> set ps \<Longrightarrow> \<exists>n. named w p n \<and> map_of m n \<noteq> None"
    and js: "distinct js" "set js = {..< length ps}"
    and run: "run_children entries (map (\<lambda>i. (mems i, child ps i)) js) (ct1, w) = Inr (ct2, w2)"
  shows "\<exists>ct3. Daemon w2 ct2 = Inr (ct3, False) \<and> threads ct3 = [] \<and> cpttid ct3 = [] \<and> child_finished ct3 = []
      \<and> (\<forall>n. map_of (ifsolved ct3) n = (if map_of m n = None then None
            else Some (\<exists>c \<in> set (child_finished ct2). t_rtn c = 0 \<and> named w (t_pcp c) n)))"
proof -
  from run_children_frame [OF run] ct1(3) obtain rs where fr: "\<And>p n. named w2 p n = named w p n" "threads ct2 = threads ct1"
    "cpttid ct2 = cpttid ct1" "ifsolved ct2 = map (\<lambda>cp. (fst cp, False)) m" "if_rargs ct2 = map (\<lambda>cp. (fst cp, False)) m"
    "length rs = length js"
    "child_finished ct2 = map (\<lambda>(pta, r). pta\<lparr>t_rtn := r\<rparr>) (zip (map (child ps) js) rs)"
    by (auto simp: same_task_def CThread_def comp_def)
  have parts: "map t_id (child_finished ct2) = map word_of_nat js" "map t_pcp (child_finished ct2) = map ((!) ps) js"
    unfolding fr(7) using fr(6) by (auto simp: child_def list_eq_iff_nth_eq)
  have ids: "t_id ` set (child_finished ct2) = fst ` set (threads ct1)"
    using arg_cong [OF parts(1), of set] arg_cong [OF ct1(1), of set] js(2) by (simp add: lessThan_atLeast0)
  have pcps: "t_pcp ` set (child_finished ct2) = set ps"
    using arg_cong [OF parts(2), of set] js(2) by (simp add: nth_image lessThan_atLeast0)
  have "\<exists>ct'. finish_children (child_finished ct2) w2 ct2 = Inr ct'
    \<and> threads ct' = filter (\<lambda>kv. fst kv \<notin> t_id ` set (child_finished ct2)) (threads ct2)
    \<and> cpttid ct' = filter (\<lambda>kv. fst kv \<notin> t_pcp ` set (child_finished ct2)) (cpttid ct2)
    \<and> (\<forall>n. map_of (ifsolved ct') n = (if \<exists>c \<in> set (child_finished ct2). t_rtn c = 0 \<and> named w2 (t_pcp c) n then Some True
          else map_of (ifsolved ct2) n))"
  proof (rule finish_children_result)
    show "distinct (map t_id (child_finished ct2))"
      unfolding parts using js len by (intro distinct_word_ids) auto
    show "t_id ` set (child_finished ct2) \<subseteq> fst ` set (threads ct2)" by (simp add: ids fr(2))
    fix c assume "c \<in> set (child_finished ct2)"
    then have "t_pcp c \<in> set ps" using pcps by blast
    then show "\<exists>n. named w2 (t_pcp c) n \<and> map_of (ifsolved ct2) n \<noteq> None \<and> map_of (if_rargs ct2) n \<noteq> None"
      using names [of "t_pcp c"] by (auto simp: fr map_of_const)
  qed
  moreover have "filter (\<lambda>kv. fst kv \<notin> t_id ` set (child_finished ct2)) (threads ct2) = []"
    "filter (\<lambda>kv. fst kv \<notin> t_pcp ` set (child_finished ct2)) (cpttid ct2) = []"
    using ids pcps ct1(2) fr(2,3) by (auto intro!: filter_all_removed)
  ultimately obtain ct' where ct': "finish_children (child_finished ct2) w2 ct2 = Inr ct'" "threads ct' = []" "cpttid ct' = []"
    "\<forall>n. map_of (ifsolved ct') n = (if \<exists>c \<in> set (child_finished ct2). t_rtn c = 0 \<and> named w (t_pcp c) n then Some True
          else map_of (ifsolved ct2) n)"
    unfolding fr(1) by (elim exE conjE) (rule that, simp_all only:)
  have known: "map_of m n \<noteq> None" if "c \<in> set (child_finished ct2)" "named w (t_pcp c) n" for c n
  proof -
    have "t_pcp c \<in> set ps" using pcps that(1) by blast
    with names [of "t_pcp c"] that(2) show ?thesis by (auto simp: named_def)
  qed
  have "map_of (ifsolved ct') n = (if map_of m n = None then None
      else Some (\<exists>c \<in> set (child_finished ct2). t_rtn c = 0 \<and> named w (t_pcp c) n))" for n
  proof (cases "\<exists>c \<in> set (child_finished ct2). t_rtn c = 0 \<and> named w (t_pcp c) n")
    case True
    then have "map_of m n \<noteq> None" using known by blast
    with True show ?thesis by (simp add: ct'(4))
  qed (simp add: ct'(4) fr(4) map_of_const)
  then show ?thesis using ct'(1-3)
    by (intro exI [of _ "ct'\<lparr>child_finished := []\<rparr>"]) (simp add: Daemon_def)
qed


definition sample_world :: world where
  "sample_world = \<lparr>parts = [4 \<mapsto> blank_cpart\<lparr>func_set := True, cp_name := ''a''\<rparr>, 5 \<mapsto> blank_cpart\<lparr>func_set := True, cp_name := ''b''\<rparr>],
     libs = (\<lambda>_. \<lparr>lib_in = [], lib_out = []\<rparr>), w_pool = empty_pool\<rparr>"

definition sample_entry :: "nat \<Rightarrow> entry" where
  "sample_entry pcp = (\<lambda>i out. (if pcp = 4 then 0 else 1, i, out))"


section \<open>Outputs of a module that runs again\<close>

lemma free_all_other: "free_all ptrs p = Inr q \<Longrightarrow> ptr \<notin> set ptrs \<Longrightarrow>
    blocks_list q ptr = blocks_list p ptr \<and> heap q ptr = heap p ptr"
proof (induction ptrs arbitrary: p)
  case (Cons a ptrs)
  then obtain r where r: "b_free a p = Inr r" "free_all ptrs r = Inr q" by auto
  have "blocks_list r ptr = blocks_list p ptr \<and> heap r ptr = heap p ptr"
    using r(1) Cons.prems(2) by (auto simp: b_free_def split: option.splits if_splits)
  with Cons.IH [OF r(2)] Cons.prems(2) show ?case by simp
qed simp

lemma free_all_gone: "free_all ptrs p = Inr q \<Longrightarrow> blocks_list p ptr = None \<Longrightarrow> blocks_list q ptr = None"
proof (induction ptrs arbitrary: p)
  case (Cons a ptrs)
  then obtain r where r: "b_free a p = Inr r" "free_all ptrs r = Inr q" by auto
  have "blocks_list r ptr = None"
    using r(1) Cons.prems(2) by (auto simp: b_free_def split: option.splits if_splits)
  with Cons.IH [OF r(2)] show ?case by simp
qed simp

lemma free_all_last_reference:
  "free_all ptrs p = Inr q \<Longrightarrow> ptr \<in> set ptrs \<Longrightarrow> blocks_list p ptr = Some blk \<Longrightarrow> lock blk = 1 \<Longrightarrow> \<not> pted blk \<Longrightarrow>
    blocks_list q ptr = None"
proof (induction ptrs arbitrary: p)
  case (Cons a ptrs)
  then obtain r where r: "b_free a p = Inr r" "free_all ptrs r = Inr q" by auto
  show ?case
  proof (cases "a = ptr")
    case True
    then have "blocks_list r ptr = None" using r(1) Cons.prems(3-5) by (auto simp: b_free_def split: if_splits)
    then show ?thesis by (rule free_all_gone [OF r(2)])
  next
    case False
    then have "blocks_list r ptr = Some blk"
      using r(1) Cons.prems(3) by (auto simp: b_free_def split: option.splits if_splits)
    with Cons.IH [OF r(2)] Cons.prems False show ?thesis by simp
  qed
qed simp

lemma take_args_gone: "take_args ptrs cp p = Inr (cp', q) \<Longrightarrow> blocks_list p ptr = None \<Longrightarrow> blocks_list q ptr = None"
proof (induction ptrs arbitrary: cp p)
  case (Cons a ptrs)
  from Cons.prems obtain b where b: "blocks_list p a = Some b"
    "take_args ptrs (cp\<lparr>args_in := args_in cp @ [a]\<rparr>) (snd (b_get a p)) = Inr (cp', q)"
    by (cases "blocks_list p a") (simp_all add: b_get_def)
  then have "blocks_list (snd (b_get a p)) ptr = None" using Cons.prems(2) by (auto simp: b_get_def)
  with Cons.IH [OF b(2)] show ?case .
qed simp

text \<open>
  An output whose only reference is the module's own is released when the module prepares its next run, while
  \<open>rargs_out\<close> of the task still lists it; whoever asks for it then gets the exception \<open>information lost\<close>.
\<close>

lemma outputs_dangle:
  assumes "PrepareArgsIn ct pcp w = Inr w'" "parts w pcp = Some cp" "ptr \<in> set (args_out cp)" "ptr \<notin> set (args_in cp)"
    and "blocks_list (w_pool w) ptr = Some blk" "lock blk = 1" "\<not> pted blk"
  shows "AddArgs n ptr ct' (w_pool w') = Inl (ThrownText ''information lost'')"
proof -
  from assms(1,2) obtain args p1 p2 cp' p3 where
    p: "free_all (args_in cp) (w_pool w) = Inr p1" "free_all (args_out cp) p1 = Inr p2"
      "take_args args (cp\<lparr>args_in := [], args_out := []\<rparr>) p2 = Inr (cp', p3)" "w_pool w' = p3"
    by (auto simp: PrepareArgsIn_def part_of_def Clear_def)
  have "blocks_list p1 ptr = Some blk" using free_all_other [OF p(1) assms(4)] assms(5) by simp
  then have "blocks_list p2 ptr = None" by (rule free_all_last_reference [OF p(2) assms(3) _ assms(6,7)])
  then have "blocks_list (w_pool w') ptr = None" unfolding p(4) by (rule take_args_gone [OF p(3)])
  then show ?thesis by (simp add: AddArgs_def b_get_def)
qed

end
