(* ===== verification/StdMap.thy ===== *)
theory StdMap
  imports Main "HOL-Library.Char_ord" "HOL-Library.List_Lexorder"
begin

text \<open>
  \<open>std::map\<close> as the list of its entries in the order of an iteration, which is the order of the keys; for a
  \<open>std::string\<close> that is the lexicographic order of its unsigned characters. \<open>insert\<close> keeps an entry that
  is already there.
\<close>

fun ins :: "'k \<Rightarrow> 'v \<Rightarrow> ('k :: linorder \<times> 'v) list \<Rightarrow> ('k \<times> 'v) list" where
  "ins k v [] = [(k, v)]"
| "ins k v ((k', v') # m) =
     (if k = k' then (k', v') # m else if k < k' then (k, v) # (k', v') # m else (k', v') # ins k v m)"

definition std_map :: "('k :: linorder \<times> 'v) list \<Rightarrow> bool" where
  "std_map m \<longleftrightarrow> sorted (map fst m) \<and> distinct (map fst m)"

lemma std_map_Nil [simp]: "std_map []"
  by (simp add: std_map_def)

lemma std_map_Cons: "std_map ((k, v) # m) \<longleftrightarrow> (\<forall>k' \<in> fst ` set m. k < k') \<and> std_map m"
  unfolding std_map_def by (auto simp: less_le)

lemma keys_ins [simp]: "fst ` set (ins k v m) = insert k (fst ` set m)"
  by (induction k v m rule: ins.induct) auto

lemma std_map_ins [simp]: "std_map m \<Longrightarrow> std_map (ins k v m)"
proof (induction k v m rule: ins.induct)
  case (2 k v k' v' m)
  then show ?case by (auto simp: std_map_Cons)
qed (simp add: std_map_Cons)

lemma map_of_None_std_map: "std_map ((k', v') # m) \<Longrightarrow> k < k' \<Longrightarrow> map_of m k = None"
  by (force simp: std_map_Cons map_of_eq_None_iff)

lemma map_of_ins:
  "std_map m \<Longrightarrow> map_of (ins k v m) = (if map_of m k = None then (map_of m)(k \<mapsto> v) else map_of m)"
proof (induction k v m rule: ins.induct)
  case (2 k v k' v' m)
  then have "std_map m" by (simp add: std_map_Cons)
  with 2 show ?case using map_of_None_std_map [OF "2.prems", of k] by (auto simp: fun_eq_iff)
qed (simp add: fun_eq_iff)

lemma set_ins: "set (ins k v m) \<subseteq> insert (k, v) (set m)"
  by (induction k v m rule: ins.induct) auto

lemma ins_present: "std_map m \<Longrightarrow> k \<in> fst ` set m \<Longrightarrow> ins k v m = m"
proof (induction k v m rule: ins.induct)
  case (2 k v k' v' m)
  then show ?case by (auto simp: std_map_Cons)
qed simp

lemma dom_map_of_fst: "dom (map_of m) = fst ` set m"
  by (rule dom_map_of_conv_image_fst)

lemma std_map_unique: "std_map m \<Longrightarrow> (k, v) \<in> set m \<Longrightarrow> map_of m k = Some v"
  by (simp add: std_map_def)

end
