(* ===== verification/CptFile.thy ===== *)
theory CptFile
  imports CStrings StdMap
begin

text \<open>
  Description files: the class \<open>setting_file\<close> of \<^theory_text>\<open>src/include/cproj.h\<close>, which reads a file and cuts it into
  statements and nested blocks, and the class \<open>Cpt\<close> of \<^theory_text>\<open>src/src/cproj_cpt.cpp\<close>, which takes the source files
  and the entry functions with their arguments out of them. The contents of a file are a list of characters; \<open>None\<close>
  is a file that cannot be opened.
\<close>

section \<open>Reading a file\<close>

record ifs =
  rest :: string
  ifs_eof :: bool
  ifs_bad :: bool

definition ifs_open :: "string option \<Rightarrow> ifs" where
  "ifs_open f = (case f of None \<Rightarrow> \<lparr>rest = [], ifs_eof = False, ifs_bad = True\<rparr>
     | Some s \<Rightarrow> \<lparr>rest = s, ifs_eof = False, ifs_bad = False\<rparr>)"

text \<open>\<open>ifs.read(tmp, n)\<close> into an array of zeros; a stream that failed once reads nothing.\<close>

definition ifs_read :: "nat \<Rightarrow> ifs \<Rightarrow> string \<times> ifs" where
  "ifs_read n s =
     (if ifs_bad s then (replicate n CHR 0x00, s)
      else let got = take n (rest s); short = length (rest s) < n
           in (got @ replicate (n - length got) CHR 0x00,
               s\<lparr>rest := drop n (rest s), ifs_eof := short, ifs_bad := short\<rparr>))"

text \<open>
  The loop of \<open>read_file\<close>: \<open>None\<close> stands for a loop that never ends. \<open>acc\<close> is what was copied to the buffer.
\<close>

partial_function (option) read_loop :: "nat \<Rightarrow> ifs \<Rightarrow> nat \<Rightarrow> string \<Rightarrow> string option" where
  "read_loop sz s idx_count acc =
     (if \<not> ifs_eof s \<and> idx_count < sz then
        if sz < 512 then
          (let (tmp, s) = ifs_read sz s in read_loop sz s (idx_count + sz) tmp)
        else if 512 < sz then
          if 512 \<le> sz - idx_count then
            (let (tmp, s) = ifs_read 512 s in read_loop sz s (idx_count + 512) (acc @ tmp))
          else
            (let (tmp, s) = ifs_read (sz - idx_count) s in read_loop sz s (idx_count + (sz - idx_count)) (acc @ tmp))
        else read_loop sz s idx_count acc
      else Some acc)"

declare read_loop.simps [code]

definition read_file :: "string option \<Rightarrow> nat \<Rightarrow> string option" where
  "read_file f sz = read_loop sz (ifs_open f) 0 []"

text \<open>\<open>st_size\<close> comes from \<open>stat\<close>, \<open>junk\<close> is the uninitialised buffer from \<open>malloc\<close>.\<close>

definition read_settings :: "string option \<Rightarrow> nat \<Rightarrow> string \<Rightarrow> string \<Rightarrow> string option" where
  "read_settings f st_size junk tstr =
     map_option (\<lambda>fbs. tstr @ filter is_graph (take st_size (fbs @ drop (length fbs) junk))) (read_file f st_size)"

section \<open>Statements and blocks\<close>

datatype sfr = Sfr (sf_key: string) (sf_name: string) (sentence: string) (if_blk: bool) (childs: "sfr list")

definition if_illegal :: "char \<Rightarrow> bool" where
  "if_illegal c \<longleftrightarrow> is_alnum c \<or> c = CHR ''_''"

text \<open>As in the code, these two tests are true for legal names.\<close>

definition if_name_illegal :: "string \<Rightarrow> bool" where
  "if_name_illegal str \<longleftrightarrow> list_all if_illegal str"

definition find_char :: "char \<Rightarrow> string \<Rightarrow> nat \<Rightarrow> nat option" where
  "find_char c s i = find_from [c] s i"

text \<open>A block with everything up to the brace that closes it.\<close>

fun scan_block :: "int \<Rightarrow> string \<Rightarrow> string" where
  "scan_block blk_stack [] = []"
| "scan_block blk_stack (c # cs) =
     (if c = CHR ''{'' then c # scan_block (blk_stack + 1) cs
      else if c = CHR ''}'' then (if blk_stack - 1 = 1 then [c] else c # scan_block (blk_stack - 1) cs)
      else c # scan_block blk_stack cs)"

text \<open>The position behind the last closing brace; \<open>npos + 1\<close> is 0.\<close>

definition after_brace :: "string \<Rightarrow> nat" where
  "after_brace s = length (dropWhile (\<lambda>c. c \<noteq> CHR ''}'') (rev s))"

text \<open>\<open>substr(a, b - a)\<close> with unsigned arithmetic: a negative length takes everything.\<close>

definition between :: "nat \<Rightarrow> nat \<Rightarrow> string \<Rightarrow> string" where
  "between a b s = (if b < a then drop a s else take (b - a) (drop a s))"

definition block_head :: "string list \<Rightarrow> string \<Rightarrow> nat \<Rightarrow> (string \<times> string) res" where
  "block_head block_keys pcsstr blq_idx =
     (case find (\<lambda>key. find_from key (take blq_idx pcsstr) 0 \<noteq> None) block_keys of
        None \<Rightarrow> Inl (ThrownText ''unknown block key'')
      | Some key \<Rightarrow>
          let keystr = take (length key) pcsstr; namestr = between (length key) blq_idx pcsstr
          in if \<not> if_name_illegal namestr then Inl (ThrownText ''block name is illegal'')
             else if keystr = [] then Inl (ThrownText ''unknown block key'') else Inr (keystr, namestr))"

lemma length_scan_block: "length (scan_block n s) \<le> length s"
  by (induction n s rule: scan_block.induct) auto

function read_blocks :: "string \<Rightarrow> string list \<Rightarrow> sfr list \<Rightarrow> sfr list res" where
  "read_blocks tstr block_keys blocks =
     (if tstr = [] then Inr blocks
      else case find_char CHR '';'' tstr 0 of
        None \<Rightarrow> Inr blocks
      | Some sem_idx \<Rightarrow>
          (case find_char CHR ''{'' (take sem_idx tstr) 0 of
             None \<Rightarrow> read_blocks (drop (sem_idx + 1) tstr) block_keys (blocks @ [Sfr [] [] (take sem_idx tstr) False []])
           | Some blq_idx \<Rightarrow>
               let pcsstr = scan_block 1 tstr; brq_idx = after_brace pcsstr in
               bind_res (block_head block_keys pcsstr blq_idx) (\<lambda>(key, name).
               bind_res (read_blocks (between (blq_idx + 1) (brq_idx - 1) pcsstr) block_keys []) (\<lambda>ch.
                 if length tstr < brq_idx + 1 then Inl OutOfRange
                 else read_blocks (drop (brq_idx + 1) tstr) block_keys (blocks @ [Sfr key name [] True ch])))))"
  by pat_completeness auto
termination
proof (relation "measure (\<lambda>(tstr, block_keys, blocks). length tstr)", goal_cases)
  case (3 tstr block_keys blocks sem_idx blq_idx pcsstr brq_idx)
  then show ?case using length_scan_block [of 1 tstr] by (cases tstr) (auto simp: between_def)
qed auto

declare read_blocks.simps [simp del]

text \<open>The keyword of a statement and what follows it; \<open>-1\<close> when there is none.\<close>

definition read_stn :: "string \<Rightarrow> string list \<Rightarrow> int \<times> string \<times> string" where
  "read_stn stn_str stn_keys =
     (case find (\<lambda>key. find_from key stn_str 0 \<noteq> None) stn_keys of
        None \<Rightarrow> (- 1, [], [])
      | Some key \<Rightarrow> (if key = [] then - 1 else 0, key, drop (length key) stn_str))"

section \<open>Cpt files\<close>

record cpt_func_args =
  a_type :: string
  a_size :: int
  a_key :: string

record cpt =
  c_name :: string
  c_content :: string
  c_blocks :: "sfr list"
  src_files :: "string list"
  funcs_src :: "(string \<times> string) list"
  c_fargs_in :: "(string \<times> cpt_func_args list) list"
  c_fargs_out :: "(string \<times> cpt_func_args list) list"

text \<open>One argument. An opening bracket alone is not noticed.\<close>

definition deal_arg :: "string \<Rightarrow> cpt_func_args res" where
  "deal_arg arg =
     (case (find_char CHR ''['' arg 0, find_char CHR '']'' arg 0) of
        (Some fq_l, Some fq_r) \<Rightarrow>
          Inr \<lparr>a_type = take fq_l arg, a_size = extract_int (between (fq_l + 1) fq_r arg), a_key = drop (fq_r + 1) arg\<rparr>
      | (_, None) \<Rightarrow>
          (let (rtn, key, val) = read_stn arg [''int'', ''double''] in Inr \<lparr>a_type = key, a_size = 1, a_key = val\<rparr>)
      | _ \<Rightarrow> Inl (ThrownText ''syntax error''))"

text \<open>The pieces between the commas, from \<open>lcma_dix\<close> on.\<close>

function split_args :: "string \<Rightarrow> nat \<Rightarrow> cpt_func_args list \<Rightarrow> cpt_func_args list res" where
  "split_args args lcma_dix cfgs =
     (case find_char CHR '','' args lcma_dix of
        None \<Rightarrow> Inr cfgs
      | Some cma_idx \<Rightarrow>
          bind_res (deal_arg (between lcma_dix cma_idx args)) (\<lambda>ncfg.
            if find_char CHR '','' args (cma_idx + 1) = None then
              bind_res (deal_arg (drop (cma_idx + 1) args)) (\<lambda>ncfg'. Inr (cfgs @ [ncfg, ncfg']))
            else split_args args (cma_idx + 1) (cfgs @ [ncfg])))"
  by pat_completeness auto
termination
proof (relation "measure (\<lambda>(args, i, cfgs). Suc (length args) - i)", goal_cases)
  case (2 args i cfgs cma_idx ncfg)
  then have "i \<le> cma_idx \<and> cma_idx + length [CHR '',''] \<le> length args"
    unfolding find_char_def by (blast dest: find_from_SomeD)
  then have "i \<le> cma_idx" "cma_idx < length args" by simp_all
  then show ?case by simp
qed simp

declare split_args.simps [simp del]

text \<open>
  A list of arguments. Without a comma every visible character must be a letter, a digit or an underscore, so a single
  array is refused; three characters or fewer stand for no argument.
\<close>

definition deal_args :: "string \<Rightarrow> cpt_func_args list res" where
  "deal_args args =
     (if find_char CHR '','' args 0 = None then
        (let real_args = filter is_graph args in
         if \<not> list_all if_illegal real_args then Inl (ThrownText ''func name has illegal char'')
         else if 3 < length real_args then bind_res (deal_arg args) (\<lambda>ncfg. Inr [ncfg])
         else Inr [])
      else split_args args 0 [])"

definition deal_func :: "string \<Rightarrow> string \<Rightarrow> cpt \<Rightarrow> cpt res" where
  "deal_func tsrc_name sen c =
     (case (find_char CHR ''('' sen 0, find_char CHR '')'' sen 0) of
        (Some dq_l, Some dq_r) \<Rightarrow>
          bind_res (deal_args (between (dq_l + 1) dq_r sen)) (\<lambda>cfgo.
          case find_char CHR ''('' sen (dq_r + 1) of None \<Rightarrow> Inl (ThrownText ''syntax error'')
          | Some yq_l \<Rightarrow> (case find_char CHR '')'' sen yq_l of None \<Rightarrow> Inl (ThrownText ''syntax error'')
            | Some yq_r \<Rightarrow>
                bind_res (deal_args (between (yq_l + 1) yq_r sen)) (\<lambda>cfgi.
                let func_name = between (dq_r + 1) yq_l sen in
                if \<not> if_name_illegal func_name then Inl (ThrownText ''function name is illegal'')
                else Inr (c\<lparr>funcs_src := ins func_name tsrc_name (funcs_src c),
                            c_fargs_out := ins func_name cfgo (c_fargs_out c),
                            c_fargs_in := ins func_name cfgi (c_fargs_in c)\<rparr>))))
      | _ \<Rightarrow> Inl (ThrownText ''syntax error''))"

fun deal_funcs :: "string \<Rightarrow> sfr list \<Rightarrow> cpt \<Rightarrow> cpt res" where
  "deal_funcs tsrc_name [] c = Inr c"
| "deal_funcs tsrc_name (func # funcs) c =
     bind_res (if if_blk func then Inr c else deal_func tsrc_name (sentence func) c) (deal_funcs tsrc_name funcs)"

fun deal_srcs :: "sfr list \<Rightarrow> cpt \<Rightarrow> cpt res" where
  "deal_srcs [] c = Inr c"
| "deal_srcs (src # srcs) c =
     bind_res (if sf_key src = ''srcfile''
         then deal_funcs (sf_name src @ ''.cpp'') (childs src) (c\<lparr>src_files := src_files c @ [sf_name src @ ''.cpp'']\<rparr>)
         else Inr c) (deal_srcs srcs)"

definition deal_content :: "string \<Rightarrow> cpt \<Rightarrow> cpt res" where
  "deal_content data_content c =
     bind_res (read_blocks data_content [''cparts'', ''srcfile''] (c_blocks c)) (\<lambda>bs.
       let c = c\<lparr>c_blocks := bs, c_content := data_content\<rparr> in
       case find (\<lambda>b. sf_name b = c_name c) bs of
         None \<Rightarrow> Inl (ThrownText ''proper blocks not found'')
       | Some b \<Rightarrow> if if_blk b then deal_srcs (childs b) c else Inr c)"

definition new_cpt :: "string \<Rightarrow> cpt" where
  "new_cpt proj_name = \<lparr>c_name = proj_name, c_content = [], c_blocks = [], src_files = [], funcs_src = [], c_fargs_in = [], c_fargs_out = []\<rparr>"

text \<open>The two constructors: from a file, where the outer \<open>None\<close> is a file that is never read to its end, and from a string.\<close>

definition Cpt_file :: "string option \<Rightarrow> nat \<Rightarrow> string \<Rightarrow> string \<Rightarrow> cpt res option" where
  "Cpt_file f st_size junk proj_name =
     map_option (\<lambda>tifscpt. deal_content tifscpt (new_cpt proj_name)) (read_settings f st_size junk [])"

definition Cpt_data :: "string \<Rightarrow> string \<Rightarrow> cpt res" where
  "Cpt_data data_content proj_name = deal_content data_content (new_cpt proj_name)"

section \<open>Files are read completely, unless they have 512 bytes\<close>

lemma read_loop_ends: "read_loop sz s i acc = Some y \<Longrightarrow> sz = 512 \<longrightarrow> ifs_eof s \<or> 512 \<le> i"
  by (erule read_loop.raw_induct [rotated, where P = "\<lambda>sz s i acc y. sz = 512 \<longrightarrow> ifs_eof s \<or> 512 \<le> i"])
    (fastforce split: if_splits)

lemma read_loop_long:
  assumes "512 < sz" "length acc + length r = sz"
  shows "read_loop sz \<lparr>rest = r, ifs_eof = False, ifs_bad = False\<rparr> (length acc) acc = Some (acc @ r)"
  using assms
proof (induction "length r" arbitrary: r acc rule: less_induct)
  case less
  show ?case
  proof (cases "r = []")
    case True
    then show ?thesis using less.prems by (subst read_loop.simps) simp
  next
    case False
    let ?n = "if 512 \<le> length r then 512 else length r"
    have "read_loop sz \<lparr>rest = drop ?n r, ifs_eof = False, ifs_bad = False\<rparr> (length (acc @ take ?n r)) (acc @ take ?n r)
        = Some ((acc @ take ?n r) @ drop ?n r)"
      by (rule less.hyps) (use less.prems False in auto)
    moreover have "read_loop sz \<lparr>rest = r, ifs_eof = False, ifs_bad = False\<rparr> (length acc) acc
        = read_loop sz \<lparr>rest = drop ?n r, ifs_eof = False, ifs_bad = False\<rparr> (length (acc @ take ?n r)) (acc @ take ?n r)"
      using less.prems False by (subst read_loop.simps) (auto simp: ifs_read_def Let_def)
    ultimately show ?thesis by simp
  qed
qed

lemma read_file_content: "read_file (Some f) (length f) = (if length f = 512 then None else Some f)"
proof -
  consider "length f = 512" | "length f < 512" | "512 < length f" by linarith
  then show ?thesis
  proof cases
    case 1
    then show ?thesis using read_loop_ends [of 512 "ifs_open (Some f)" 0 "[]"]
      by (cases "read_file (Some f) (length f)") (auto simp: read_file_def ifs_open_def)
  next
    case 2
    then show ?thesis
      by (cases "f = []") (auto simp: read_file_def ifs_open_def ifs_read_def Let_def read_loop.simps)
  next
    case 3
    then show ?thesis using read_loop_long [of "length f" "[]" f] by (simp add: read_file_def ifs_open_def)
  qed
qed

lemma read_settings_content:
  "read_settings (Some f) (length f) junk tstr = (if length f = 512 then None else Some (tstr @ filter is_graph f))"
  by (simp add: read_settings_def read_file_content)

text \<open>
  C36. A settings file is read completely and loses exactly its white space and control characters, whatever its size,
  unless it has 512 bytes: then \<open>read_file\<close> never returns.
\<close>

theorem read_settings_returns:
  "read_settings (Some f) (length f) junk tstr = (if length f = 512 then None else Some (tstr @ filter is_graph f))"
  by (rule read_settings_content)

section \<open>Reading what was written\<close>

fun render :: "sfr \<Rightarrow> string" where
  "render (Sfr key name sen blk ch) =
     (if blk then key @ name @ ''{'' @ concat (map render ch) @ ''};'' else sen @ '';'')"

definition plain :: "string \<Rightarrow> bool" where
  "plain s \<longleftrightarrow> CHR ''{'' \<notin> set s \<and> CHR ''}'' \<notin> set s \<and> CHR '';'' \<notin> set s"

text \<open>
  Trees the format can express: a statement without braces and semicolons; a block whose keyword is the first of
  the list that occurs in its head, with a legal name.
\<close>

fun wf_sfr :: "string list \<Rightarrow> sfr \<Rightarrow> bool" where
  "wf_sfr keys (Sfr key name sen blk ch) =
     (if blk then sen = [] \<and> key \<noteq> [] \<and> plain key \<and> list_all if_illegal name
        \<and> find (\<lambda>k. find_from k (key @ name) 0 \<noteq> None) keys = Some key \<and> list_all (wf_sfr keys) ch
      else key = [] \<and> name = [] \<and> ch = [] \<and> plain sen)"

lemma find_char_eq:
  "find_char c s i = (if c \<in> set (drop i s) then Some (i + length (takeWhile (\<lambda>d. d \<noteq> c) (drop i s))) else None)"
  unfolding find_char_def
proof (induction "[c]" s i rule: find_from.induct)
  case (1 s i)
  show ?case
  proof (cases "i < length s")
    case False
    then show ?thesis by (subst find_from.simps) simp
  next
    case True
    then have d: "drop i s = s ! i # drop (Suc i) s" by (rule Cons_nth_drop_Suc [symmetric])
    have "find_from [c] s i = (if s ! i = c then Some i else find_from [c] s (Suc i))"
      using True by (subst find_from.simps) (simp add: d)
    then show ?thesis using 1 True by (auto simp: d)
  qed
qed

lemma find_char_first [simp]: "c \<notin> set xs \<Longrightarrow> find_char c (xs @ c # ys) 0 = Some (length xs)"
  by (simp add: find_char_eq takeWhile_append)

lemma find_char_None [simp]: "c \<notin> set xs \<Longrightarrow> find_char c xs 0 = None"
  by (simp add: find_char_eq)

lemma scan_plain: "plain s \<Longrightarrow> scan_block n (s @ r) = s @ scan_block n r"
  by (induction s) (auto simp: plain_def)

lemma legal_plain: "list_all if_illegal s \<Longrightarrow> plain s"
  by (auto simp: plain_def list_all_iff if_illegal_def is_alnum_def is_alpha_def is_digit_def code_def)

lemma scan_render:
  "wf_sfr keys t \<Longrightarrow> 2 \<le> n \<Longrightarrow> scan_block n (render t @ r) = render t @ scan_block n r"
proof (induction t arbitrary: n r)
  case (Sfr key name sen blk ch)
  have inner: "scan_block (n + 1) (concat (map render ts) @ r') = concat (map render ts) @ scan_block (n + 1) r'"
    if "set ts \<subseteq> set ch" "list_all (wf_sfr keys) ts" for ts r'
    using that Sfr.IH Sfr.prems(2) by (induction ts) auto
  show ?case
  proof (cases blk)
    case True
    with Sfr.prems inner [of ch] show ?thesis
      by (simp add: scan_plain legal_plain list.pred_mono_strong)
  qed (use Sfr.prems in \<open>simp add: scan_plain\<close>)
qed

lemma scan_renders:
  "list_all (wf_sfr keys) ts \<Longrightarrow> 2 \<le> n \<Longrightarrow>
     scan_block n (concat (map render ts) @ r) = concat (map render ts) @ scan_block n r"
  by (induction ts) (simp_all add: scan_render [where keys = keys])

lemma read_statement:
  "plain sen \<Longrightarrow> read_blocks (sen @ CHR '';'' # r) keys acc = read_blocks r keys (acc @ [Sfr [] [] sen False []])"
  by (subst read_blocks.simps) (simp add: plain_def)

lemma read_block:
  assumes wf: "wf_sfr keys (Sfr key name [] True ch)"
    and inner: "read_blocks (concat (map render ch)) keys [] = Inr ch"
  shows "read_blocks (render (Sfr key name [] True ch) @ r) keys acc = read_blocks r keys (acc @ [Sfr key name [] True ch])"
proof -
  let ?head = "key @ name" and ?inner = "concat (map render ch)"
  let ?t = "?head @ CHR ''{'' # ?inner @ CHR ''}'' # CHR '';'' # r" and ?pcs = "?head @ CHR ''{'' # ?inner @ ''}''"
  have pl: "plain ?head" using wf legal_plain by (auto simp: plain_def)
  have scan: "scan_block 1 ?t = ?pcs"
    using wf pl scan_renders [of keys ch 2 "CHR ''}'' # CHR '';'' # r"]
    by (simp add: scan_plain del: append_assoc)
  let ?w = "takeWhile (\<lambda>d. d \<noteq> CHR '';'') ?t"
  have w: "?w = ?head @ CHR ''{'' # takeWhile (\<lambda>d. d \<noteq> CHR '';'') (?inner @ CHR ''}'' # CHR '';'' # r)"
    using pl by (subst takeWhile_append2) (auto simp: plain_def)
  have sem: "find_char CHR '';'' ?t 0 = Some (length ?w)" by (simp add: find_char_eq)
  have "take (length ?w) ?t = ?w" by (rule takeWhile_eq_take [symmetric])
  then have blq: "find_char CHR ''{'' (take (length ?w) ?t) 0 = Some (length ?head)"
    unfolding w by (simp only:, intro find_char_first) (use pl in \<open>simp add: plain_def\<close>)
  have brq: "after_brace ?pcs = length ?pcs" by (simp add: after_brace_def)
  have head: "block_head keys ?pcs (length ?head) = Inr (key, name)"
    using wf by (simp add: block_head_def Let_def between_def if_name_illegal_def)
  have body: "between (length ?head + 1) (length ?pcs - 1) ?pcs = ?inner" by (simp add: between_def)
  have ne: "?t \<noteq> []" by simp
  have "?t = (?pcs @ '';'') @ r" "length (?pcs @ '';'') = length ?pcs + 1" by simp_all
  then have rest: "drop (length ?pcs + 1) ?t = r" "\<not> length ?t < length ?pcs + 1"
    by (metis append_eq_conv_conj, simp)
  with ne have "read_blocks ?t keys acc = read_blocks r keys (acc @ [Sfr key name [] True ch])"
    by (subst read_blocks.simps)
      (simp only: if_False sem blq option.case scan Let_def brq head body inner rest bind_res_simps prod.case)
  then show ?thesis by simp
qed

text \<open>
  C34. Description files round trip: reading the text of any tree of statements and blocks that the format can
  express gives the tree back, behind what was already read.
\<close>

theorem read_blocks_round_trip:
  assumes "list_all (wf_sfr keys) ts"
  shows "read_blocks (concat (map render ts)) keys acc = Inr (acc @ ts)"
  using assms
proof (induction "length (concat (map render ts))" arbitrary: ts acc rule: less_induct)
  case less
  show ?case
  proof (cases ts)
    case Nil
    then show ?thesis by (subst read_blocks.simps) simp
  next
    case (Cons t us)
    obtain key name sen blk ch where t: "t = Sfr key name sen blk ch" by (cases t)
    have rest: "read_blocks (concat (map render us)) keys a = Inr (a @ us)" for a
      by (rule less.hyps) (use less.prems in \<open>auto simp: Cons t\<close>)
    show ?thesis
    proof (cases blk)
      case False
      then show ?thesis using less.prems rest by (simp add: Cons t read_statement)
    next
      case True
      have "read_blocks (concat (map render ch)) keys [] = Inr ([] @ ch)"
        by (rule less.hyps) (use less.prems True in \<open>auto simp: Cons t\<close>)
      then show ?thesis using less.prems rest True read_block [of keys key name ch "concat (map render us)" acc]
        by (simp add: Cons t)
    qed
  qed
qed

theorem read_blocks_round_trip_witness:
  "read_blocks ''cpartsp{srcfilea{(intx)f();};};'' [''cparts'', ''srcfile''] [] =
     Inr [Sfr ''cparts'' ''p'' [] True [Sfr ''srcfile'' ''a'' [] True [Sfr [] [] ''(intx)f()'' False []]]]"
proof -
  let ?t = "Sfr ''cparts'' ''p'' [] True [Sfr ''srcfile'' ''a'' [] True [Sfr [] [] ''(intx)f()'' False []]]"
  have "list_all (wf_sfr [''cparts'', ''srcfile'']) [?t]" by code_simp
  from read_blocks_round_trip [OF this, of "[]"] show ?thesis by simp
qed

section \<open>What the tables of a parsed file hold\<close>

text \<open>
  The three tables of entry functions have the same keys, in order, and name source files that are on the list.
\<close>

definition cpt_ok :: "cpt \<Rightarrow> bool" where
  "cpt_ok c \<longleftrightarrow> std_map (funcs_src c) \<and> std_map (c_fargs_in c) \<and> std_map (c_fargs_out c) \<and>
     fst ` set (c_fargs_in c) = fst ` set (funcs_src c) \<and> fst ` set (c_fargs_out c) = fst ` set (funcs_src c) \<and>
     snd ` set (funcs_src c) \<subseteq> set (src_files c)"

lemma new_cpt_ok: "cpt_ok (new_cpt n)"
  by (simp add: cpt_ok_def new_cpt_def)

lemma deal_func_ok:
  assumes "deal_func t sen c = Inr c'" "cpt_ok c" "t \<in> set (src_files c)"
  shows "cpt_ok c' \<and> src_files c' = src_files c"
proof -
  obtain f cfgo cfgi where c': "c' = c\<lparr>funcs_src := ins f t (funcs_src c),
      c_fargs_out := ins f cfgo (c_fargs_out c), c_fargs_in := ins f cfgi (c_fargs_in c)\<rparr>"
    using assms(1) unfolding deal_func_def by (auto split: option.split_asm if_splits simp: Let_def case_option_eq_Inr)
  have "v \<in> set (src_files c)" if "(k, v) \<in> set (ins f t (funcs_src c))" for k v
  proof -
    from that set_ins have "(k, v) = (f, t) \<or> (k, v) \<in> set (funcs_src c)" by fast
    moreover have "snd ` set (funcs_src c) \<subseteq> set (src_files c)" using assms(2) by (simp add: cpt_ok_def)
    ultimately show ?thesis using assms(3) by (metis Pair_inject image_subset_iff snd_conv)
  qed
  then have "snd ` set (ins f t (funcs_src c)) \<subseteq> set (src_files c)" by auto
  with assms(2) show ?thesis by (simp add: c' cpt_ok_def)
qed

lemma deal_funcs_ok:
  "deal_funcs t fs c = Inr c' \<Longrightarrow> cpt_ok c \<Longrightarrow> t \<in> set (src_files c) \<Longrightarrow> cpt_ok c' \<and> src_files c' = src_files c"
proof (induction t fs c rule: deal_funcs.induct)
  case (2 t f fs c)
  then show ?case using deal_func_ok [of t "sentence f" c] by (fastforce split: if_splits)
qed simp

lemma deal_srcs_ok: "deal_srcs ss c = Inr c' \<Longrightarrow> cpt_ok c \<Longrightarrow> cpt_ok c'"
proof (induction ss c rule: deal_srcs.induct)
  case (2 s ss c)
  let ?t = "sf_name s @ ''.cpp''"
  have "cpt_ok (c\<lparr>src_files := src_files c @ [?t]\<rparr>)" using "2.prems"(2) by (auto simp: cpt_ok_def)
  then have "deal_funcs ?t (childs s) (c\<lparr>src_files := src_files c @ [?t]\<rparr>) = Inr d \<Longrightarrow> cpt_ok d" for d
    using deal_funcs_ok by fastforce
  then show ?case using 2 by (auto split: if_splits)
qed simp

lemma cpt_ok_content [simp]: "cpt_ok (c\<lparr>c_blocks := bs, c_content := s\<rparr>) = cpt_ok c"
  by (simp add: cpt_ok_def)

lemma deal_content_ok: "deal_content s c = Inr c' \<Longrightarrow> cpt_ok c \<Longrightarrow> cpt_ok c'"
  unfolding deal_content_def Let_def
  by (auto simp: case_option_eq_Inr split: if_splits dest!: deal_srcs_ok)

lemma Cpt_file_tables: "Cpt_file f n junk proj_name = Some (Inr c) \<Longrightarrow> cpt_ok c"
  using deal_content_ok [OF _ new_cpt_ok] by (auto simp: Cpt_file_def)

section \<open>How reading fails\<close>

text \<open>The exceptions that the code throws itself, and \<^theory_text>\<open>std::out_of_range\<close>.\<close>

fun thrown :: "fault \<Rightarrow> bool" where
  "thrown (ThrownText _) = True"
| "thrown (ThrownString _) = True"
| "thrown OutOfRange = True"
| "thrown _ = False"

definition only_throws :: "'a res \<Rightarrow> bool" where
  "only_throws m \<longleftrightarrow> (case m of Inl e \<Rightarrow> thrown e | Inr _ \<Rightarrow> True)"

lemma only_throws_simps [simp]:
  "only_throws (Inl e) = thrown e" "only_throws (Inr x)"
  by (simp_all add: only_throws_def)

lemma only_throws_bind [intro!]:
  "only_throws m \<Longrightarrow> (\<And>x. m = Inr x \<Longrightarrow> only_throws (f x)) \<Longrightarrow> only_throws (bind_res m f)"
  by (cases m) auto

lemma block_head_throws [simp]: "only_throws (block_head keys s i)"
  by (auto simp: block_head_def Let_def split: option.split)

lemma read_blocks_throws [simp]: "only_throws (read_blocks s keys bs)"
proof (induction s keys bs rule: read_blocks.induct)
  case (1 s keys bs)
  show ?case by (subst read_blocks.simps) (auto simp: Let_def split: option.split intro!: 1 [unfolded One_nat_def add_Suc_right add_0_right])
qed

lemma deal_arg_throws [simp]: "only_throws (deal_arg a)"
  by (auto simp: deal_arg_def split: option.split prod.split)

lemma split_args_throws [simp]: "only_throws (split_args a i cs)"
proof (induction a i cs rule: split_args.induct)
  case (1 a i cs)
  show ?case by (subst split_args.simps) (auto split: option.split intro!: 1 [unfolded One_nat_def add_Suc_right add_0_right])
qed

lemma deal_args_throws [simp]: "only_throws (deal_args a)"
  by (auto simp: deal_args_def Let_def)

lemma deal_func_throws [simp]: "only_throws (deal_func t s c)"
  by (auto simp: deal_func_def Let_def split: option.split)

lemma deal_funcs_throws [simp]: "only_throws (deal_funcs t fs c)"
  by (induction t fs c rule: deal_funcs.induct) auto

lemma deal_srcs_throws [simp]: "only_throws (deal_srcs ss c)"
  by (induction ss c rule: deal_srcs.induct) auto

lemma deal_content_throws: "only_throws (deal_content s c)"
  by (auto simp: deal_content_def Let_def split: option.split)

text \<open>
  C35. A description file that is accepted gives tables without dangling references: each entry function has its arguments
  in both tables and its source file on the list.
\<close>

theorem Cpt_file_ok:
  assumes "Cpt_file f n junk proj_name = Some (Inr c)"
  shows "cpt_ok c"
  using assms by (rule Cpt_file_tables)

definition sample_cpt :: string where
  "sample_cpt = ''cparts p { srcfile a { (int x) f (); (double y,int z) g (int u); }; };''"

theorem Cpt_file_ok_witness:
  "\<exists>c. Cpt_file (Some sample_cpt) (length sample_cpt) [] ''p'' = Some (Inr c) \<and> cpt_ok c \<and>
     funcs_src c = [(''f'', ''a.cpp''), (''g'', ''a.cpp'')]"
proof -
  have "map_sum id funcs_src (deal_content (filter is_graph sample_cpt) (new_cpt ''p'')) =
      Inr [(''f'', ''a.cpp''), (''g'', ''a.cpp'')]"
    by code_simp
  then have "\<exists>c. deal_content (filter is_graph sample_cpt) (new_cpt ''p'') = Inr c \<and>
      funcs_src c = [(''f'', ''a.cpp''), (''g'', ''a.cpp'')]"
    by (cases "deal_content (filter is_graph sample_cpt) (new_cpt ''p'')") auto
  moreover have "length sample_cpt \<noteq> 512" by (simp add: sample_cpt_def)
  ultimately obtain c where "Cpt_file (Some sample_cpt) (length sample_cpt) [] ''p'' = Some (Inr c)"
      "funcs_src c = [(''f'', ''a.cpp''), (''g'', ''a.cpp'')]"
    by (auto simp: Cpt_file_def read_settings_content)
  then show ?thesis using Cpt_file_ok by blast
qed

end
