(* ===== verification/Project.thy ===== *)
theory Project
  imports CptFile
begin

text \<open>
  The class \<open>Proj\<close> of \<^theory_text>\<open>src/src/cproj_proj.cpp\<close> without its database: reading \<open>netc.proj\<close>, checking
  paths, indexing source files and entry functions, compiling and checking the libraries. What the operating system,
  the compiler and the dynamic linker answer is the record \<open>os\<close>; \<open>commands\<close> records the
  commands of \<open>system()\<close> that succeeded.
\<close>

section \<open>State and environment\<close>

text \<open>
  \<open>sys_dir\<close> lists types and names of a directory, \<open>sys_size\<close> and \<open>sys_junk\<close> are \<open>st_size\<close> and the fresh
  buffer of \<open>read_settings\<close>, \<open>sys_system\<close> gives the status of a command and the size of \<open>gcc_build.log\<close> behind it.
\<close>

record os =
  sys_access :: "string \<Rightarrow> nat \<Rightarrow> bool"
  sys_dir :: "string \<Rightarrow> (nat \<times> string) list option"
  sys_file :: "string \<Rightarrow> string option"
  sys_size :: "string \<Rightarrow> nat"
  sys_junk :: "string \<Rightarrow> string"
  sys_md5 :: "string \<Rightarrow> string"
  sys_system :: "string \<Rightarrow> int \<times> nat"
  sys_dlopen :: "string \<Rightarrow> bool"
  sys_dlsym :: "string \<Rightarrow> string \<Rightarrow> bool"

abbreviation (input) F_OK :: nat where "F_OK \<equiv> 0"
abbreviation (input) W_OK :: nat where "W_OK \<equiv> 2"
abbreviation (input) R_OK :: nat where "R_OK \<equiv> 4"

record proj =
  proj_path :: string
  proj_file :: string
  p_name :: string
  p_content :: string
  p_blocks :: "sfr list"
  src_paths :: "string list"
  srcs_found :: "(string \<times> nat) list"
  used_srcfiles :: "(string \<times> nat) list"
  src_md5 :: "(string \<times> string) list"
  map_paths :: "string list"
  cpt_paths :: "string list"
  cpts :: "cpt list"
  lib_path :: string
  func_index :: "(string \<times> cpt) list"
  lib_index :: "(string \<times> string) list"
  commands :: "string list"

definition empty_proj :: proj where
  "empty_proj = \<lparr>proj_path = [], proj_file = [], p_name = [], p_content = [], p_blocks = [], src_paths = [],
     srcs_found = [], used_srcfiles = [], src_md5 = [], map_paths = [], cpt_paths = [], cpts = [], lib_path = [],
     func_index = [], lib_index = [], commands = []\<rparr>"

text \<open>Steps that may also never return, which is \<open>None\<close>.\<close>

definition bind_run :: "'a res option \<Rightarrow> ('a \<Rightarrow> 'b res option) \<Rightarrow> 'b res option" where
  "bind_run m f = (case m of None \<Rightarrow> None | Some (Inl e) \<Rightarrow> Some (Inl e) | Some (Inr x) \<Rightarrow> f x)"

lemma bind_run_simps [simp]:
  "bind_run None f = None" "bind_run (Some (Inl e)) f = Some (Inl e)" "bind_run (Some (Inr x)) f = f x"
  by (simp_all add: bind_run_def)

lemma bind_run_eq_Inr [simp]:
  "bind_run m f = Some (Inr y) \<longleftrightarrow> (\<exists>x. m = Some (Inr x) \<and> f x = Some (Inr y))"
  by (auto simp: bind_run_def split: option.split sum.split)

text \<open>\<open>find(k)->second\<close> without a check for \<open>end()\<close>.\<close>

definition the_second :: "('k \<times> 'v) list \<Rightarrow> 'k \<Rightarrow> 'v res" where
  "the_second m k = (case map_of m k of None \<Rightarrow> Inl NullDeref | Some v \<Rightarrow> Inr v)"

section \<open>The project file\<close>

definition deal_order :: "string \<Rightarrow> string \<Rightarrow> proj \<Rightarrow> proj res" where
  "deal_order tag arg p =
     (if tag = ''cpt'' then Inr (p\<lparr>cpt_paths := cpt_paths p @ [arg]\<rparr>)
      else if tag = ''map'' then Inr (p\<lparr>map_paths := map_paths p @ [arg]\<rparr>)
      else if tag = ''src_dir'' then Inr (p\<lparr>src_paths := src_paths p @ [arg]\<rparr>)
      else if tag = ''lib_dir'' then Inr (p\<lparr>lib_path := arg\<rparr>)
      else Inl (ThrownText ''syntax error''))"

abbreviation stn_keys :: "string list" where
  "stn_keys \<equiv> [''path'', ''name'']"

text \<open>The files of a \<open>cpt\<close> or \<open>map\<close> block: names under the path given before them.\<close>

fun named_files :: "string \<Rightarrow> string \<Rightarrow> string \<Rightarrow> sfr list \<Rightarrow> string list res" where
  "named_files suffix msg tpath [] = Inr []"
| "named_files suffix msg tpath (stn # stns) =
     (if if_blk stn then named_files suffix msg tpath stns
      else let (rtn, key, val) = read_stn (sentence stn) stn_keys in
        if rtn = - 1 then Inl (ThrownText ''sentence illegal'')
        else if key = ''path'' then
          (if tpath = [] then named_files suffix msg val stns else Inl (ThrownText msg))
        else bind_res (named_files suffix msg tpath stns) (\<lambda>fs. Inr ((tpath @ ''/'' @ val @ suffix) # fs)))"

fun src_dirs :: "sfr list \<Rightarrow> string list res" where
  "src_dirs [] = Inr []"
| "src_dirs (stn # stns) =
     (if if_blk stn then src_dirs stns
      else let (rtn, key, val) = read_stn (sentence stn) stn_keys in
        if rtn = - 1 then Inl (ThrownText ''sentence illegal'')
        else bind_res (src_dirs stns) (\<lambda>ds. Inr (if key = ''path'' then val # ds else ds)))"

fun lib_dir :: "string \<Rightarrow> string \<Rightarrow> sfr list \<Rightarrow> string res" where
  "lib_dir tpath lp [] = Inr lp"
| "lib_dir tpath lp (stn # stns) =
     (if if_blk stn then lib_dir tpath lp stns
      else let (rtn, key, val) = read_stn (sentence stn) stn_keys in
        if rtn = - 1 then Inl (ThrownText ''sentence illegal'')
        else if key = ''path'' then
          (if tpath = [] then lib_dir val val stns
           else Inl (ThrownText (''only can a 'lib_dir' block have one 'path' tag'')))
        else lib_dir tpath lp stns)"

definition proj_block :: "sfr \<Rightarrow> proj \<Rightarrow> proj res" where
  "proj_block b p =
     (if sf_key b = ''cpt'' then
        bind_res (named_files ''.cpt'' ''only can a 'cpt' block have one 'path' tag'' [] (childs b)) (\<lambda>fs.
          Inr (p\<lparr>cpt_paths := cpt_paths p @ fs\<rparr>))
      else if sf_key b = ''map'' then
        bind_res (named_files ''.map'' ''only can a 'map' block have one 'path' tag'' [] (childs b)) (\<lambda>fs.
          Inr (p\<lparr>map_paths := map_paths p @ fs\<rparr>))
      else if sf_key b = ''src_dir'' then
        bind_res (src_dirs (childs b)) (\<lambda>ds. Inr (p\<lparr>src_paths := src_paths p @ ds\<rparr>))
      else if sf_key b = ''lib_dir'' then
        (if lib_path p \<noteq> [] then Inl (ThrownText ''only can a 'proj' block have one 'lib_dir' block'')
         else bind_res (lib_dir [] (lib_path p) (childs b)) (\<lambda>l. Inr (p\<lparr>lib_path := l\<rparr>)))
      else Inr p)"

fun proj_blocks :: "sfr list \<Rightarrow> proj \<Rightarrow> proj res" where
  "proj_blocks [] p = Inr p"
| "proj_blocks (b # bs) p = bind_res (proj_block b p) (proj_blocks bs)"

abbreviation proj_keys :: "string list" where
  "proj_keys \<equiv> [''proj'', ''cpt'', ''map'', ''src_dir'', ''lib_dir'']"

definition deal_project :: "string \<Rightarrow> proj \<Rightarrow> proj res" where
  "deal_project data_content p =
     bind_res (read_blocks data_content proj_keys (p_blocks p)) (\<lambda>bs.
     bind_res (at bs 0) (\<lambda>b.
       if sf_key b = ''proj'' \<and> if_blk b then
         if sf_name b = [] then Inl (ThrownText ''a project must have a name'')
         else proj_blocks (childs b) (p\<lparr>p_blocks := bs, p_content := data_content, p_name := sf_name b\<rparr>)
       else Inl (ThrownText ''project file illegal'')))"

text \<open>
  The constructor from a directory. \<open>proj_path\<close>, not the argument, is asked for its last character; it is still empty,
  so the byte before its buffer is read, here \<open>before\<close>.
\<close>

definition Proj_dir :: "os \<Rightarrow> char \<Rightarrow> string \<Rightarrow> string \<Rightarrow> proj res option" where
  "Proj_dir E before t_projpath t_projfile =
     (if \<not> sys_access E t_projpath R_OK then Some (Inl (ThrownText ''project directory state is abnormal''))
      else let t_projpath = (if before \<noteq> CHR ''/'' then t_projpath @ ''/'' else t_projpath);
               file = t_projpath @ t_projfile
        in if \<not> sys_access E file R_OK then Some (Inl (ThrownText ''project file state is abnormal''))
           else case read_settings (sys_file E file) (sys_size E file) (sys_junk E file) [] of
              None \<Rightarrow> None
            | Some tifsproj \<Rightarrow> Some (deal_project tifsproj (empty_proj\<lparr>proj_path := t_projpath, proj_file := t_projfile\<rparr>)))"

definition Proj_data :: "string \<Rightarrow> proj res" where
  "Proj_data data_content = deal_project data_content empty_proj"

section \<open>Checks and searches\<close>

fun check_paths :: "os \<Rightarrow> string \<Rightarrow> string list \<Rightarrow> unit res" where
  "check_paths E main_path [] = Inr ()"
| "check_paths E main_path (path # paths) =
     (if \<not> sys_access E (main_path @ path) F_OK then Inl (ThrownString (path @ '' is abnormal''))
      else check_paths E main_path paths)"

definition GeneralCheckInfo :: "os \<Rightarrow> proj \<Rightarrow> unit res" where
  "GeneralCheckInfo E p =
     (if \<not> sys_access E (proj_path p @ lib_path p) W_OK then Inl (ThrownText ''lib path is abnormal'')
      else bind_res (check_paths E (proj_path p) (src_paths p)) (\<lambda>_.
           bind_res (check_paths E (proj_path p) (map_paths p)) (\<lambda>_.
           check_paths E (proj_path p) (cpt_paths p))))"

definition add_entry :: "nat \<Rightarrow> (string \<times> nat) list \<Rightarrow> nat \<times> string \<Rightarrow> (string \<times> nat) list" where
  "add_entry idx m e = (if fst e = 8 \<and> find_from ''.cpp'' (snd e) 0 \<noteq> None then ins (snd e) idx m else m)"

definition search_src :: "os \<Rightarrow> nat \<Rightarrow> string \<Rightarrow> (string \<times> nat) list \<Rightarrow> (string \<times> nat) list res" where
  "search_src E idx path m =
     (case sys_dir E path of
        None \<Rightarrow> Inl (ThrownText ''path is abnormal'')
      | Some es \<Rightarrow> Inr (foldl (add_entry idx) m es))"

fun search_srcs :: "os \<Rightarrow> string \<Rightarrow> nat \<Rightarrow> string list \<Rightarrow> (string \<times> nat) list \<Rightarrow> (string \<times> nat) list res" where
  "search_srcs E pp idx [] m = Inr m"
| "search_srcs E pp idx (path # paths) m = bind_res (search_src E idx (pp @ path) m) (search_srcs E pp (idx + 1) paths)"

fun build_cpts :: "os \<Rightarrow> string list \<Rightarrow> proj \<Rightarrow> proj res option" where
  "build_cpts E [] p = Some (Inr p)"
| "build_cpts E (cptp # cptps) p =
     (let file = proj_path p @ cptp in
      bind_run (Cpt_file (sys_file E file) (sys_size E file) (sys_junk E file) (p_name p)) (\<lambda>ncpt.
        build_cpts E cptps (p\<lparr>cpts := cpts p @ [ncpt]\<rparr>)))"

definition SearchInfo :: "os \<Rightarrow> proj \<Rightarrow> proj res option" where
  "SearchInfo E p =
     bind_run (Some (search_srcs E (proj_path p) 0 (src_paths p) (srcs_found p))) (\<lambda>m.
       build_cpts E (cpt_paths p) (p\<lparr>srcs_found := m\<rparr>))"

text \<open>One source file of a description: its directory and its digest are recorded.\<close>

definition check_src :: "os \<Rightarrow> string \<Rightarrow> proj \<Rightarrow> proj res" where
  "check_src E file p =
     (case map_of (srcs_found p) file of
        None \<Rightarrow> Inl (ThrownText ''source file not exist'')
      | Some i \<Rightarrow>
          bind_res (at (src_paths p) i) (\<lambda>tsrc_path.
            Inr (p\<lparr>used_srcfiles := ins file i (used_srcfiles p),
                   src_md5 := ins file (sys_md5 E (proj_path p @ tsrc_path @ ''/'' @ file)) (src_md5 p)\<rparr>)))"

fun check_srcs :: "os \<Rightarrow> string list \<Rightarrow> proj \<Rightarrow> proj res" where
  "check_srcs E [] p = Inr p"
| "check_srcs E (file # files) p = bind_res (check_src E file p) (check_srcs E files)"

definition check_cpt :: "os \<Rightarrow> proj \<Rightarrow> proj res" where
  "check_cpt E p = check_srcs E (concat (map src_files (cpts p))) p"

definition CheckCptInfo :: "os \<Rightarrow> proj \<Rightarrow> proj res" where
  "CheckCptInfo E p = check_cpt E p"

definition BuildFuncIndex :: "proj \<Rightarrow> proj" where
  "BuildFuncIndex p =
     p\<lparr>func_index := foldl (\<lambda>m pcpt. foldl (\<lambda>m (f, _). ins f pcpt m) m (funcs_src pcpt)) (func_index p) (cpts p)\<rparr>"

section \<open>Compiling\<close>

definition build_command :: "string \<Rightarrow> string \<Rightarrow> string \<Rightarrow> string" where
  "build_command lib_name srcfile_path libs_path =
     ''g++ -fPIC -shared -std=c++11 -o '' @ libs_path @ ''/'' @ lib_name @ '' '' @ srcfile_path @ '' >gcc_build.log 2>&1''"

definition build_src :: "os \<Rightarrow> string \<Rightarrow> string \<Rightarrow> string \<Rightarrow> proj \<Rightarrow> proj res" where
  "build_src E lib_name srcfile_path libs_path p =
     (let cmd = build_command lib_name srcfile_path libs_path; (rtn, file_size) = sys_system E cmd in
      if rtn \<noteq> - 1 \<and> rtn \<noteq> 127 then
        if file_size = 0 then Inr (p\<lparr>commands := commands p @ [cmd]\<rparr>) else Inl (ThrownText ''compile error'')
      else Inl (ThrownText ''fail to build lib file''))"

definition lib_name :: "string \<Rightarrow> string" where
  "lib_name src_name = ''lib_'' @ src_name @ ''.so''"

definition compile_srcfile :: "os \<Rightarrow> string \<Rightarrow> string \<Rightarrow> proj \<Rightarrow> proj res" where
  "compile_srcfile E src_name src_path p =
     bind_res (build_src E (lib_name src_name) (proj_path p @ src_path @ ''/'' @ src_name) (proj_path p @ lib_path p) p) (\<lambda>p.
       Inr (p\<lparr>lib_index := ins src_name (lib_name src_name) (lib_index p)\<rparr>))"

fun compile_used :: "os \<Rightarrow> (string \<times> nat) list \<Rightarrow> proj \<Rightarrow> proj res" where
  "compile_used E [] p = Inr p"
| "compile_used E ((src, i) # srcs) p =
     bind_res (at (src_paths p) i) (\<lambda>tsrc_path.
     bind_res (compile_srcfile E src tsrc_path p) (compile_used E srcs))"

definition CompileUsedSrcFiles :: "os \<Rightarrow> proj \<Rightarrow> proj res" where
  "CompileUsedSrcFiles E p = compile_used E (used_srcfiles p) p"

definition check_func :: "os \<Rightarrow> proj \<Rightarrow> string \<times> cpt \<Rightarrow> unit res" where
  "check_func E p fc =
     bind_res (the_second (funcs_src (snd fc)) (fst fc)) (\<lambda>src_file.
     bind_res (the_second (lib_index p) src_file) (\<lambda>tlib_name.
       let lib = proj_path p @ lib_path p @ ''/'' @ tlib_name in
       if \<not> sys_dlopen E lib then Inl (ThrownText ''can not open library'')
       else if \<not> sys_dlsym E lib (fst fc) then Inl (ThrownString (''can not get func '' @ fst fc))
       else if \<not> sys_dlsym E lib (''__'' @ fst fc @ ''_args_in'') then Inl (ThrownText ''can not get the HANDLE to PUSH args'')
       else if \<not> sys_dlsym E lib (''__'' @ fst fc @ ''_args_out'') then Inl (ThrownText ''can not get the HANDLE to GET args'')
       else Inr ()))"

fun check_funcs :: "os \<Rightarrow> proj \<Rightarrow> (string \<times> cpt) list \<Rightarrow> unit res" where
  "check_funcs E p [] = Inr ()"
| "check_funcs E p (f # fs) = bind_res (check_func E p f) (\<lambda>_. check_funcs E p fs)"

definition CheckFuncInfo :: "os \<Rightarrow> proj \<Rightarrow> unit res" where
  "CheckFuncInfo E p = check_funcs E p (func_index p)"

text \<open>The part of \<open>construct\<close> between the existence check of the database and \<open>DBProcess\<close>.\<close>

definition prepare :: "os \<Rightarrow> proj \<Rightarrow> proj res option" where
  "prepare E p =
     bind_run (Some (GeneralCheckInfo E p)) (\<lambda>_.
     bind_run (SearchInfo E p) (\<lambda>p.
     bind_run (Some (CheckCptInfo E (BuildFuncIndex p))) (\<lambda>p.
     bind_run (Some (CompileUsedSrcFiles E p)) (\<lambda>p.
     bind_run (Some (CheckFuncInfo E p)) (\<lambda>_. Some (Inr p))))))"

section \<open>Lookups without a check\<close>

text \<open>What the searches establish and the later phases, which index and dereference without a check, rely on.\<close>

definition searched :: "proj \<Rightarrow> bool" where
  "searched p \<longleftrightarrow> (\<forall>c \<in> set (cpts p). cpt_ok c) \<and> std_map (srcs_found p) \<and> std_map (func_index p) \<and>
     std_map (used_srcfiles p) \<and> std_map (lib_index p) \<and>
     (\<forall>(f, i) \<in> set (srcs_found p). i < length (src_paths p)) \<and>
     (\<forall>(f, i) \<in> set (used_srcfiles p). i < length (src_paths p)) \<and>
     (\<forall>(f, c) \<in> set (func_index p). c \<in> set (cpts p) \<and> f \<in> fst ` set (funcs_src c))"

definition all_used :: "proj \<Rightarrow> bool" where
  "all_used p \<longleftrightarrow> (\<forall>c \<in> set (cpts p). set (src_files c) \<subseteq> fst ` set (used_srcfiles p))"

definition fresh :: "proj \<Rightarrow> bool" where
  "fresh p \<longleftrightarrow> srcs_found p = [] \<and> used_srcfiles p = [] \<and> cpts p = [] \<and> func_index p = [] \<and> lib_index p = [] \<and> commands p = []"

lemma proj_block_fresh: "proj_block b p = Inr q \<Longrightarrow> fresh p \<Longrightarrow> fresh q"
  by (auto simp: proj_block_def fresh_def split: if_splits)

lemma proj_blocks_fresh: "proj_blocks bs p = Inr q \<Longrightarrow> fresh p \<Longrightarrow> fresh q"
  by (induction bs p rule: proj_blocks.induct) (auto dest: proj_block_fresh)

lemma deal_project_fresh: "deal_project s p = Inr q \<Longrightarrow> fresh p \<Longrightarrow> fresh q"
  unfolding deal_project_def by (auto split: if_splits dest!: proj_blocks_fresh simp: fresh_def)

lemma Proj_dir_fresh: "Proj_dir E before d f = Some (Inr p) \<Longrightarrow> fresh p"
  unfolding Proj_dir_def Let_def
  by (auto split: if_splits option.splits dest!: deal_project_fresh simp: fresh_def empty_proj_def)

lemma add_entry_bound:
  "std_map m \<and> (\<forall>(f, j) \<in> set m. j < n) \<Longrightarrow> i < n \<Longrightarrow> std_map (add_entry i m e) \<and> (\<forall>(f, j) \<in> set (add_entry i m e). j < n)"
  using set_ins [of "snd e" i m] by (auto simp: add_entry_def)

lemma search_src_bound:
  assumes "search_src E i path m = Inr m'" "std_map m \<and> (\<forall>(f, j) \<in> set m. j < n)" "i < n"
  shows "std_map m' \<and> (\<forall>(f, j) \<in> set m'. j < n)"
proof -
  obtain es where "m' = foldl (add_entry i) m es" using assms(1) by (auto simp: search_src_def split: option.splits)
  moreover have "std_map (foldl (add_entry i) m es) \<and> (\<forall>(f, j) \<in> set (foldl (add_entry i) m es). j < n)"
    by (rule foldl_invariant [where P = "\<lambda>m. std_map m \<and> (\<forall>(f, j) \<in> set m. j < n)"])
      (use assms add_entry_bound in blast)+
  ultimately show ?thesis by simp
qed

lemma search_srcs_bound:
  "search_srcs E pp i paths m = Inr m' \<Longrightarrow> std_map m \<and> (\<forall>(f, j) \<in> set m. j < n) \<Longrightarrow> i + length paths \<le> n \<Longrightarrow>
   std_map m' \<and> (\<forall>(f, j) \<in> set m'. j < n)"
proof (induction E pp i paths m rule: search_srcs.induct)
  case (2 E pp i path paths m)
  then obtain k where k: "search_src E i (pp @ path) m = Inr k" "search_srcs E pp (i + 1) paths k = Inr m'" by auto
  have "std_map k \<and> (\<forall>(f, j) \<in> set k. j < n)"
    by (rule search_src_bound [OF k(1)]) (use "2.prems" in auto)
  then show ?case using "2.IH" [OF k(1) k(2)] "2.prems" by simp
qed simp

lemma build_cpts_searched:
  "build_cpts E fs p = Some (Inr q) \<Longrightarrow> searched p \<Longrightarrow>
   searched q \<and> commands q = commands p \<and> src_paths q = src_paths p \<and> used_srcfiles q = used_srcfiles p \<and> lib_index q = lib_index p"
proof (induction E fs p rule: build_cpts.induct)
  case (2 E f fs p)
  then obtain c where c: "Cpt_file (sys_file E (proj_path p @ f)) (sys_size E (proj_path p @ f)) (sys_junk E (proj_path p @ f)) (p_name p) = Some (Inr c)"
    "build_cpts E fs (p\<lparr>cpts := cpts p @ [c]\<rparr>) = Some (Inr q)" by (auto simp: Let_def)
  have "searched (p\<lparr>cpts := cpts p @ [c]\<rparr>)"
    using "2.prems"(2) Cpt_file_tables [OF c(1)] by (fastforce simp: searched_def)
  then show ?case using "2.IH" [OF _ c(2)] by simp
qed simp

lemma SearchInfo_searched:
  "SearchInfo E p = Some (Inr q) \<Longrightarrow> fresh p \<Longrightarrow>
   searched q \<and> commands q = [] \<and> used_srcfiles q = [] \<and> lib_index q = []"
  unfolding SearchInfo_def
  by (auto dest!: build_cpts_searched
      search_srcs_bound [where i = 0 and m = "[]" and n = "length (src_paths p)", simplified]
      simp: fresh_def searched_def)

lemma ins_fold_entries:
  "(f, v) \<in> set (foldl (\<lambda>m (f, _). ins f c m) m xs) \<Longrightarrow> (f, v) \<in> set m \<or> (v = c \<and> f \<in> fst ` set xs)"
proof (induction xs arbitrary: m)
  case (Cons x xs)
  obtain k u where [simp]: "x = (k, u)" by (cases x)
  have "(f, v) \<in> set (ins k c m) \<or> (v = c \<and> f \<in> fst ` set xs)" using Cons by simp
  then show ?case using set_ins [of k c m] by auto
qed simp

lemma ins_fold_std_map: "std_map m \<Longrightarrow> std_map (foldl (\<lambda>m (f, _). ins f c m) m xs)"
  by (rule foldl_invariant) auto

definition indexed :: "cpt list \<Rightarrow> (string \<times> cpt) list \<Rightarrow> bool" where
  "indexed cs m \<longleftrightarrow> std_map m \<and> (\<forall>(f, c) \<in> set m. c \<in> set cs \<and> f \<in> fst ` set (funcs_src c))"

lemma BuildFuncIndex_searched:
  assumes "searched p"
  shows "searched (BuildFuncIndex p)"
proof -
  have "indexed (cpts p) (foldl (\<lambda>m pcpt. foldl (\<lambda>m (f, _). ins f pcpt m) m (funcs_src pcpt)) (func_index p) (cpts p))"
    by (rule foldl_invariant)
      (use assms ins_fold_std_map in \<open>auto simp: indexed_def searched_def dest!: ins_fold_entries\<close>)
  with assms show ?thesis by (simp add: indexed_def searched_def BuildFuncIndex_def)
qed

text \<open>The fields that the later phases leave alone.\<close>

definition same_search :: "proj \<Rightarrow> proj \<Rightarrow> bool" where
  "same_search p q \<longleftrightarrow> cpts q = cpts p \<and> src_paths q = src_paths p \<and> func_index q = func_index p \<and>
     proj_path q = proj_path p \<and> lib_path q = lib_path p \<and> srcs_found q = srcs_found p"

lemma same_search_refl [simp]: "same_search p p"
  by (simp add: same_search_def)

lemma check_src_searched:
  assumes "check_src E f p = Inr q" "searched p"
  shows "searched q \<and> same_search p q \<and> fst ` set (used_srcfiles q) = insert f (fst ` set (used_srcfiles p)) \<and>
    lib_index q = lib_index p \<and> commands q = commands p"
proof -
  obtain i d where i: "map_of (srcs_found p) f = Some i" "i < length (src_paths p)" and
    q: "q = p\<lparr>used_srcfiles := ins f i (used_srcfiles p), src_md5 := ins f d (src_md5 p)\<rparr>"
    using assms(1) by (auto simp: check_src_def at_Inr_iff split: option.splits)
  have "\<forall>(f, i) \<in> set (ins f i (used_srcfiles p)). i < length (src_paths p)"
    using assms(2) i(2) set_ins [of f i "used_srcfiles p"] by (auto simp: searched_def)
  with assms(2) show ?thesis by (simp add: q searched_def same_search_def)
qed

lemma same_search_trans: "same_search p q \<Longrightarrow> same_search q r \<Longrightarrow> same_search p r"
  by (simp add: same_search_def)

lemma check_srcs_searched:
  "check_srcs E fs p = Inr q \<Longrightarrow> searched p \<Longrightarrow>
   searched q \<and> same_search p q \<and> fst ` set (used_srcfiles q) = set fs \<union> fst ` set (used_srcfiles p) \<and>
    lib_index q = lib_index p \<and> commands q = commands p"
proof (induction E fs p rule: check_srcs.induct)
  case (2 E f fs p)
  then obtain r where r: "check_src E f p = Inr r" "check_srcs E fs r = Inr q" by auto
  show ?case using check_src_searched [OF r(1) "2.prems"(2)] "2.IH" [OF r] same_search_trans by auto
qed simp

lemma CheckCptInfo_used:
  "CheckCptInfo E p = Inr q \<Longrightarrow> searched p \<Longrightarrow>
   searched q \<and> same_search p q \<and> all_used q \<and> lib_index q = lib_index p \<and> commands q = commands p \<and>
   fst ` set (used_srcfiles q) = \<Union> (set ` src_files ` set (cpts q)) \<union> fst ` set (used_srcfiles p)"
  using check_srcs_searched [of E "concat (map src_files (cpts p))" p q]
  by (auto simp: CheckCptInfo_def check_cpt_def all_used_def same_search_def)

section \<open>Compiling every used source file\<close>

definition compile_command :: "proj \<Rightarrow> string \<times> nat \<Rightarrow> string" where
  "compile_command p s =
     build_command (lib_name (fst s)) (proj_path p @ src_paths p ! snd s @ ''/'' @ fst s) (proj_path p @ lib_path p)"

lemma compile_command_same: "same_search p q \<Longrightarrow> compile_command q = compile_command p"
  by (rule ext) (simp add: compile_command_def same_search_def)

lemma compile_srcfile_Inr:
  "compile_srcfile E s (src_paths p ! i) p = Inr q \<Longrightarrow> searched p \<Longrightarrow>
   searched q \<and> same_search p q \<and> used_srcfiles q = used_srcfiles p \<and> lib_index q = ins s (lib_name s) (lib_index p) \<and>
   commands q = commands p @ [compile_command p (s, i)]"
  by (auto simp: compile_srcfile_def build_src_def compile_command_def searched_def same_search_def Let_def
      split: prod.splits if_splits)

lemma compile_used_Inr:
  "compile_used E ss p = Inr q \<Longrightarrow> searched p \<Longrightarrow>
   searched q \<and> same_search p q \<and> used_srcfiles q = used_srcfiles p \<and>
   fst ` set (lib_index q) = fst ` set ss \<union> fst ` set (lib_index p) \<and>
   commands q = commands p @ map (compile_command p) ss"
proof (induction E ss p rule: compile_used.induct)
  case (2 E s i ss p)
  then obtain r where r: "compile_srcfile E s (src_paths p ! i) p = Inr r" "compile_used E ss r = Inr q"
    and i: "at (src_paths p) i = Inr (src_paths p ! i)"
    by (auto simp: at_Inr_iff)
  note h = compile_srcfile_Inr [OF r(1) "2.prems"(2)]
  show ?case using h "2.IH" [OF i r] compile_command_same [of p r] same_search_trans by auto
qed simp

lemma check_func_throws:
  assumes "searched p" "(f, c) \<in> set (func_index p)" "all_used p" "fst ` set (used_srcfiles p) \<subseteq> fst ` set (lib_index p)"
  shows "only_throws (check_func E p (f, c))"
proof -
  have c: "c \<in> set (cpts p)" "f \<in> fst ` set (funcs_src c)" "cpt_ok c" using assms by (auto simp: searched_def)
  then obtain s where s: "map_of (funcs_src c) f = Some s"
    by (metis dom_map_of_conv_image_fst domD)
  then have "s \<in> snd ` set (funcs_src c)" by (force dest: map_of_SomeD)
  moreover have "snd ` set (funcs_src c) \<subseteq> fst ` set (lib_index p)"
  proof -
    have "snd ` set (funcs_src c) \<subseteq> set (src_files c)" using c(3) by (simp add: cpt_ok_def)
    also have "\<dots> \<subseteq> fst ` set (used_srcfiles p)" using c(1) assms(3) by (simp add: all_used_def)
    finally show ?thesis using assms(4) by (rule order_trans)
  qed
  ultimately have "s \<in> fst ` set (lib_index p)" by blast
  then obtain l where "map_of (lib_index p) s = Some l"
    by (metis dom_map_of_conv_image_fst domD)
  with s show ?thesis by (auto simp: check_func_def the_second_def Let_def)
qed

lemma check_funcs_throws: "(\<And>x. x \<in> set fs \<Longrightarrow> only_throws (check_func E p x)) \<Longrightarrow> only_throws (check_funcs E p fs)"
  by (induction fs) auto

lemma check_paths_throws [simp]: "only_throws (check_paths E d ps)"
  by (induction ps) auto

lemma GeneralCheckInfo_throws [simp]: "only_throws (GeneralCheckInfo E p)"
  by (auto simp: GeneralCheckInfo_def)

lemma search_srcs_throws [simp]: "only_throws (search_srcs E d i ps m)"
  by (induction E d i ps m rule: search_srcs.induct) (auto simp: search_src_def split: option.split)

lemma check_src_throws: "searched p \<Longrightarrow> only_throws (check_src E f p)"
  by (auto simp: check_src_def searched_def at_def split: option.split dest!: map_of_SomeD)

lemma check_srcs_throws: "searched p \<Longrightarrow> only_throws (check_srcs E fs p)"
proof (induction E fs p rule: check_srcs.induct)
  case (2 E f fs p)
  then show ?case using check_src_throws [OF "2.prems"] check_src_searched [of E f p] by (auto)
qed simp

lemma compile_srcfile_throws [simp]: "only_throws (compile_srcfile E s d p)"
  by (auto simp: compile_srcfile_def build_src_def Let_def split: prod.split)

lemma compile_used_throws:
  "searched p \<Longrightarrow> \<forall>(f, i) \<in> set ss. i < length (src_paths p) \<Longrightarrow> only_throws (compile_used E ss p)"
proof (induction E ss p rule: compile_used.induct)
  case (2 E s i ss p)
  have i: "at (src_paths p) i = Inr (src_paths p ! i)" using "2.prems" by (simp add: at_Inr_iff)
  moreover have "only_throws (compile_used E ss q)" if "compile_srcfile E s (src_paths p ! i) p = Inr q" for q
    using "2.IH" [OF i that] compile_srcfile_Inr [OF that "2.prems"(1)] "2.prems"(2) by (simp add: same_search_def)
  ultimately show ?case by auto
qed simp

definition run_throws :: "'a res option \<Rightarrow> bool" where
  "run_throws m \<longleftrightarrow> (case m of None \<Rightarrow> True | Some r \<Rightarrow> only_throws r)"

lemma run_throws_simps [simp]: "run_throws None" "run_throws (Some r) = only_throws r"
  by (simp_all add: run_throws_def)

lemma run_throws_bind [intro!]:
  "run_throws m \<Longrightarrow> (\<And>x. m = Some (Inr x) \<Longrightarrow> run_throws (f x)) \<Longrightarrow> run_throws (bind_run m f)"
  by (cases m) (auto simp: bind_run_def split: sum.split)

lemma Cpt_file_throws [simp]: "run_throws (Cpt_file f n junk name)"
  by (simp add: run_throws_def Cpt_file_def deal_content_throws split: option.split)

lemma build_cpts_throws [simp]: "run_throws (build_cpts E fs p)"
  by (induction E fs p rule: build_cpts.induct) (auto simp: Let_def)

lemma SearchInfo_throws [simp]: "run_throws (SearchInfo E p)"
  by (auto simp: SearchInfo_def)

text \<open>What holds between the phases of \<open>prepare\<close>.\<close>

lemma prepare_phases:
  assumes "SearchInfo E p = Some (Inr p1)" "fresh p" "CheckCptInfo E (BuildFuncIndex p1) = Inr p2"
  shows "searched p2 \<and> all_used p2 \<and> commands p2 = [] \<and> lib_index p2 = [] \<and>
    fst ` set (used_srcfiles p2) = \<Union> (set ` src_files ` set (cpts p2))"
proof -
  note s = SearchInfo_searched [OF assms(1,2)]
  then have "searched (BuildFuncIndex p1)" using BuildFuncIndex_searched by simp
  from CheckCptInfo_used [OF assms(3) this] s show ?thesis by (simp add: BuildFuncIndex_def)
qed

lemma prepare_only_throws: "fresh p \<Longrightarrow> run_throws (prepare E p)"
  unfolding prepare_def
proof (intro run_throws_bind, goal_cases)
  case (3 u p1)
  then have "searched (BuildFuncIndex p1)" using SearchInfo_searched BuildFuncIndex_searched by blast
  then show ?case by (simp add: CheckCptInfo_def check_cpt_def check_srcs_throws)
next
  case (4 u p1 p2)
  then have "searched p2" using prepare_phases by blast
  then show ?case by (simp add: CompileUsedSrcFiles_def compile_used_throws searched_def)
next
  case (5 u p1 p2 p3)
  then have "searched p2" "all_used p2" using prepare_phases by blast+
  moreover have "compile_used E (used_srcfiles p2) p2 = Inr p3" using 5 by (simp add: CompileUsedSrcFiles_def)
  ultimately have "searched p3" "same_search p2 p3" "used_srcfiles p3 = used_srcfiles p2"
      "fst ` set (used_srcfiles p2) \<subseteq> fst ` set (lib_index p3)" using compile_used_Inr by blast+
  moreover have "all_used p3" using \<open>all_used p2\<close> calculation by (simp add: all_used_def same_search_def)
  ultimately have "\<And>x. x \<in> set (func_index p3) \<Longrightarrow> only_throws (check_func E p3 x)"
    using check_func_throws by (metis surj_pair)
  then show ?case by (simp add: CheckFuncInfo_def check_funcs_throws)
qed auto

section \<open>A project with one source file\<close>

definition sample_project :: string where
  "sample_project = ''proj p { cpt { path c; name a; }; src_dir { path s; }; lib_dir { path l; }; };''"

definition sample_os :: os where
  "sample_os = \<lparr>sys_access = \<lambda>_ _. True, sys_dir = \<lambda>d. if d = ''d/s'' then Some [(8, ''a.cpp''), (4, ''x'')] else None,
     sys_file = \<lambda>f. if f = ''d/netc.proj'' then Some sample_project else Some sample_cpt,
     sys_size = \<lambda>f. length (if f = ''d/netc.proj'' then sample_project else sample_cpt),
     sys_junk = \<lambda>_. [], sys_md5 = \<lambda>f. f, sys_system = \<lambda>_. (0, 0), sys_dlopen = \<lambda>_. True, sys_dlsym = \<lambda>_ _. True\<rparr>"

lemma sample_prepared:
  "map_option (map_sum id commands) (bind_run (Proj_dir sample_os (CHR 0x00) ''d'' ''netc.proj'') (prepare sample_os)) =
     Some (Inr [''g++ -fPIC -shared -std=c++11 -o d/l/lib_a.cpp.so d/s/a.cpp >gcc_build.log 2>&1''])"
  by code_simp

lemma sample_run:
  "\<exists>p q. Proj_dir sample_os (CHR 0x00) ''d'' ''netc.proj'' = Some (Inr p) \<and> prepare sample_os p = Some (Inr q) \<and> commands q \<noteq> []"
proof (cases "bind_run (Proj_dir sample_os (CHR 0x00) ''d'' ''netc.proj'') (prepare sample_os)")
  case (Some r)
  then obtain q where "r = Inr q" "commands q \<noteq> []" using sample_prepared by (cases r) auto
  with Some show ?thesis by auto
qed (use sample_prepared in simp)

section \<open>Building a project\<close>



text \<open>
  When it succeeds, it has compiled exactly the source files that the descriptions name, each once, in the order
  of their names, each from the directory it was found in into the library of its name.
\<close>

theorem prepare_compiles:
  assumes "Proj_dir E before dir file = Some (Inr p)" "prepare E p = Some (Inr q)"
  shows "commands q = map (compile_command q) (used_srcfiles q) \<and> std_map (used_srcfiles q) \<and>
    fst ` set (used_srcfiles q) = \<Union> (set ` src_files ` set (cpts q)) \<and>
    fst ` set (lib_index q) = fst ` set (used_srcfiles q)"
proof -
  obtain p1 p2 where ph: "SearchInfo E p = Some (Inr p1)" "CheckCptInfo E (BuildFuncIndex p1) = Inr p2"
      "compile_used E (used_srcfiles p2) p2 = Inr q"
    using assms(2) by (auto simp: prepare_def CompileUsedSrcFiles_def)
  note f = prepare_phases [OF ph(1) Proj_dir_fresh [OF assms(1)] ph(2)]
  moreover note c = compile_used_Inr [OF ph(3)]
  ultimately have "same_search p2 q" "used_srcfiles q = used_srcfiles p2" "cpts q = cpts p2"
      "commands q = map (compile_command p2) (used_srcfiles p2)" "std_map (used_srcfiles q)"
      "fst ` set (lib_index q) = fst ` set (used_srcfiles p2)"
    by (simp_all add: same_search_def searched_def)
  with f compile_command_same [of p2 q] show ?thesis by simp
qed

theorem prepare_compiles_witness:
  "\<exists>p q. Proj_dir sample_os (CHR 0x00) ''d'' ''netc.proj'' = Some (Inr p) \<and> prepare sample_os p = Some (Inr q) \<and>
     commands q \<noteq> [] \<and> commands q = map (compile_command q) (used_srcfiles q)"
  using prepare_compiles sample_run by blast

end
