(* ===== verification/Sql.thy ===== *)
theory Sql
  imports CStrings
begin

text \<open>
  SQLite as the code uses it, and \<^theory_text>\<open>src/src/sql.cpp\<close>. SQLite is not part of the repository: it is a function
  from the text of a statement, the values bound to it and a database to the names and rows of its answer (\<open>None\<close>
  for an error) and the database behind it. All rows of a statement are computed at its first step. Reading a column
  where there is no row gives null or 0, as SQLite does.
\<close>

section \<open>Statements\<close>

datatype dbval = DInt int | DText string | DBlob string | DNull

type_synonym answer = "(string list \<times> dbval list list) option"

text \<open>\<open>junk_size\<close> is the uninitialised \<open>size\<close> of a fresh \<open>SQLCallBack\<close>.\<close>

record 'db sqlite =
  run_sql :: "string \<Rightarrow> dbval list \<Rightarrow> 'db \<Rightarrow> answer \<times> 'db"
  errmsg :: "'db \<Rightarrow> string"
  junk_size :: nat

definition exec :: "'db sqlite \<Rightarrow> string \<Rightarrow> 'db \<Rightarrow> 'db" where
  "exec Q sql db = snd (run_sql Q sql [] db)"

definition in_txn :: "'db sqlite \<Rightarrow> string \<Rightarrow> dbval list \<Rightarrow> 'db \<Rightarrow> answer \<times> 'db" where
  "in_txn Q sql vals db =
     (let (r, db) = run_sql Q sql vals (exec Q ''BEGIN;'' db) in (r, exec Q ''COMMIT;'' db))"

definition first_row :: "answer \<Rightarrow> dbval list option" where
  "first_row r = (case r of Some (_, row # _) \<Rightarrow> Some row | _ \<Rightarrow> None)"

definition column :: "dbval list option \<Rightarrow> nat \<Rightarrow> dbval" where
  "column row i = (case row of Some vs \<Rightarrow> if i < length vs then vs ! i else DNull | None \<Rightarrow> DNull)"

fun as_text :: "dbval \<Rightarrow> string option" where
  "as_text (DInt i) = Some (show_int i)"
| "as_text (DText s) = Some (c_str s)"
| "as_text (DBlob s) = Some (c_str s)"
| "as_text DNull = None"

fun as_int :: "dbval \<Rightarrow> int" where
  "as_int (DInt i) = to_int32 i"
| "as_int (DText s) = extract_int s"
| "as_int (DBlob s) = extract_int s"
| "as_int DNull = 0"

text \<open>A \<open>std::string\<close> from \<open>sqlite3_column_text\<close>; a null pointer is dereferenced.\<close>

definition column_string :: "dbval list option \<Rightarrow> nat \<Rightarrow> string res" where
  "column_string row i = (case as_text (column row i) of None \<Rightarrow> Inl NullDeref | Some s \<Rightarrow> Inr s)"

definition column_int :: "dbval list option \<Rightarrow> nat \<Rightarrow> int" where
  "column_int row i = as_int (column row i)"

abbreviation bind_text :: "string \<Rightarrow> dbval" where
  "bind_text s \<equiv> DText (c_str s)"

section \<open>sql.cpp\<close>

fun commas :: "string list \<Rightarrow> string" where
  "commas [] = []"
| "commas [x] = x"
| "commas (x # xs) = x @ '','' @ commas xs"

definition create_sql :: "string \<Rightarrow> (string \<times> string) list \<Rightarrow> string" where
  "create_sql name cols = ''CREATE TABLE '' @ name @ ''('' @ commas (map (\<lambda>(c, t). c @ '' '' @ t) cols) @ '');''"

definition insert_sql :: "string \<Rightarrow> (string \<times> string) list \<Rightarrow> string" where
  "insert_sql table_name items =
     ''INSERT INTO '' @ table_name @ ''('' @ commas (map fst items) @ '') VALUES('' @ commas (map snd items) @ '');''"

definition string_type :: "string \<Rightarrow> string" where
  "string_type str = [CHR 0x27] @ str @ [CHR 0x27]"

record sql_callback =
  cb_size :: nat
  cb_items :: "(string \<times> string) list"
  cb_ok :: bool

definition SQLCallBackFunc :: "string list \<Rightarrow> dbval list \<Rightarrow> sql_callback \<Rightarrow> sql_callback" where
  "SQLCallBackFunc azColName argv pscb =
     pscb\<lparr>cb_size := length argv,
       cb_items := cb_items pscb @ zip azColName (map (\<lambda>v. case as_text v of None \<Rightarrow> ''nil'' | Some s \<Rightarrow> s) argv)\<rparr>"

definition sql_exec :: "'db sqlite \<Rightarrow> string \<Rightarrow> 'db \<Rightarrow> sql_callback \<times> 'db" where
  "sql_exec Q sql db =
     (let (r, db) = run_sql Q sql [] db; pscb = \<lparr>cb_size = junk_size Q, cb_items = [], cb_ok = r \<noteq> None\<rparr>
      in (case r of None \<Rightarrow> pscb | Some (cols, rows) \<Rightarrow> foldl (\<lambda>cb row. SQLCallBackFunc cols row cb) pscb rows, db))"

definition table_create :: "'db sqlite \<Rightarrow> string \<Rightarrow> (string \<times> string) list \<Rightarrow> 'db \<Rightarrow> 'db res" where
  "table_create Q name cols db =
     (let (pscb, db) = sql_exec Q (create_sql name cols) (exec Q ''BEGIN;'' db); db = exec Q ''COMMIT;'' db
      in if \<not> cb_ok pscb then Inl (ThrownText ''fail to create table'') else Inr db)"

text \<open>The database behind a failed \<open>table_create\<close>.\<close>

definition create_failed :: "'db sqlite \<Rightarrow> string \<Rightarrow> (string \<times> string) list \<Rightarrow> 'db \<Rightarrow> 'db" where
  "create_failed Q name cols db = exec Q ''COMMIT;'' (snd (sql_exec Q (create_sql name cols) (exec Q ''BEGIN;'' db)))"

end
