(* ===== verification/ProjectDb.thy ===== *)
theory ProjectDb
  imports Project Sql
begin

text \<open>
  The database of a project: the parts of \<open>Proj\<close> in \<^theory_text>\<open>src/src/cproj_proj.cpp\<close> that write, check and update
  it. Between the steps of a statement the code only runs \<open>BEGIN;\<close> and \<open>COMMIT;\<close>. The database of a run that
  throws is not tracked.
\<close>

section \<open>Writing a new database\<close>

abbreviation key_type :: string where "key_type \<equiv> ''INT  PRIMARY KEY  NOT NULL''"
abbreviation text_type :: string where "text_type \<equiv> ''TEXT NOT NULL''"

definition new_tables :: "(string \<times> (string \<times> string) list) list" where
  "new_tables =
     [(''srcfiles'', [(''id'', key_type), (''name'', text_type), (''path'', text_type), (''content'', ''NONE''), (''md5'', text_type)]),
      (''functions'', [(''id'', key_type), (''name'', text_type), (''srcfile_id'', ''INT NOT NULL''), (''libfile_id'', ''INT NOT NULL'')]),
      (''cptfiles'', [(''id'', key_type), (''path'', text_type), (''content'', ''NONE''), (''md5'', text_type)]),
      (''projfile'', [(''project_name'', text_type), (''content'', ''NONE''), (''md5'', text_type), (''lib_path'', text_type)]),
      (''libfiles'', [(''id'', key_type), (''name'', text_type), (''content'', ''NONE'')])]"

fun create_tables :: "'db sqlite \<Rightarrow> (string \<times> (string \<times> string) list) list \<Rightarrow> 'db \<Rightarrow> 'db res" where
  "create_tables Q [] db = Inr db"
| "create_tables Q ((name, cols) # ts) db = bind_res (table_create Q name cols db) (create_tables Q ts)"

text \<open>\<open>mkdir_ok\<close> and \<open>open_ok\<close> are the answers of \<open>mkdir\<close> and \<open>sqlite3_open\<close>, \<open>db\<close> what is opened.\<close>

definition build_new_db :: "os \<Rightarrow> 'db sqlite \<Rightarrow> bool \<Rightarrow> bool \<Rightarrow> proj \<Rightarrow> 'db \<Rightarrow> 'db res" where
  "build_new_db E Q mkdir_ok open_ok p db =
     (if \<not> mkdir_ok \<and> \<not> sys_access E (proj_path p @ ''dbs'') 1 then Inl (ThrownText ''fail to make dir dbs'')
      else if \<not> open_ok then Inl (ThrownText ''fail to create db file'')
      else create_tables Q new_tables db)"

definition insert_src :: string where
  "insert_src = insert_sql ''srcfiles'' [(''id'', ''?1''), (''name'', ''?2''), (''path'', ''?3''), (''md5'', ''?4'')]"

fun write_srcs :: "'db sqlite \<Rightarrow> proj \<Rightarrow> int \<Rightarrow> (string \<times> nat) list \<Rightarrow> 'db \<Rightarrow> 'db res" where
  "write_srcs Q p idx [] db = Inr db"
| "write_srcs Q p idx ((src, i) # srcs) db =
     bind_res (the_second (src_md5 p) src) (\<lambda>md5.
     bind_res (at (src_paths p) i) (\<lambda>path.
       write_srcs Q p (idx + 1) srcs
         (snd (run_sql Q insert_src [DInt idx, bind_text src, bind_text path, bind_text md5] db))))"

definition write_src_info :: "'db sqlite \<Rightarrow> proj \<Rightarrow> 'db \<Rightarrow> 'db res" where
  "write_src_info Q p db = write_srcs Q p 0 (used_srcfiles p) db"

definition insert_lib :: string where
  "insert_lib = insert_sql ''libfiles'' [(''id'', ''?1''), (''name'', ''?2'')]"

fun write_libs :: "'db sqlite \<Rightarrow> int \<Rightarrow> (string \<times> string) list \<Rightarrow> 'db \<Rightarrow> 'db" where
  "write_libs Q idx [] db = db"
| "write_libs Q idx ((src, lib) # libs) db =
     write_libs Q (idx + 1) libs (snd (in_txn Q insert_lib [DInt idx, bind_text lib] db))"

definition write_lib_info :: "'db sqlite \<Rightarrow> proj \<Rightarrow> 'db \<Rightarrow> 'db" where
  "write_lib_info Q p db = write_libs Q 0 (lib_index p) db"

text \<open>The identifier of a file of that name in a table; \<open>size\<close> is the number of columns, not of rows.\<close>

definition select_id :: "'db sqlite \<Rightarrow> string \<Rightarrow> string \<Rightarrow> 'db \<Rightarrow> (int \<times> 'db) res" where
  "select_id Q table file db =
     (let (psqlcb, db) = sql_exec Q (''SELECT id FROM '' @ table @ '' WHERE name = '' @ string_type file @ '';'') (exec Q ''BEGIN;'' db)
      in if cb_size psqlcb \<noteq> 1 then Inl (ThrownText ''database abnormal'')
         else bind_res (at (cb_items psqlcb) 0) (\<lambda>(col, arg).
           let file_id = extract_int arg in
           if col \<noteq> ''id'' \<or> file_id = - 1 then Inl (ThrownText ''database abnormal'')
           else Inr (file_id, exec Q ''COMMIT;'' db)))"

definition insert_func :: string where
  "insert_func = insert_sql ''functions'' [(''id'', ''?1''), (''name'', ''?2''), (''srcfile_id'', ''?3''), (''libfile_id'', ''?4'')]"

definition write_func :: "'db sqlite \<Rightarrow> proj \<Rightarrow> int \<Rightarrow> string \<times> cpt \<Rightarrow> 'db \<Rightarrow> 'db res" where
  "write_func Q p idx fc db =
     bind_res (the_second (funcs_src (snd fc)) (fst fc)) (\<lambda>src_file.
     bind_res (the_second (lib_index p) src_file) (\<lambda>lib_file.
     bind_res (select_id Q ''srcfiles'' src_file db) (\<lambda>(srcfile_id, db).
     bind_res (select_id Q ''libfiles'' lib_file db) (\<lambda>(libfile_id, db).
       Inr (snd (in_txn Q insert_func [DInt idx, bind_text (fst fc), DInt srcfile_id, DInt libfile_id] db))))))"

fun write_funcs :: "'db sqlite \<Rightarrow> proj \<Rightarrow> int \<Rightarrow> (string \<times> cpt) list \<Rightarrow> 'db \<Rightarrow> 'db res" where
  "write_funcs Q p idx [] db = Inr db"
| "write_funcs Q p idx (f # fs) db = bind_res (write_func Q p idx f db) (write_funcs Q p (idx + 1) fs)"

definition write_func_info :: "'db sqlite \<Rightarrow> proj \<Rightarrow> 'db \<Rightarrow> 'db res" where
  "write_func_info Q p db = write_funcs Q p 0 (func_index p) db"

text \<open>The second \<open>write_func_info\<close>, with the identifier behind the largest one.\<close>

definition add_func_info :: "'db sqlite \<Rightarrow> proj \<Rightarrow> string \<times> cpt \<Rightarrow> 'db \<Rightarrow> 'db res" where
  "add_func_info Q p fc db =
     (let (r, db) = in_txn Q ''SELECT * FROM functions ORDER BY id DESC limit 0,1;'' [] db
      in write_func Q p (column_int (first_row r) 0 + 1) fc db)"

definition args_table :: "(string \<times> string) list" where
  "args_table = [(''id'', key_type), (''type'', ''TEXT  NOT NULL''), (''idx'', ''INT  NOT NULL''), (''io'', ''INT  NOT NULL''),
     (''key'', ''TEXT''), (''size'', ''INT  NOT NULL'')]"

definition insert_arg :: "string \<Rightarrow> string" where
  "insert_arg func_name = insert_sql (''fargs_'' @ func_name)
     [(''id'', ''?6''), (''type'', ''?1''), (''idx'', ''?2''), (''io'', ''?3''), (''key'', ''?4''), (''size'', ''?5'')]"

fun write_args :: "'db sqlite \<Rightarrow> string \<Rightarrow> int \<Rightarrow> int \<Rightarrow> int \<Rightarrow> cpt_func_args list \<Rightarrow> 'db \<Rightarrow> 'db" where
  "write_args Q f io idx sidx [] db = db"
| "write_args Q f io idx sidx (arg # args) db =
     write_args Q f io (idx + 1) (sidx + 1) args
       (snd (in_txn Q (insert_arg f) [bind_text (a_type arg), DInt idx, DInt io, bind_text (a_key arg), DInt (a_size arg), DInt sidx] db))"

definition write_args_info_no_create_table :: "'db sqlite \<Rightarrow> string \<times> cpt \<Rightarrow> 'db \<Rightarrow> 'db res" where
  "write_args_info_no_create_table Q fc db =
     bind_res (the_second (c_fargs_in (snd fc)) (fst fc)) (\<lambda>pfin.
     bind_res (the_second (c_fargs_out (snd fc)) (fst fc)) (\<lambda>pfout.
       Inr (write_args Q (fst fc) 1 0 (int (length pfin)) pfout (write_args Q (fst fc) 0 0 0 pfin db))))"

definition write_func_args :: "'db sqlite \<Rightarrow> string \<times> cpt \<Rightarrow> 'db \<Rightarrow> 'db res" where
  "write_func_args Q fc db =
     bind_res (table_create Q (''fargs_'' @ fst fc) args_table db) (write_args_info_no_create_table Q fc)"

fun write_all_args :: "'db sqlite \<Rightarrow> (string \<times> cpt) list \<Rightarrow> 'db \<Rightarrow> 'db res" where
  "write_all_args Q [] db = Inr db"
| "write_all_args Q (f # fs) db = bind_res (write_func_args Q f db) (write_all_args Q fs)"

definition write_args_info :: "'db sqlite \<Rightarrow> proj \<Rightarrow> 'db \<Rightarrow> 'db res" where
  "write_args_info Q p db = write_all_args Q (func_index p) db"

definition insert_cpt :: string where
  "insert_cpt = insert_sql ''cptfiles'' [(''id'', ''?1''), (''path'', ''?2''), (''md5'', ''?3''), (''content'', ''?4'')]"

fun write_cpts :: "os \<Rightarrow> 'db sqlite \<Rightarrow> proj \<Rightarrow> int \<Rightarrow> string list \<Rightarrow> 'db \<Rightarrow> 'db res option" where
  "write_cpts E Q p idx [] db = Some (Inr db)"
| "write_cpts E Q p idx (cpt # cptfs) db =
     (let real_path = proj_path p @ cpt in
      if \<not> sys_access E real_path F_OK then Some (Inl (ThrownText ''cpt file not exist''))
      else case read_settings (sys_file E real_path) (sys_size E real_path) (sys_junk E real_path) [] of
        None \<Rightarrow> None
      | Some buff \<Rightarrow> write_cpts E Q p (idx + 1) cptfs
          (snd (in_txn Q insert_cpt [DInt idx, bind_text cpt, bind_text (sys_md5 E real_path), DBlob buff] db)))"

definition write_cpt_info :: "os \<Rightarrow> 'db sqlite \<Rightarrow> proj \<Rightarrow> 'db \<Rightarrow> 'db res option" where
  "write_cpt_info E Q p db = write_cpts E Q p 0 (cpt_paths p) db"

definition insert_proj :: string where
  "insert_proj = insert_sql ''projfile'' [(''project_name'', ''?1''), (''content'', ''?2''), (''md5'', ''?3''), (''lib_path'', ''?4'')]"

definition write_proj_info :: "os \<Rightarrow> 'db sqlite \<Rightarrow> proj \<Rightarrow> 'db \<Rightarrow> 'db res" where
  "write_proj_info E Q p db =
     (let file = proj_path p @ ''netc.proj'' in
      if \<not> sys_access E file F_OK then Inl (ThrownText ''project file not exist'')
      else Inr (snd (in_txn Q insert_proj
        [bind_text (p_name p), DBlob (p_content p), bind_text (sys_md5 E file), bind_text (lib_path p)] db)))"

definition DBProcess :: "os \<Rightarrow> 'db sqlite \<Rightarrow> bool \<Rightarrow> bool \<Rightarrow> proj \<Rightarrow> 'db \<Rightarrow> 'db res option" where
  "DBProcess E Q mkdir_ok open_ok p db =
     bind_run (Some (build_new_db E Q mkdir_ok open_ok p db)) (\<lambda>db.
     bind_run (Some (write_src_info Q p db)) (\<lambda>db.
     bind_run (Some (write_func_info Q p (write_lib_info Q p db))) (\<lambda>db.
     bind_run (Some (write_args_info Q p db)) (\<lambda>db.
     bind_run (write_cpt_info E Q p db) (\<lambda>db.
       Some (write_proj_info E Q p db))))))"

section \<open>Checking a database\<close>

text \<open>The columns of a table from \<open>PRAGMA table_info\<close>: name, type, not null, primary key.\<close>

type_synonym check_table_column = "string \<times> string \<times> int \<times> int"

definition step_txn :: "'db sqlite \<Rightarrow> 'db \<Rightarrow> 'db" where
  "step_txn Q db = exec Q ''COMMIT;'' (exec Q ''BEGIN;'' db)"

definition rows_of :: "answer \<Rightarrow> dbval list list" where
  "rows_of r = (case r of None \<Rightarrow> [] | Some (_, rows) \<Rightarrow> rows)"

definition head_row :: "dbval list list \<Rightarrow> dbval list option" where
  "head_row rows = (case rows of [] \<Rightarrow> None | row # _ \<Rightarrow> Some row)"

fun check_columns :: "'db sqlite \<Rightarrow> nat \<Rightarrow> check_table_column list \<Rightarrow> dbval list list \<Rightarrow> 'db \<Rightarrow> 'db res" where
  "check_columns Q 0 sctc rows db = Inr db"
| "check_columns Q (Suc n) [] rows db = Inl OutOfBounds"
| "check_columns Q (Suc n) ((cname, ctype, notnull, pk) # sctc) rows db =
     bind_res (column_string (head_row rows) 1) (\<lambda>name.
     bind_res (column_string (head_row rows) 2) (\<lambda>type.
       if name \<noteq> cname \<or> type \<noteq> ctype \<or> column_int (head_row rows) 3 \<noteq> notnull \<or> column_int (head_row rows) 5 \<noteq> pk
       then Inl (ThrownText ''table abnormal'')
       else check_columns Q n sctc (tl rows) (step_txn Q db)))"

text \<open>The loop runs from 1 to \<open>cnum - 1\<close>, so it looks at \<open>cnum - 1\<close> columns.\<close>

definition check_table :: "'db sqlite \<Rightarrow> nat \<Rightarrow> check_table_column list \<Rightarrow> string \<Rightarrow> 'db \<Rightarrow> 'db res" where
  "check_table Q cnum sctc sql db =
     (let (r, db) = in_txn Q sql [] db; rows = rows_of r in
      if (case head_row rows of None \<Rightarrow> 0 | Some row \<Rightarrow> length row) \<noteq> 6 then Inl (ThrownText ''table abnormal srcfiles'')
      else check_columns Q (cnum - 1) sctc rows db)"

fun check_exist :: "'db sqlite \<Rightarrow> string list \<Rightarrow> 'db \<Rightarrow> 'db res" where
  "check_exist Q [] db = Inr db"
| "check_exist Q (table # tables) db =
     (let (r, db) = in_txn Q ''SELECT count(*) FROM sqlite_master WHERE type='table' AND name=?1'' [DText table] db in
      if r = None then Inl (ThrownText ''fail to select'')
      else if column_int (first_row r) 0 \<noteq> 1 then Inl (ThrownText ''table is abnormal'')
      else check_exist Q tables db)"

definition table_checks :: "(nat \<times> check_table_column list \<times> string) list" where
  "table_checks =
     [(5, [(''id'', ''INT'', 1, 1), (''name'', ''TEXT'', 1, 0), (''path'', ''TEXT'', 1, 0), (''content'', ''NONE'', 0, 0), (''md5'', ''TEXT'', 1, 0)],
       ''PRAGMA table_info( srcfiles );''),
      (3, [(''id'', ''INT'', 1, 1), (''name'', ''TEXT'', 1, 0), (''content'', ''NONE'', 0, 0)], ''PRAGMA table_info( libfiles );''),
      (4, [(''id'', ''INT'', 1, 1), (''path'', ''TEXT'', 1, 0), (''content'', ''NONE'', 0, 0), (''md5'', ''TEXT'', 1, 0)],
       ''PRAGMA table_info( cptfiles );''),
      (4, [(''id'', ''INT'', 1, 1), (''name'', ''TEXT'', 1, 0), (''srcfile_id'', ''INT'', 1, 0), (''srcfile_id'', ''INT'', 1, 0)],
       ''PRAGMA table_info( functions );''),
      (3, [(''project_name'', ''TEXT'', 1, 0), (''content'', ''NONE'', 0, 0), (''md5'', ''TEXT'', 1, 0), (''lib_path'', ''TEXT'', 1, 0)],
       ''PRAGMA table_info( projfile );'')]"

fun check_tables :: "'db sqlite \<Rightarrow> (nat \<times> check_table_column list \<times> string) list \<Rightarrow> 'db \<Rightarrow> 'db res" where
  "check_tables Q [] db = Inr db"
| "check_tables Q ((cnum, sctc, sql) # cs) db = bind_res (check_table Q cnum sctc sql db) (check_tables Q cs)"

definition check_database :: "'db sqlite \<Rightarrow> proj \<Rightarrow> 'db \<Rightarrow> 'db res" where
  "check_database Q p db =
     bind_res (check_exist Q [''srcfiles'', ''cptfiles'', ''functions'', ''projfile'', ''libfiles'', ''projfile''] db) (\<lambda>db.
     bind_res (check_tables Q table_checks db) (\<lambda>db.
       let (r, db) = in_txn Q ''SELECT project_name FROM projfile;'' [] db in
       bind_res (column_string (first_row r) 0) (\<lambda>tname.
         if p_name p \<noteq> tname then Inl (ThrownText ''database conflict'') else Inr db)))"

definition AttachDatabases :: "os \<Rightarrow> 'db sqlite \<Rightarrow> proj \<Rightarrow> 'db \<Rightarrow> 'db res" where
  "AttachDatabases E Q p db =
     (if \<not> sys_access E (proj_path p @ ''dbs/'' @ p_name p @ ''.db'') F_OK then Inl (ThrownText ''database not exist'')
      else check_database Q p db)"

section \<open>Updating a database\<close>

definition src_file :: "proj \<Rightarrow> string \<Rightarrow> string \<Rightarrow> string" where
  "src_file p path src = proj_path p @ path @ ''/'' @ src"

text \<open>New source files are compiled and recorded.\<close>

fun add_new_srcs :: "os \<Rightarrow> 'db sqlite \<Rightarrow> int \<Rightarrow> (string \<times> nat) list \<Rightarrow> proj \<times> 'db \<Rightarrow> (proj \<times> 'db) res" where
  "add_new_srcs E Q last_id [] s = Inr s"
| "add_new_srcs E Q last_id ((src, i) # srcs) (p, db) =
     (let (r, db) = in_txn Q ''SELECT count(*) FROM srcfiles WHERE name = ?1'' [bind_text src] db in
      if column_int (first_row r) 0 = 0 then
        bind_res (at (src_paths p) i) (\<lambda>path.
        bind_res (compile_srcfile E src path p) (\<lambda>p.
          add_new_srcs E Q (last_id + 1) srcs
            (p, snd (in_txn Q insert_src [DInt (last_id + 1), bind_text src, bind_text path,
                       bind_text (sys_md5 E (src_file p path src))] db))))
      else add_new_srcs E Q last_id srcs (p, db))"

definition update_new_srcs :: "os \<Rightarrow> 'db sqlite \<Rightarrow> proj \<times> 'db \<Rightarrow> (proj \<times> 'db) res" where
  "update_new_srcs E Q s =
     (let (r, db) = in_txn Q ''SELECT * FROM srcfiles ORDER BY id DESC limit 0,1;'' [] (snd s)
      in add_new_srcs E Q (column_int (first_row r) 0) (used_srcfiles (fst s)) (fst s, db))"

definition insert_lib_content :: string where
  "insert_lib_content = insert_sql ''libfiles'' [(''id'', ''?1''), (''name'', ''?2''), (''content'', ''?3'')]"

fun add_new_libs :: "'db sqlite \<Rightarrow> int \<Rightarrow> (string \<times> string) list \<Rightarrow> 'db \<Rightarrow> 'db res" where
  "add_new_libs Q last_id [] db = Inr db"
| "add_new_libs Q last_id ((src, lib) # libs) db =
     (let (r, db) = in_txn Q ''SELECT count(*) FROM libfiles WHERE name = ?1'' [bind_text lib] db in
      if r = None then Inl (ThrownText (errmsg Q db))
      else if column_int (first_row r) 0 \<noteq> 0 then add_new_libs Q last_id libs db
      else add_new_libs Q (last_id + 1) libs
             (snd (in_txn Q insert_lib_content [DInt (last_id + 1), bind_text lib, DNull] db)))"

definition update_new_libs :: "'db sqlite \<Rightarrow> proj \<times> 'db \<Rightarrow> (proj \<times> 'db) res" where
  "update_new_libs Q s =
     (let (r, db) = in_txn Q ''SELECT * FROM libfiles ORDER BY id DESC limit 0,1;'' [] (snd s)
      in bind_res (add_new_libs Q (column_int (first_row r) 0) (lib_index (fst s)) db) (\<lambda>db. Inr (fst s, db)))"

text \<open>Source files whose digest is not the recorded one are compiled again.\<close>

fun rebuild_srcs :: "os \<Rightarrow> 'db sqlite \<Rightarrow> (string \<times> nat) list \<Rightarrow> proj \<times> 'db \<Rightarrow> (proj \<times> 'db) res" where
  "rebuild_srcs E Q [] s = Inr s"
| "rebuild_srcs E Q ((src, i) # srcs) (p, db) =
     (let (r, db) = in_txn Q ''SELECT md5 FROM srcfiles WHERE name = ?1;'' [bind_text src] db in
      bind_res (column_string (first_row r) 0) (\<lambda>dmd5.
      bind_res (at (src_paths p) i) (\<lambda>path.
        let tmd5 = sys_md5 E (src_file p path src) in
        if dmd5 \<noteq> tmd5 then
          bind_res (compile_srcfile E src path p) (\<lambda>p.
            rebuild_srcs E Q srcs
              (p, snd (in_txn Q ''UPDATE srcfiles SET md5 = ?1 WHERE name = ?2;'' [bind_text tmd5, bind_text src] db)))
        else rebuild_srcs E Q srcs (p, db))))"

text \<open>The first half of \<open>UpdateProcess\<close>: the source files and their libraries.\<close>

definition update_sources :: "os \<Rightarrow> 'db sqlite \<Rightarrow> proj \<times> 'db \<Rightarrow> (proj \<times> 'db) res" where
  "update_sources E Q s =
     bind_res (update_new_srcs E Q s) (\<lambda>s.
     bind_res (update_new_libs Q s) (\<lambda>s.
     rebuild_srcs E Q (used_srcfiles (fst s)) s))"

fun add_new_funcs :: "'db sqlite \<Rightarrow> proj \<Rightarrow> (string \<times> cpt) list \<Rightarrow> 'db \<Rightarrow> 'db res" where
  "add_new_funcs Q p [] db = Inr db"
| "add_new_funcs Q p (fc # fcs) db =
     (let (r, db) = in_txn Q ''SELECT count(*) FROM functions WHERE name = ?1;'' [bind_text (fst fc)] db in
      bind_res
        (if r \<noteq> None \<and> column_int (first_row r) 0 = 0
         then bind_res (add_func_info Q p fc db) (write_func_args Q fc) else Inr db)
        (add_new_funcs Q p fcs))"

text \<open>
  The recorded arguments are compared with the described ones, row by row. A mismatch ends one loop; the other one
  goes on at the same row. \<open>begin_text\<close> is misspelled in the loop over the outputs.
\<close>

fun cmp_args :: "'db sqlite \<Rightarrow> string \<Rightarrow> int \<Rightarrow> int \<Rightarrow> cpt_func_args list \<Rightarrow> dbval list list \<Rightarrow> 'db \<Rightarrow>
    (bool \<times> dbval list list \<times> 'db) res" where
  "cmp_args Q begin_text io idx [] rows db = Inr (False, rows, db)"
| "cmp_args Q begin_text io idx (farg # fargs) rows db =
     bind_res (column_string (head_row rows) 1) (\<lambda>type.
     bind_res (column_string (head_row rows) 4) (\<lambda>key.
       if column_int (head_row rows) 2 = idx \<and> column_int (head_row rows) 3 = io \<and>
          type = a_type farg \<and> key = a_key farg \<and> column_int (head_row rows) 5 = a_size farg
       then cmp_args Q begin_text io (idx + 1) fargs (tl rows) (exec Q ''COMMIT;'' (exec Q begin_text db))
       else Inr (True, rows, db)))"

definition args_changed :: "'db sqlite \<Rightarrow> cpt_func_args list \<Rightarrow> cpt_func_args list \<Rightarrow> dbval list list \<Rightarrow> 'db \<Rightarrow> (bool \<times> 'db) res" where
  "args_changed Q fins fouts rows db =
     bind_res (cmp_args Q ''BEGIN;'' 0 0 fins rows db) (\<lambda>(changed_in, rows, db).
     bind_res (cmp_args Q ''BEGIIN;'' 1 0 fouts rows db) (\<lambda>(changed_out, rows, db).
       Inr (changed_in \<or> changed_out, db)))"

definition update_func_args :: "'db sqlite \<Rightarrow> string \<times> cpt \<Rightarrow> 'db \<Rightarrow> 'db res" where
  "update_func_args Q fc db =
     (let (r, db) = in_txn Q (''SELECT * FROM fargs_'' @ fst fc @ '';'') [] db in
      bind_res (the_second (c_fargs_in (snd fc)) (fst fc)) (\<lambda>fins.
      bind_res (the_second (c_fargs_out (snd fc)) (fst fc)) (\<lambda>fouts.
      bind_res (args_changed Q fins fouts (rows_of r) db) (\<lambda>(if_changed, db).
        if if_changed then
          write_args_info_no_create_table Q fc (snd (in_txn Q (''DELETE FROM fargs_'' @ fst fc @ '';'') [] db))
        else Inr db))))"

fun update_args :: "'db sqlite \<Rightarrow> (string \<times> cpt) list \<Rightarrow> 'db \<Rightarrow> 'db res" where
  "update_args Q [] db = Inr db"
| "update_args Q (fc # fcs) db = bind_res (update_func_args Q fc db) (update_args Q fcs)"

definition UpdateProcess :: "os \<Rightarrow> 'db sqlite \<Rightarrow> proj \<Rightarrow> 'db \<Rightarrow> (proj \<times> 'db) res option" where
  "UpdateProcess E Q p db =
     bind_run (Some (AttachDatabases E Q p db)) (\<lambda>db.
     bind_run (Some (GeneralCheckInfo E p)) (\<lambda>_.
     bind_run (SearchInfo E p) (\<lambda>p.
     bind_run (Some (CheckCptInfo E p)) (\<lambda>p.
     bind_run (Some (update_sources E Q (BuildFuncIndex p, db))) (\<lambda>(p, db).
     bind_run (Some (add_new_funcs Q p (func_index p) db)) (\<lambda>db.
     bind_run (Some (update_args Q (func_index p) db)) (\<lambda>db.
     bind_run (write_cpt_info E Q p (snd (in_txn Q ''DELETE FROM cptfiles'' [] db))) (\<lambda>db.
     bind_run (Some (write_proj_info E Q p (snd (in_txn Q ''DELETE FROM projfile'' [] db)))) (\<lambda>db.
       Some (Inr (p, db)))))))))))"

end
