(* ===== verification/ProjectUpdate.thy ===== *)
theory ProjectUpdate
  imports ProjectDb "HOL-Library.Sublist"
begin

text \<open>
  What an update of a project does: how the recorded arguments of an entry function decide whether they are written
  again, which source files are compiled again, and where the update of an entry function looks behind a map.
\<close>

section \<open>Recorded arguments\<close>

text \<open>The rows that \<open>write_args\<close> inserts, in the order of the columns of the table.\<close>

fun arg_rows :: "int \<Rightarrow> int \<Rightarrow> int \<Rightarrow> cpt_func_args list \<Rightarrow> dbval list list" where
  "arg_rows io idx sidx [] = []"
| "arg_rows io idx sidx (a # as) =
     [DInt sidx, DText (a_type a), DInt idx, DInt io, DText (a_key a), DInt (a_size a)] # arg_rows io (idx + 1) (sidx + 1) as"

text \<open>No NUL in the texts, and a size that an \<open>int\<close> holds.\<close>

definition storable :: "cpt_func_args \<Rightarrow> bool" where
  "storable a \<longleftrightarrow> c_str (a_type a) = a_type a \<and> c_str (a_key a) = a_key a \<and> to_int32 (a_size a) = a_size a"

lemma to_int32_small: "- (2 ^ 31) \<le> i \<Longrightarrow> i < 2 ^ 31 \<Longrightarrow> to_int32 i = i"
  unfolding to_int32_def by (simp add: signed_take_bit_int_eq_self)

lemma cmp_args_match:
  assumes "list_all storable cs" "0 \<le> i" "i + int (length cs) < 2 ^ 31" "io \<in> {0, 1}"
  shows "\<exists>db'. cmp_args Q b io i (cs @ as) (arg_rows io i s cs @ rows) db = cmp_args Q b io (i + int (length cs)) as rows db'"
  using assms
proof (induction cs arbitrary: i s db)
  case (Cons c cs)
  have "to_int32 i = i" "to_int32 io = io" using Cons.prems by (auto intro!: to_int32_small)
  with Cons.prems obtain db' where
    "cmp_args Q b io i ((c # cs) @ as) (arg_rows io i s (c # cs) @ rows) db = cmp_args Q b io (i + 1) (cs @ as) (arg_rows io (i + 1) (s + 1) cs @ rows) db'"
    by (auto simp: storable_def column_string_def column_int_def column_def head_row_def)
  moreover have "\<exists>db''. cmp_args Q b io (i + 1) (cs @ as) (arg_rows io (i + 1) (s + 1) cs @ rows) db' =
      cmp_args Q b io (i + 1 + int (length cs)) as rows db''"
    by (rule Cons.IH) (use Cons.prems in auto)
  ultimately show ?case by (auto simp: algebra_simps)
qed auto

lemma arg_rows_append:
  "arg_rows io i s (as @ bs) = arg_rows io i s as @ arg_rows io (i + int (length as)) (s + int (length as)) bs"
  by (induction as arbitrary: i s) (simp_all add: algebra_simps)

lemma cmp_args_no_row: "cmp_args Q b io i (a # as) [] db = Inl NullDeref"
  by (simp add: column_string_def column_def head_row_def)

lemma cmp_args_other_io:
  assumes "io' \<noteq> io" "{io, io'} \<subseteq> {0, 1}"
  shows "cmp_args Q b io i (a # as) (arg_rows io' j s (c # cs) @ rows) db = Inr (True, arg_rows io' j s (c # cs) @ rows, db)"
proof -
  have "to_int32 io' = io'" using assms by (auto intro!: to_int32_small)
  then show ?thesis using assms by (simp add: column_string_def column_int_def column_def head_row_def)
qed

lemma cmp_args_mismatch:
  assumes "a \<noteq> c" "storable c"
  shows "cmp_args Q b io i (a # as) (arg_rows io j s (c # cs) @ rows) db = Inr (True, arg_rows io j s (c # cs) @ rows, db)"
  using assms by (cases a; cases c) (auto simp: storable_def column_string_def column_int_def column_def head_row_def)

lemma common_prefix:
  "\<exists>cs as' bs'. as = cs @ as' \<and> bs = cs @ bs' \<and> (as' = [] \<or> bs' = [] \<or> hd as' \<noteq> hd bs')"
proof (induction as arbitrary: bs)
  case (Cons a as)
  show ?case
  proof (cases bs)
    case (Cons b bs')
    show ?thesis
    proof (cases "a = b")
      case True
      from Cons.IH show ?thesis using True \<open>bs = b # bs'\<close> by (metis append_Cons)
    next
      case False
      then show ?thesis by (intro exI [of _ "[]"] exI [of _ "a # as"] exI [of _ bs]) (simp add: Cons)
    qed
  qed auto
qed auto

definition verdict :: "(bool \<times> 'a \<times> 'b) res \<Rightarrow> bool res" where
  "verdict = map_sum id fst"

lemma verdict_simps [simp]: "verdict (Inl e) = Inl e" "verdict (Inr (b, r)) = Inr b"
  by (simp_all add: verdict_def)

text \<open>The loop over the outputs, when the rows of the inputs are used up.\<close>

lemma cmp_outputs:
  assumes "list_all storable fouts" "int (length fouts) < 2 ^ 31"
  shows "verdict (cmp_args Q b 1 0 fouts' (arg_rows 1 0 s fouts) db) =
    (if strict_prefix fouts fouts' then Inl NullDeref else Inr (\<not> prefix fouts' fouts))"
proof -
  obtain cs as bs where d: "fouts = cs @ as" "fouts' = cs @ bs" "as = [] \<or> bs = [] \<or> hd as \<noteq> hd bs"
    using common_prefix by blast
  have "\<exists>db'. cmp_args Q b 1 0 (cs @ bs) (arg_rows 1 0 s cs @ arg_rows 1 (int (length cs)) (s + int (length cs)) as) db =
      cmp_args Q b 1 (0 + int (length cs)) bs (arg_rows 1 (int (length cs)) (s + int (length cs)) as) db'"
    by (rule cmp_args_match) (use assms d in auto)
  moreover have "arg_rows 1 0 s (cs @ as) = arg_rows 1 0 s cs @ arg_rows 1 (int (length cs)) (s + int (length cs)) as"
    using arg_rows_append by simp
  ultimately obtain db' where e: "cmp_args Q b 1 0 fouts' (arg_rows 1 0 s fouts) db =
      cmp_args Q b 1 (int (length cs)) bs (arg_rows 1 (int (length cs)) (s + int (length cs)) as) db'"
    using d by auto
  show ?thesis
  proof (cases bs)
    case Nil
    then show ?thesis using d e by (auto simp: strict_prefix_def)
  next
    case bs: (Cons b' bs')
    show ?thesis
    proof (cases as)
      case Nil
      then show ?thesis using d e bs by (simp add: cmp_args_no_row del: cmp_args.simps) (simp add: strict_prefix_def)
    next
      case (Cons a as')
      then have "b' \<noteq> a" "storable a" using d bs assms by auto
      from cmp_args_mismatch [OF this, of Q b 1 "int (length cs)" bs' "int (length cs)" "s + int (length cs)" as' "[]" db']
      have "verdict (cmp_args Q b 1 0 fouts' (arg_rows 1 0 s fouts) db) = Inr True"
        using e bs Cons by (simp only: append_Nil2 verdict_simps)
      then show ?thesis using d bs Cons \<open>b' \<noteq> a\<close> by (simp add: strict_prefix_def)
    qed
  qed
qed

definition second_loop :: "'db sqlite \<Rightarrow> bool \<Rightarrow> cpt_func_args list \<Rightarrow> dbval list list \<Rightarrow> 'db \<Rightarrow> bool res" where
  "second_loop Q changed fouts rows db = map_sum id (\<lambda>c. changed \<or> c) (verdict (cmp_args Q ''BEGIIN;'' 1 0 fouts rows db))"

lemma args_changed_second:
  "cmp_args Q ''BEGIN;'' 0 0 fins rows db = Inr (c, rows', db') \<Longrightarrow>
   map_sum id fst (args_changed Q fins fouts rows db) = second_loop Q c fouts rows' db'"
  by (cases "cmp_args Q ''BEGIIN;'' 1 0 fouts rows' db'")
    (auto simp: args_changed_def second_loop_def)

lemma second_loop_on_input:
  "second_loop Q c fouts (arg_rows 0 j s (a # as) @ rows) db = Inr (c \<or> fouts \<noteq> [])"
  by (cases fouts) (simp_all add: second_loop_def cmp_args_other_io del: cmp_args.simps(2) arg_rows.simps)

lemma second_loop_on_output:
  assumes "list_all storable fouts" "int (length fouts) < 2 ^ 31"
  shows "second_loop Q c fouts' (arg_rows 1 0 s fouts) db =
    (if strict_prefix fouts fouts' then Inl NullDeref else Inr (c \<or> \<not> prefix fouts' fouts))"
  by (simp add: second_loop_def cmp_outputs [OF assms])

text \<open>The loop over the inputs.\<close>

lemma first_loop:
  fixes fouts :: "cpt_func_args list" and n :: int
  defines "R \<equiv> arg_rows 1 0 n fouts"
  assumes "list_all storable fins" "int (length fins) < 2 ^ 31"
  shows "\<exists>j s a as db'. cmp_args Q b 0 0 fins' (arg_rows 0 0 0 fins @ R) db =
    (if fins' = fins then Inr (False, R, db')
     else if prefix fins fins' then (if fouts = [] then Inl NullDeref else Inr (True, R, db'))
     else Inr (\<not> prefix fins' fins, arg_rows 0 j s (a # as) @ R, db'))"
proof -
  obtain cs as bs where d: "fins = cs @ as" "fins' = cs @ bs" "as = [] \<or> bs = [] \<or> hd as \<noteq> hd bs"
    using common_prefix by blast
  let ?n = "int (length cs)"
  obtain db' where e: "cmp_args Q b 0 0 fins' (arg_rows 0 0 0 fins @ R) db = cmp_args Q b 0 ?n bs (arg_rows 0 ?n ?n as @ R) db'"
    using cmp_args_match [of cs 0 0 Q b bs 0 "arg_rows 0 ?n ?n as @ R" db] assms
    by (auto simp: d arg_rows_append)
  consider "bs = []" "as = []" | a as' where "bs = []" "as = a # as'" | b' bs' where "bs = b' # bs'" "as = []"
    | a as' b' bs' where "bs = b' # bs'" "as = a # as'" by (cases as; cases bs) auto
  then show ?thesis
  proof cases
    case 1
    then show ?thesis using d e by simp
  next
    case 2
    then have "\<not> prefix fins fins'" "prefix fins' fins" "fins' \<noteq> fins" using d by auto
    then show ?thesis using e 2 by (simp del: arg_rows.simps) blast
  next
    case 3
    then have "prefix fins fins'" "fins' \<noteq> fins" using d by auto
    moreover have "cmp_args Q b 0 ?n bs R db' = (if fouts = [] then Inl NullDeref else Inr (True, R, db'))"
    proof (cases fouts)
      case Nil
      then show ?thesis using 3 by (simp add: R_def cmp_args_no_row del: cmp_args.simps(2))
    next
      case (Cons f fs)
      show ?thesis using cmp_args_other_io [of 1 0 Q b ?n b' bs' 0 n f fs "[]" db'] 3 Cons
        by (simp only: R_def append_Nil2 list.distinct if_False)
    qed
    ultimately show ?thesis using e 3 by auto
  next
    case 4
    then have n: "\<not> prefix fins fins'" "\<not> prefix fins' fins" "fins' \<noteq> fins" using d by auto
    have "b' \<noteq> a" "storable a" using d assms 4 by auto
    from cmp_args_mismatch [OF this] have
      "cmp_args Q b 0 ?n bs (arg_rows 0 ?n ?n as @ R) db' = Inr (True, arg_rows 0 ?n ?n (a # as') @ R, db')"
      by (simp only: 4)
    with n e show ?thesis by (simp del: arg_rows.simps) blast
  qed
qed

text \<open>
  When an update compares the recorded arguments \<open>fins\<close>, \<open>fouts\<close> of an entry function with the described ones
  \<open>fins'\<close>, \<open>fouts'\<close>, it keeps the records although trailing outputs are gone (or all outputs and trailing inputs),
  and it reads a column of no row, a null pointer, when outputs were appended, or inputs to a function without
  outputs. In all other cases the arguments are written again exactly if they differ.
\<close>

theorem args_changed_decision:
  assumes "list_all storable fins" "list_all storable fouts" "int (length fins) + int (length fouts) < 2 ^ 31"
  shows "map_sum id fst (args_changed Q fins' fouts' (arg_rows 0 0 0 fins @ arg_rows 1 0 (int (length fins)) fouts) db) =
    (if prefix fins fins' \<and> (strict_prefix fouts fouts' \<or> fouts = [] \<and> fins \<noteq> fins') then Inl NullDeref
     else if fins' = fins \<and> prefix fouts' fouts \<or> prefix fins' fins \<and> fouts' = [] then Inr False
     else Inr True)"
proof -
  have "int (length fins) < 2 ^ 31" "int (length fouts) < 2 ^ 31" using assms(3) by linarith+
  note o = second_loop_on_output [OF assms(2) this(2)] and f = first_loop [OF assms(1) this(1)]
  obtain j s a as db' where
    e: "cmp_args Q ''BEGIN;'' 0 0 fins' (arg_rows 0 0 0 fins @ arg_rows 1 0 (int (length fins)) fouts) db =
    (if fins' = fins then Inr (False, arg_rows 1 0 (int (length fins)) fouts, db')
     else if prefix fins fins' then (if fouts = [] then Inl NullDeref else Inr (True, arg_rows 1 0 (int (length fins)) fouts, db'))
     else Inr (\<not> prefix fins' fins, arg_rows 0 j s (a # as) @ arg_rows 1 0 (int (length fins)) fouts, db'))"
    using f [of Q "''BEGIN;''" fins' "int (length fins)" fouts db] by (elim exE) (rule that)
  consider "fins' = fins" | "prefix fins fins'" "fins' \<noteq> fins" "fouts = []" | "prefix fins fins'" "fins' \<noteq> fins" "fouts \<noteq> []"
    | "\<not> prefix fins fins'" by blast
  then show ?thesis
  proof cases
    case 1
    then have "cmp_args Q ''BEGIN;'' 0 0 fins' (arg_rows 0 0 0 fins @ arg_rows 1 0 (int (length fins)) fouts) db =
        Inr (False, arg_rows 1 0 (int (length fins)) fouts, db')" using e by simp
    from args_changed_second [OF this] show ?thesis using 1 by (auto simp: o)
  next
    case 2
    then show ?thesis using e by (simp add: args_changed_def)
  next
    case 3
    then have "cmp_args Q ''BEGIN;'' 0 0 fins' (arg_rows 0 0 0 fins @ arg_rows 1 0 (int (length fins)) fouts) db =
        Inr (True, arg_rows 1 0 (int (length fins)) fouts, db')" using e by simp
    from args_changed_second [OF this] show ?thesis using 3 by (auto simp: o)
  next
    case 4
    then have "cmp_args Q ''BEGIN;'' 0 0 fins' (arg_rows 0 0 0 fins @ arg_rows 1 0 (int (length fins)) fouts) db =
        Inr (\<not> prefix fins' fins, arg_rows 0 j s (a # as) @ arg_rows 1 0 (int (length fins)) fouts, db')" using e by auto
    from args_changed_second [OF this] show ?thesis using 4 by (auto simp: second_loop_on_input simp del: arg_rows.simps)
  qed
qed

definition no_sqlite :: "unit sqlite" where
  "no_sqlite = \<lparr>run_sql = \<lambda>_ _ db. (None, db), errmsg = \<lambda>_. [], junk_size = 0\<rparr>"

abbreviation int_arg :: "string \<Rightarrow> cpt_func_args" where
  "int_arg k \<equiv> \<lparr>a_type = ''int'', a_size = 1, a_key = k\<rparr>"

theorem args_changed_decision_witness:
  "map_sum id fst (args_changed no_sqlite [int_arg ''x''] [int_arg ''y'']
     (arg_rows 0 0 0 [int_arg ''x''] @ arg_rows 1 0 1 [int_arg ''y'', int_arg ''z'']) ()) = Inr False \<and>
   map_sum id fst (args_changed no_sqlite [int_arg ''x''] [int_arg ''y'', int_arg ''z'']
     (arg_rows 0 0 0 [int_arg ''x''] @ arg_rows 1 0 1 [int_arg ''y'']) ()) = Inl NullDeref"
proof -
  have s: "list_all storable [int_arg ''x'']" "list_all storable [int_arg ''y'', int_arg ''z'']" "list_all storable [int_arg ''y'']"
    by code_simp+
  from args_changed_decision [OF s(1,2), of no_sqlite "[int_arg ''x'']" "[int_arg ''y'']" "()"]
    args_changed_decision [OF s(1,3), of no_sqlite "[int_arg ''x'']" "[int_arg ''y'', int_arg ''z'']" "()"]
  show ?thesis by (simp add: strict_prefix_def del: args_changed_def arg_rows.simps)
qed

section \<open>The table of source files\<close>

text \<open>
  What the update relies on from SQLite: \<open>tab\<close> reads the table \<open>srcfiles\<close> out of a database as rows of
  identifier, name, path and digest. The statements on \<open>libfiles\<close> and the transactions leave it alone.
\<close>

type_synonym src_row = "int \<times> string \<times> string \<times> string"

definition named :: "string \<Rightarrow> src_row list \<Rightarrow> src_row list" where
  "named n rows = filter (\<lambda>r. fst (snd r) = n) rows"

definition keeps :: "'db sqlite \<Rightarrow> ('db \<Rightarrow> src_row list) \<Rightarrow> string \<Rightarrow> bool" where
  "keeps Q tab sql \<longleftrightarrow> (\<forall>vals db. tab (snd (run_sql Q sql vals db)) = tab db)"

definition answers :: "'db sqlite \<Rightarrow> ('db \<Rightarrow> src_row list) \<Rightarrow> string \<Rightarrow> (src_row list \<Rightarrow> dbval list list) \<Rightarrow> bool" where
  "answers Q tab sql f \<longleftrightarrow> (\<forall>n db. \<exists>cols. fst (run_sql Q sql [DText n] db) = Some (cols, f (named n (tab db))))"

definition last_id_law :: "'db sqlite \<Rightarrow> ('db \<Rightarrow> src_row list) \<Rightarrow> string \<Rightarrow> bool" where
  "last_id_law Q tab sql \<longleftrightarrow> (\<forall>db. \<exists>cols vs. fst (run_sql Q sql [] db) =
     Some (cols, if tab db = [] then [] else [DInt (Max (fst ` set (tab db))) # vs]))"

definition srcfiles_laws :: "'db sqlite \<Rightarrow> ('db \<Rightarrow> src_row list) \<Rightarrow> bool" where
  "srcfiles_laws Q tab \<longleftrightarrow>
     list_all (keeps Q tab) [''BEGIN;'', ''COMMIT;'', ''SELECT count(*) FROM srcfiles WHERE name = ?1'',
       ''SELECT * FROM srcfiles ORDER BY id DESC limit 0,1;'', ''SELECT md5 FROM srcfiles WHERE name = ?1;'',
       ''SELECT * FROM libfiles ORDER BY id DESC limit 0,1;'', ''SELECT count(*) FROM libfiles WHERE name = ?1'',
       insert_lib_content] \<and>
     answers Q tab ''SELECT count(*) FROM srcfiles WHERE name = ?1'' (\<lambda>rows. [[DInt (int (length rows))]]) \<and>
     answers Q tab ''SELECT md5 FROM srcfiles WHERE name = ?1;'' (map (\<lambda>r. [DText (snd (snd (snd r)))])) \<and>
     last_id_law Q tab ''SELECT * FROM srcfiles ORDER BY id DESC limit 0,1;'' \<and>
     (\<forall>n db. fst (run_sql Q ''SELECT count(*) FROM libfiles WHERE name = ?1'' [DText n] db) \<noteq> None) \<and>
     (\<forall>i n pa m db. i \<notin> fst ` set (tab db) \<longrightarrow>
        tab (snd (run_sql Q insert_src [DInt i, DText n, DText pa, DText m] db)) = tab db @ [(i, n, pa, m)]) \<and>
     (\<forall>m n db. tab (snd (run_sql Q ''UPDATE srcfiles SET md5 = ?1 WHERE name = ?2;'' [DText m, DText n] db)) =
        map (\<lambda>(i, k, pa, d). (i, k, pa, if k = n then m else d)) (tab db))"

text \<open>The digest recorded for a name, and a table as the code keeps it.\<close>

definition recorded :: "src_row list \<Rightarrow> string \<Rightarrow> string option" where
  "recorded rows n = (case named n rows of [] \<Rightarrow> None | r # _ \<Rightarrow> Some (snd (snd (snd r))))"

definition src_table :: "int \<Rightarrow> src_row list \<Rightarrow> bool" where
  "src_table room rows \<longleftrightarrow> distinct (map (\<lambda>r. fst (snd r)) rows) \<and> 
     (\<forall>(i, n, pa, m) \<in> set rows. 0 \<le> i \<and> i + room < 2 ^ 31 \<and> c_str m = m)"

lemma named_append [simp]: "named n (rows @ rows') = named n rows @ named n rows'"
  by (simp add: named_def)

lemma named_update [simp]:
  "named n (map (\<lambda>(i, k, pa, d). (i, k, pa, if k = x then m else d)) rows) =
   map (\<lambda>(i, k, pa, d). (i, k, pa, if k = x then m else d)) (named n rows)"
  by (induction rows) (auto simp: named_def)

lemma recorded_None: "recorded rows n = None \<longleftrightarrow> named n rows = []"
  by (simp add: recorded_def split: list.split)

lemma named_Nil: "named n rows = [] \<longleftrightarrow> n \<notin> (\<lambda>r. fst (snd r)) ` set rows"
  by (auto simp: named_def filter_empty_conv)

lemma length_filter_distinct: "distinct (map f xs) \<Longrightarrow> length (filter (\<lambda>x. f x = n) xs) \<le> 1"
proof (induction xs)
  case (Cons x xs)
  have "filter (\<lambda>x. f x = n) xs = []" if "f x = n" using Cons.prems that
    by (simp add: filter_empty_conv) (metis imageI)
  with Cons show ?case by auto
qed simp

lemma length_named:
  assumes "src_table room rows"
  shows "length (named n rows) = (if recorded rows n = None then 0 else 1)"
proof -
  have "length (named n rows) \<le> 1"
    using assms length_filter_distinct by (auto simp: src_table_def named_def)
  then show ?thesis by (cases "named n rows") (simp_all add: recorded_None)
qed

lemma recorded_insert:
  "recorded rows n = None \<Longrightarrow> recorded (rows @ [(i, n, pa, m)]) k = (if k = n then Some m else recorded rows k)"
  by (auto simp: recorded_def named_def split: list.splits)

lemma recorded_update:
  "recorded (map (\<lambda>(i, k, pa, d). (i, k, pa, if k = x then m else d)) rows) n =
    (if n = x \<and> recorded rows n \<noteq> None then Some m else recorded rows n)"
  by (auto simp: recorded_def split: list.splits) (auto simp: named_def filter_eq_Cons_iff)

lemma in_txn_eq:
  "in_txn Q sql vals db = (fst (run_sql Q sql vals (exec Q ''BEGIN;'' db)), exec Q ''COMMIT;'' (snd (run_sql Q sql vals (exec Q ''BEGIN;'' db))))"
  by (simp add: in_txn_def split: prod.split)

lemma txn_keeps:
  assumes "srcfiles_laws Q tab"
  shows "tab (exec Q ''BEGIN;'' db) = tab db" "tab (exec Q ''COMMIT;'' db) = tab db"
    "keeps Q tab sql \<Longrightarrow> tab (snd (in_txn Q sql vals db)) = tab db"
  using assms by (simp_all add: srcfiles_laws_def keeps_def exec_def in_txn_eq)

lemma recorded_SomeD: "recorded rows n = Some m \<Longrightarrow> \<exists>i pa. (i, n, pa, m) \<in> set (named n rows)"
  by (auto simp: recorded_def split: list.splits) (auto simp: named_def filter_eq_Cons_iff)

lemma named_subset: "set (named n rows) \<subseteq> set rows"
  by (auto simp: named_def)

lemma answers_txn:
  assumes "srcfiles_laws Q tab" "answers Q tab sql f" "in_txn Q sql [DText n] db = (r, db')"
  shows "\<exists>cols. r = Some (cols, f (named n (tab db)))"
proof -
  have "r = fst (run_sql Q sql [DText n] (exec Q ''BEGIN;'' db))" using assms(3) by (auto simp: in_txn_eq)
  moreover obtain cols where "fst (run_sql Q sql [DText n] (exec Q ''BEGIN;'' db)) =
      Some (cols, f (named n (tab (exec Q ''BEGIN;'' db))))"
    using assms(2) unfolding answers_def by blast
  ultimately show ?thesis using txn_keeps(1) [OF assms(1)] by auto
qed

lemma last_id_txn:
  assumes "srcfiles_laws Q tab" "last_id_law Q tab sql" "in_txn Q sql [] db = (r, db')"
  shows "\<exists>cols vs. r = Some (cols, if tab db = [] then [] else [DInt (Max (fst ` set (tab db))) # vs])"
proof -
  have "r = fst (run_sql Q sql [] (exec Q ''BEGIN;'' db))" using assms(3) by (auto simp: in_txn_eq)
  moreover obtain cols vs where "fst (run_sql Q sql [] (exec Q ''BEGIN;'' db)) =
      Some (cols, if tab (exec Q ''BEGIN;'' db) = [] then [] else [DInt (Max (fst ` set (tab (exec Q ''BEGIN;'' db)))) # vs])"
    using assms(2) unfolding last_id_law_def by blast
  ultimately show ?thesis using txn_keeps(1) [OF assms(1)] by auto
qed

lemma count_src:
  assumes "srcfiles_laws Q tab" "src_table room (tab db)"
    "in_txn Q ''SELECT count(*) FROM srcfiles WHERE name = ?1'' [DText n] db = (r, db')"
  shows "tab db' = tab db" "column_int (first_row r) 0 = 0 \<longleftrightarrow> recorded (tab db) n = None"
proof -
  have k: "keeps Q tab ''SELECT count(*) FROM srcfiles WHERE name = ?1''" using assms(1) by (simp add: srcfiles_laws_def)
  from txn_keeps(3) [OF assms(1) k, of "[DText n]" db] assms(3) show "tab db' = tab db" by simp
  have "answers Q tab ''SELECT count(*) FROM srcfiles WHERE name = ?1'' (\<lambda>rows. [[DInt (int (length rows))]])"
    using assms(1) by (simp add: srcfiles_laws_def)
  then obtain cols where "r = Some (cols, [[DInt (int (length (named n (tab db))))]])"
    using answers_txn [OF assms(1) _ assms(3)] by blast
  moreover have "to_int32 0 = 0" "to_int32 1 = 1" by (simp_all add: to_int32_small)
  ultimately show "column_int (first_row r) 0 = 0 \<longleftrightarrow> recorded (tab db) n = None"
    using length_named [OF assms(2), of n] by (simp add: first_row_def column_int_def column_def)
qed

lemma md5_src:
  assumes "srcfiles_laws Q tab" "src_table room (tab db)" "recorded (tab db) n = Some m"
    "in_txn Q ''SELECT md5 FROM srcfiles WHERE name = ?1;'' [DText n] db = (r, db')"
  shows "tab db' = tab db" "column_string (first_row r) 0 = Inr m"
proof -
  have k: "keeps Q tab ''SELECT md5 FROM srcfiles WHERE name = ?1;''" using assms(1) by (simp add: srcfiles_laws_def)
  from txn_keeps(3) [OF assms(1) k, of "[DText n]" db] assms(4) show "tab db' = tab db" by simp
  have "answers Q tab ''SELECT md5 FROM srcfiles WHERE name = ?1;'' (map (\<lambda>r. [DText (snd (snd (snd r)))]))"
    using assms(1) by (simp add: srcfiles_laws_def)
  then obtain cols where "r = Some (cols, map (\<lambda>r. [DText (snd (snd (snd r)))]) (named n (tab db)))"
    using answers_txn [OF assms(1) _ assms(4)] by blast
  moreover have "c_str m = m"
    using recorded_SomeD [OF assms(3)] named_subset assms(2) by (fastforce simp: src_table_def)
  ultimately show "column_string (first_row r) 0 = Inr m"
    using assms(3) by (auto simp: recorded_def first_row_def column_string_def column_def split: list.splits)
qed

lemma insert_src_row:
  assumes "srcfiles_laws Q tab" "i \<notin> fst ` set (tab db)"
  shows "tab (snd (in_txn Q insert_src [DInt i, DText n, DText pa, DText m] db)) = tab db @ [(i, n, pa, m)]"
  using assms txn_keeps(1,2) [OF assms(1)] by (simp add: srcfiles_laws_def in_txn_eq)

lemma update_src_row:
  assumes "srcfiles_laws Q tab"
  shows "tab (snd (in_txn Q ''UPDATE srcfiles SET md5 = ?1 WHERE name = ?2;'' [DText m, DText n] db)) =
    map (\<lambda>(i, k, pa, d). (i, k, pa, if k = n then m else d)) (tab db)"
  using assms txn_keeps(1,2) [OF assms] by (simp add: srcfiles_laws_def in_txn_eq)

lemma last_src:
  assumes "srcfiles_laws Q tab" "src_table room (tab db)" "0 \<le> room"
    "in_txn Q ''SELECT * FROM srcfiles ORDER BY id DESC limit 0,1;'' [] db = (r, db')"
  shows "tab db' = tab db" "\<forall>i \<in> fst ` set (tab db). i \<le> column_int (first_row r) 0"
    "0 \<le> column_int (first_row r) 0" "tab db \<noteq> [] \<Longrightarrow> column_int (first_row r) 0 + room < 2 ^ 31"
proof -
  have k: "keeps Q tab ''SELECT * FROM srcfiles ORDER BY id DESC limit 0,1;''" using assms(1) by (simp add: srcfiles_laws_def)
  from txn_keeps(3) [OF assms(1) k, of "[]" db] assms(4) show "tab db' = tab db" by simp
  have "last_id_law Q tab ''SELECT * FROM srcfiles ORDER BY id DESC limit 0,1;''" using assms(1) by (simp add: srcfiles_laws_def)
  then obtain cols vs where r: "r = Some (cols, if tab db = [] then [] else [DInt (Max (fst ` set (tab db))) # vs])"
    using last_id_txn [OF assms(1) _ assms(4)] by blast
  have m: "0 \<le> Max (fst ` set (tab db)) \<and> Max (fst ` set (tab db)) + room < 2 ^ 31" if "tab db \<noteq> []"
  proof -
    have "Max (fst ` set (tab db)) \<in> fst ` set (tab db)" using that by (intro Max_in) auto
    then show ?thesis using assms(2) by (auto simp: src_table_def)
  qed
  have c: "column_int (first_row r) 0 = (if tab db = [] then 0 else Max (fst ` set (tab db)))"
  proof (cases "tab db = []")
    case False
    then have "to_int32 (Max (fst ` set (tab db))) = Max (fst ` set (tab db))"
      using m assms(3) by (intro to_int32_small) linarith+
    then show ?thesis using False by (simp add: r first_row_def column_int_def column_def)
  qed (simp add: r first_row_def column_int_def column_def)
  show "\<forall>i \<in> fst ` set (tab db). i \<le> column_int (first_row r) 0" using c by auto
  show "0 \<le> column_int (first_row r) 0" "tab db \<noteq> [] \<Longrightarrow> column_int (first_row r) 0 + room < 2 ^ 31"
    using c m by auto
qed

section \<open>Which source files are compiled again\<close>

definition current :: "os \<Rightarrow> proj \<Rightarrow> string \<times> nat \<Rightarrow> string" where
  "current E p s = sys_md5 E (src_file p (src_paths p ! snd s) (fst s))"

definition is_new :: "src_row list \<Rightarrow> string \<times> nat \<Rightarrow> bool" where
  "is_new rows s \<longleftrightarrow> recorded rows (fst s) = None"

definition is_changed :: "os \<Rightarrow> proj \<Rightarrow> src_row list \<Rightarrow> string \<times> nat \<Rightarrow> bool" where
  "is_changed E p rows s \<longleftrightarrow> recorded rows (fst s) \<notin> {None, Some (current E p s)}"

text \<open>A file in a known directory whose name and digest have no NUL and that compiles.\<close>

definition ready :: "os \<Rightarrow> proj \<Rightarrow> string \<times> nat \<Rightarrow> bool" where
  "ready E p s \<longleftrightarrow> snd s < length (src_paths p) \<and> c_str (fst s) = fst s \<and> c_str (current E p s) = current E p s \<and>
     sys_system E (compile_command p s) = (0, 0)"

lemma current_same: "same_search p q \<Longrightarrow> current E q = current E p"
  by (rule ext) (simp add: current_def src_file_def same_search_def)

lemma ready_same:
  assumes "same_search p q"
  shows "ready E q = ready E p"
proof (rule ext)
  fix s
  have "src_paths q = src_paths p" using assms by (simp add: same_search_def)
  then show "ready E q s = ready E p s"
    by (simp add: ready_def current_same [OF assms] compile_command_same [OF assms])
qed

lemma compile_ready:
  assumes "ready E p (s, i)" "searched p"
  obtains q where "compile_srcfile E s (src_paths p ! i) p = Inr q" "searched q" "same_search p q"
    "used_srcfiles q = used_srcfiles p" "commands q = commands p @ [compile_command p (s, i)]"
proof -
  have "\<exists>q. compile_srcfile E s (src_paths p ! i) p = Inr q"
    using assms(1) by (simp add: compile_srcfile_def build_src_def ready_def compile_command_def Let_def)
  then show ?thesis using compile_srcfile_Inr [OF _ assms(2)] that by blast
qed

text \<open>What a run over some source files leaves: the commands it gave, and the digests it recorded.\<close>

definition run_over :: "os \<Rightarrow> ('db \<Rightarrow> src_row list) \<Rightarrow> (string \<times> nat \<Rightarrow> bool) \<Rightarrow> (string \<times> nat) list \<Rightarrow>
    proj \<times> 'db \<Rightarrow> proj \<times> 'db \<Rightarrow> bool" where
  "run_over E tab P ss s t \<longleftrightarrow> searched (fst t) \<and> same_search (fst s) (fst t) \<and> used_srcfiles (fst t) = used_srcfiles (fst s) \<and>
     src_table 0 (tab (snd t)) \<and> commands (fst t) = commands (fst s) @ map (compile_command (fst s)) (filter P ss) \<and>
     recorded (tab (snd t)) = recorded (tab (snd s)) ++ map_of (map (\<lambda>s'. (fst s', current E (fst s) s')) (filter P ss))"

lemma run_over_Nil: "searched p \<Longrightarrow> src_table 0 (tab db) \<Longrightarrow> run_over E tab P [] (p, db) (p, db)"
  by (simp add: run_over_def)

lemma run_over_skip:
  "run_over E tab P ss (p, db) t \<Longrightarrow> \<not> P s \<Longrightarrow> tab db = tab db0 \<Longrightarrow> run_over E tab P (s # ss) (p, db0) t"
  by (simp add: run_over_def)

lemma run_over_step:
  assumes "run_over E tab P ss (q, db) t" "P s" "same_search p q" "used_srcfiles q = used_srcfiles p"
    "commands q = commands p @ [compile_command p s]" "fst s \<notin> fst ` set ss"
    "recorded (tab db) = (recorded (tab db0))(fst s \<mapsto> current E p s)"
  shows "run_over E tab P (s # ss) (p, db0) t"
proof -
  have "fst s \<notin> dom (map_of (map (\<lambda>s'. (fst s', current E p s')) (filter P ss)))"
    using assms(6) by (simp add: dom_map_of_conv_image_fst image_image) (auto simp: image_iff)
  from map_add_upd_left [OF this] show ?thesis
    using assms same_search_trans [OF assms(3)] by (simp add: run_over_def current_same [OF assms(3)] compile_command_same [OF assms(3)])
qed

lemma run_over_cong: "run_over E tab P ss s t \<Longrightarrow> (\<And>s. s \<in> set ss \<Longrightarrow> P s = P' s) \<Longrightarrow> run_over E tab P' ss s t"
  unfolding run_over_def using filter_cong [of ss ss P P'] by simp

lemma src_table_insert:
  assumes "src_table 0 rows" "recorded rows n = None" "0 \<le> i" "i < 2 ^ 31" "c_str m = m"
  shows "src_table 0 (rows @ [(i, n, pa, m)])"
  using assms by (auto simp: src_table_def recorded_None named_Nil)

lemma add_new_insert:
  assumes L: "srcfiles_laws Q tab" and "ready E p (s, i)" "src_table 0 (tab db)" "recorded (tab db) s = None"
    "\<forall>j \<in> fst ` set (tab db). j \<le> last_id" "0 \<le> last_id" "last_id + 1 < 2 ^ 31" "tab db1 = tab db"
  defines "db2 \<equiv> snd (in_txn Q insert_src [DInt (last_id + 1), bind_text s, bind_text (src_paths p ! i), bind_text (current E p (s, i))] db1)"
  shows "src_table 0 (tab db2)" "\<forall>j \<in> fst ` set (tab db2). j \<le> last_id + 1"
    "recorded (tab db2) = (recorded (tab db))(s \<mapsto> current E p (s, i))"
proof -
  have c: "c_str s = s" "c_str (current E p (s, i)) = current E p (s, i)" using assms(2) by (simp_all add: ready_def)
  have "last_id + 1 \<notin> fst ` set (tab db1)" using assms(5,8) by fastforce
  then have t: "tab db2 = tab db @ [(last_id + 1, s, c_str (src_paths p ! i), current E p (s, i))]"
    using insert_src_row [OF L] assms(8) by (simp add: db2_def c)
  show "src_table 0 (tab db2)" unfolding t using assms c by (intro src_table_insert) auto
  show "\<forall>j \<in> fst ` set (tab db2). j \<le> last_id + 1" unfolding t using assms(5) by fastforce
  show "recorded (tab db2) = (recorded (tab db))(s \<mapsto> current E p (s, i))"
    unfolding t using recorded_insert [OF assms(4)] by (intro ext) simp
qed

lemma add_new_run:
  assumes L: "srcfiles_laws Q tab"
  shows "distinct (map fst ss) \<Longrightarrow> \<forall>s \<in> set ss. ready E p s \<Longrightarrow> searched p \<Longrightarrow> src_table 0 (tab db) \<Longrightarrow>
    \<forall>i \<in> fst ` set (tab db). i \<le> last_id \<Longrightarrow> 0 \<le> last_id \<Longrightarrow>
    last_id + int (length (filter (is_new (tab db)) ss)) < 2 ^ 31 \<Longrightarrow>
    \<exists>t. add_new_srcs E Q last_id ss (p, db) = Inr t \<and> run_over E tab (is_new (tab db)) ss (p, db) t"
proof (induction ss arbitrary: p db last_id)
  case Nil
  then show ?case using run_over_Nil by force
next
  case (Cons si ss)
  obtain s i where [simp]: "si = (s, i)" by (cases si)
  have rdy: "ready E p (s, i)" "c_str s = s" "at (src_paths p) i = Inr (src_paths p ! i)"
    using Cons.prems(2) by (simp_all add: ready_def at_def)
  obtain r db1 where r: "in_txn Q ''SELECT count(*) FROM srcfiles WHERE name = ?1'' [DText s] db = (r, db1)" by fastforce
  note cnt = count_src [OF L Cons.prems(4) r]
  show ?case
  proof (cases "recorded (tab db) s = None")
    case False
    have "\<exists>t. add_new_srcs E Q last_id ss (p, db1) = Inr t \<and> run_over E tab (is_new (tab db1)) ss (p, db1) t"
      by (rule Cons.IH) (use Cons.prems False cnt in \<open>auto simp: is_new_def\<close>)
    then obtain t where t: "add_new_srcs E Q last_id ss (p, db1) = Inr t" "run_over E tab (is_new (tab db)) ss (p, db1) t"
      using cnt by auto
    have "run_over E tab (is_new (tab db)) (si # ss) (p, db) t"
      by (rule run_over_skip [OF t(2)]) (use False cnt in \<open>simp_all add: is_new_def\<close>)
    then show ?thesis using t(1) False cnt r rdy by (cases t) auto
  next
    case True
    obtain q where q: "compile_srcfile E s (src_paths p ! i) p = Inr q" "searched q" "same_search p q"
      "used_srcfiles q = used_srcfiles p" "commands q = commands p @ [compile_command p (s, i)]"
      using compile_ready [OF rdy(1) Cons.prems(3)] by blast
    define db2 where "db2 = snd (in_txn Q insert_src [DInt (last_id + 1), bind_text s, bind_text (src_paths p ! i), bind_text (current E p (s, i))] db1)"
    have "is_new (tab db) si" using True by (simp add: is_new_def)
    then have lid: "last_id + 1 + int (length (filter (is_new (tab db)) ss)) < 2 ^ 31"
      using Cons.prems(7) by simp
    note ins = add_new_insert [OF L rdy(1) Cons.prems(4) True Cons.prems(5,6) _ cnt(1), folded db2_def]
    have new: "is_new (tab db2) x = is_new (tab db) x" if "x \<in> set ss" for x
      using ins(3) lid that Cons.prems(1) by (auto simp: is_new_def)
    then have new_eq: "filter (is_new (tab db2)) ss = filter (is_new (tab db)) ss" by (simp cong: filter_cong)
    have "\<exists>t. add_new_srcs E Q (last_id + 1) ss (q, db2) = Inr t \<and> run_over E tab (is_new (tab db2)) ss (q, db2) t"
      by (rule Cons.IH) (use Cons.prems ins lid q(2) ready_same [OF q(3)] in \<open>auto simp: new_eq\<close>)
    then obtain t where t: "add_new_srcs E Q (last_id + 1) ss (q, db2) = Inr t" "run_over E tab (is_new (tab db)) ss (q, db2) t"
      using run_over_cong [of E tab "is_new (tab db2)" ss "(q, db2)" _ "is_new (tab db)"] new by blast
    have "run_over E tab (is_new (tab db)) (si # ss) (p, db) t"
      by (rule run_over_step [OF t(2) _ q(3-5) [folded \<open>si = (s, i)\<close>]])
        (use Cons.prems(1) True ins(3) lid in \<open>auto simp: is_new_def\<close>)
    moreover have "src_file q = src_file p" using q(3) by (intro ext) (simp add: src_file_def same_search_def)
    ultimately show ?thesis using t(1) q(1) r rdy True cnt by (cases t) (simp add: db2_def current_def)
  qed
qed

lemma add_new_libs_run:
  assumes L: "srcfiles_laws Q tab"
  shows "\<exists>db'. add_new_libs Q last_id libs db = Inr db' \<and> tab db' = tab db"
proof (induction libs arbitrary: last_id db)
  case (Cons sl libs)
  obtain s l where [simp]: "sl = (s, l)" by (cases sl)
  let ?q = "''SELECT count(*) FROM libfiles WHERE name = ?1''"
  obtain r db1 where r: "in_txn Q ?q [bind_text l] db = (r, db1)" by fastforce
  have "keeps Q tab ?q" "keeps Q tab insert_lib_content" using L by (simp_all add: srcfiles_laws_def)
  note k = this [THEN txn_keeps(3) [OF L]]
  have "tab db1 = tab db" using k(1) [of "[bind_text l]" db] r by simp
  moreover have "r \<noteq> None" using r L by (auto simp: in_txn_eq srcfiles_laws_def)
  moreover have "tab (snd (in_txn Q insert_lib_content vals db1)) = tab db1" for vals by (rule k(2))
  ultimately show ?case
    using r Cons.IH [of last_id db1]
      Cons.IH [of "last_id + 1" "snd (in_txn Q insert_lib_content [DInt (last_id + 1), bind_text l, DNull] db1)"]
    by simp
qed simp

lemma update_new_libs_run:
  assumes L: "srcfiles_laws Q tab"
  shows "\<exists>db'. update_new_libs Q (p, db) = Inr (p, db') \<and> tab db' = tab db"
proof -
  let ?q = "''SELECT * FROM libfiles ORDER BY id DESC limit 0,1;''"
  obtain r db1 where r: "in_txn Q ?q [] db = (r, db1)" by fastforce
  have "keeps Q tab ?q" using L by (simp add: srcfiles_laws_def)
  then have "tab db1 = tab db" using txn_keeps(3) [OF L, of ?q "[]" db] r by simp
  then show ?thesis using add_new_libs_run [OF L, of "column_int (first_row r) 0" "lib_index p" db1] r
    by (auto simp: update_new_libs_def)
qed

lemma src_table_update:
  "src_table 0 rows \<Longrightarrow> c_str m = m \<Longrightarrow> src_table 0 (map (\<lambda>(i, k, pa, d). (i, k, pa, if k = n then m else d)) rows)"
  by (auto simp: src_table_def comp_def case_prod_unfold)

lemma rebuild_run:
  assumes L: "srcfiles_laws Q tab"
  shows "distinct (map fst ss) \<Longrightarrow> \<forall>s \<in> set ss. ready E p s \<and> recorded (tab db) (fst s) \<noteq> None \<Longrightarrow> searched p \<Longrightarrow>
    src_table 0 (tab db) \<Longrightarrow>
    \<exists>t. rebuild_srcs E Q ss (p, db) = Inr t \<and> run_over E tab (is_changed E p (tab db)) ss (p, db) t"
proof (induction ss arbitrary: p db)
  case Nil
  then show ?case using run_over_Nil by force
next
  case (Cons si ss)
  obtain s i where [simp]: "si = (s, i)" by (cases si)
  have rdy: "ready E p (s, i)" "c_str s = s" "c_str (current E p (s, i)) = current E p (s, i)"
    "at (src_paths p) i = Inr (src_paths p ! i)"
    using Cons.prems(2) by (simp_all add: ready_def at_def)
  obtain m where m: "recorded (tab db) s = Some m" using Cons.prems(2) by auto
  obtain r db1 where r: "in_txn Q ''SELECT md5 FROM srcfiles WHERE name = ?1;'' [DText s] db = (r, db1)" by fastforce
  note sel = md5_src [OF L Cons.prems(4) m r]
  show ?case
  proof (cases "m = current E p (s, i)")
    case True
    have "\<exists>t. rebuild_srcs E Q ss (p, db1) = Inr t \<and> run_over E tab (is_changed E p (tab db1)) ss (p, db1) t"
      by (rule Cons.IH) (use Cons.prems sel in auto)
    then obtain t where t: "rebuild_srcs E Q ss (p, db1) = Inr t" "run_over E tab (is_changed E p (tab db)) ss (p, db1) t"
      using sel(1) by auto
    have "run_over E tab (is_changed E p (tab db)) (si # ss) (p, db) t"
      by (rule run_over_skip [OF t(2)]) (use True m sel(1) in \<open>simp_all add: is_changed_def\<close>)
    then show ?thesis using t(1) True r sel(2) rdy by (cases t) (simp add: current_def)
  next
    case False
    obtain q where q: "compile_srcfile E s (src_paths p ! i) p = Inr q" "searched q" "same_search p q"
      "used_srcfiles q = used_srcfiles p" "commands q = commands p @ [compile_command p (s, i)]"
      using compile_ready [OF rdy(1) Cons.prems(3)] by blast
    define db2 where "db2 = snd (in_txn Q ''UPDATE srcfiles SET md5 = ?1 WHERE name = ?2;'' [bind_text (current E p (s, i)), bind_text s] db1)"
    have t2: "tab db2 = map (\<lambda>(i', k, pa, d). (i', k, pa, if k = s then current E p (s, i) else d)) (tab db)"
      using update_src_row [OF L] sel(1) rdy by (simp add: db2_def)
    have rec: "recorded (tab db2) = (recorded (tab db))(s \<mapsto> current E p (s, i))"
      unfolding t2 using m by (intro ext) (simp add: recorded_update)
    have ch: "is_changed E q (tab db2) x = is_changed E p (tab db) x" if "x \<in> set ss" for x
      using rec that Cons.prems(1) current_same [OF q(3)] by (auto simp: is_changed_def)
    have "\<exists>t. rebuild_srcs E Q ss (q, db2) = Inr t \<and> run_over E tab (is_changed E q (tab db2)) ss (q, db2) t"
      by (rule Cons.IH) (use Cons.prems rec rdy q(2) ready_same [OF q(3)] src_table_update t2 in auto)
    then obtain t where t: "rebuild_srcs E Q ss (q, db2) = Inr t" "run_over E tab (is_changed E p (tab db)) ss (q, db2) t"
      using run_over_cong [of E tab "is_changed E q (tab db2)" ss "(q, db2)" _ "is_changed E p (tab db)"] ch by blast
    have "run_over E tab (is_changed E p (tab db)) (si # ss) (p, db) t"
      by (rule run_over_step [OF t(2) _ q(3-5) [folded \<open>si = (s, i)\<close>]])
        (use Cons.prems(1) False m rec in \<open>auto simp: is_changed_def\<close>)
    then show ?thesis using t(1) q(1) r rdy False sel(2) by (cases t) (simp add: db2_def current_def)
  qed
qed

text \<open>A project whose used files are all ready.\<close>

definition updatable :: "os \<Rightarrow> proj \<Rightarrow> bool" where
  "updatable E p \<longleftrightarrow> searched p \<and> (\<forall>s \<in> set (used_srcfiles p). ready E p s) \<and> int (length (used_srcfiles p)) < 2 ^ 31"

definition missing :: "('db \<Rightarrow> src_row list) \<Rightarrow> proj \<Rightarrow> 'db \<Rightarrow> int" where
  "missing tab p db = int (length (filter (is_new (tab db)) (used_srcfiles p)))"

lemma map_of_pairs:
  assumes "distinct (map fst ss)" "s \<in> set ss"
  shows "map_of (map (\<lambda>s. (fst s, f s)) (filter P ss)) (fst s) = (if P s then Some (f s) else None)"
proof (cases "P s")
  case True
  have "distinct (map fst (map (\<lambda>s. (fst s, f s)) (filter P ss)))"
    using assms(1) by (simp add: comp_def distinct_map_filter)
  then show ?thesis using True assms(2) by (auto intro!: map_of_is_SomeI)
next
  case False
  have "s' = s" if "s' \<in> set ss" "fst s' = fst s" for s'
    using assms that by (auto simp: distinct_map dest: inj_onD)
  then have "fst s \<notin> fst ` set (map (\<lambda>s. (fst s, f s)) (filter P ss))" using False by auto
  then show ?thesis using False by (simp only: map_of_eq_None_iff if_False not_False_eq_True)
qed

lemma update_new_srcs_run:
  assumes L: "srcfiles_laws Q tab" and "updatable E p" "src_table (missing tab p db) (tab db)"
  shows "\<exists>t. update_new_srcs E Q (p, db) = Inr t \<and> run_over E tab (is_new (tab db)) (used_srcfiles p) (p, db) t"
proof -
  let ?m = "missing tab p db"
  have "?m \<le> int (length (used_srcfiles p))" by (simp add: missing_def)
  moreover have "int (length (used_srcfiles p)) < 2 ^ 31" using assms(2) by (simp add: updatable_def)
  ultimately have m: "0 \<le> ?m" "?m < 2 ^ 31" by (simp add: missing_def, linarith)
  have t0: "src_table 0 (tab db)" using assms(3) m(1) by (fastforce simp: src_table_def)
  obtain r db1 where r: "in_txn Q ''SELECT * FROM srcfiles ORDER BY id DESC limit 0,1;'' [] db = (r, db1)" by fastforce
  note l = last_src [OF L assms(3) m(1) r]
  have b: "column_int (first_row r) 0 + ?m < 2 ^ 31"
  proof (cases "tab db = []")
    case True
    then have "column_int (first_row r) 0 = 0"
      using last_id_txn [OF L _ r] L by (auto simp: srcfiles_laws_def first_row_def column_int_def column_def)
    with m show ?thesis by simp
  qed (use l(4) in simp)
  have "\<exists>t. add_new_srcs E Q (column_int (first_row r) 0) (used_srcfiles p) (p, db1) = Inr t \<and>
      run_over E tab (is_new (tab db1)) (used_srcfiles p) (p, db1) t"
    by (rule add_new_run [OF L]) (use assms(2) t0 l b in \<open>auto simp: updatable_def searched_def std_map_def missing_def\<close>)
  then show ?thesis using r l(1) by (auto simp: update_new_srcs_def run_over_def)
qed

lemma update_sources_run:
  assumes L: "srcfiles_laws Q tab" and "updatable E p" "src_table (missing tab p db) (tab db)"
  shows "\<exists>q db'. update_sources E Q (p, db) = Inr (q, db') \<and> searched q \<and> same_search p q \<and>
    commands q = commands p @ map (compile_command p)
      (filter (is_new (tab db)) (used_srcfiles p) @ filter (is_changed E p (tab db)) (used_srcfiles p)) \<and>
    src_table 0 (tab db') \<and> (\<forall>s \<in> set (used_srcfiles p). recorded (tab db') (fst s) = Some (current E p s))"
proof -
  have d: "distinct (map fst (used_srcfiles p))" using assms(2) by (simp add: updatable_def searched_def std_map_def)
  obtain p1 db1 where u1: "update_new_srcs E Q (p, db) = Inr (p1, db1)" and
    r1: "run_over E tab (is_new (tab db)) (used_srcfiles p) (p, db) (p1, db1)"
    using update_new_srcs_run [OF assms] by auto
  have h1: "searched p1" "same_search p p1" "used_srcfiles p1 = used_srcfiles p" "src_table 0 (tab db1)"
    "commands p1 = commands p @ map (compile_command p) (filter (is_new (tab db)) (used_srcfiles p))"
    "recorded (tab db1) = recorded (tab db) ++ map_of (map (\<lambda>s. (fst s, current E p s)) (filter (is_new (tab db)) (used_srcfiles p)))"
    using r1 by (simp_all add: run_over_def)
  have rec1: "recorded (tab db1) (fst s) = (if is_new (tab db) s then Some (current E p s) else recorded (tab db) (fst s))"
    if "s \<in> set (used_srcfiles p)" for s
    using map_of_pairs [OF d that, where f = "current E p"] by (simp add: h1(6) map_add_def)
  obtain db2 where u2: "update_new_libs Q (p1, db1) = Inr (p1, db2)" "tab db2 = tab db1"
    using update_new_libs_run [OF L] by blast
  have "\<exists>t. rebuild_srcs E Q (used_srcfiles p) (p1, db2) = Inr t \<and>
      run_over E tab (is_changed E p1 (tab db2)) (used_srcfiles p) (p1, db2) t"
    by (rule rebuild_run [OF L d])
      (use assms(2) h1(1,4) rec1 u2(2) ready_same [OF h1(2)] in \<open>auto simp: updatable_def is_new_def\<close>)
  then obtain q db' where u3: "rebuild_srcs E Q (used_srcfiles p) (p1, db2) = Inr (q, db')" and
    r3: "run_over E tab (is_changed E p1 (tab db2)) (used_srcfiles p) (p1, db2) (q, db')" by auto
  have ch: "is_changed E p1 (tab db2) s = is_changed E p (tab db) s" if "s \<in> set (used_srcfiles p)" for s
    using rec1 [OF that] u2(2) current_same [OF h1(2), of E] by (auto simp: is_changed_def is_new_def)
  have r4: "run_over E tab (is_changed E p (tab db)) (used_srcfiles p) (p1, db2) (q, db')"
    using run_over_cong [OF r3, where P' = "is_changed E p (tab db)"] ch by simp
  have "recorded (tab db') (fst s) = Some (current E p s)" if "s \<in> set (used_srcfiles p)" for s
    using r4 rec1 [OF that] u2(2) current_same [OF h1(2), of E] map_of_pairs [OF d that, where f = "current E p"]
    by (auto simp: run_over_def map_add_def is_changed_def is_new_def split: option.splits if_splits)
  then show ?thesis
    using u1 u2 u3 r4 h1 compile_command_same [OF h1(2)] same_search_trans [OF h1(2)]
    by (auto simp: update_sources_def run_over_def)
qed

section \<open>An SQLite for two statements\<close>

text \<open>A database that is the table \<open>srcfiles\<close> alone, to see that the laws can hold.\<close>

fun toy_insert :: "dbval list \<Rightarrow> src_row list \<Rightarrow> src_row list" where
  "toy_insert [DInt i, DText n, DText pa, DText m] db = db @ [(i, n, pa, m)]"
| "toy_insert _ db = db"

fun toy_update :: "dbval list \<Rightarrow> src_row list \<Rightarrow> src_row list" where
  "toy_update [DText m, DText n] db = map (\<lambda>(i, k, pa, d). (i, k, pa, if k = n then m else d)) db"
| "toy_update _ db = db"

fun toy_named :: "dbval list \<Rightarrow> src_row list \<Rightarrow> src_row list" where
  "toy_named [DText n] db = named n db"
| "toy_named _ db = []"

definition toy_run :: "string \<Rightarrow> dbval list \<Rightarrow> src_row list \<Rightarrow> answer \<times> src_row list" where
  "toy_run sql vals db =
     (if sql = insert_src then (Some ([], []), toy_insert vals db)
      else if sql = ''UPDATE srcfiles SET md5 = ?1 WHERE name = ?2;'' then (Some ([], []), toy_update vals db)
      else if sql = ''SELECT count(*) FROM srcfiles WHERE name = ?1''
        then (Some ([''count''], [[DInt (int (length (toy_named vals db)))]]), db)
      else if sql = ''SELECT md5 FROM srcfiles WHERE name = ?1;''
        then (Some ([''md5''], map (\<lambda>r. [DText (snd (snd (snd r)))]) (toy_named vals db)), db)
      else if sql = ''SELECT * FROM srcfiles ORDER BY id DESC limit 0,1;''
        then (Some ([''id''], if db = [] then [] else [[DInt (Max (fst ` set db))]]), db)
      else (Some ([], []), db))"

definition toy_sqlite :: "src_row list sqlite" where
  "toy_sqlite = \<lparr>run_sql = toy_run, errmsg = \<lambda>_. [], junk_size = 0\<rparr>"

lemma insert_src_text: "insert_src = ''INSERT INTO srcfiles(id,name,path,md5) VALUES(?1,?2,?3,?4);''"
  by code_simp

lemma insert_lib_content_text: "insert_lib_content = ''INSERT INTO libfiles(id,name,content) VALUES(?1,?2,?3);''"
  by code_simp

lemma toy_laws: "srcfiles_laws toy_sqlite id"
  by (simp add: srcfiles_laws_def keeps_def answers_def last_id_law_def toy_sqlite_def toy_run_def
      insert_src_text insert_lib_content_text)

definition two_files :: proj where
  "two_files = empty_proj\<lparr>proj_path := ''d/'', src_paths := [''s''], used_srcfiles := [(''a.cpp'', 0), (''b.cpp'', 0)], lib_path := ''l''\<rparr>"

section \<open>Updates\<close>

text \<open>
  C29. An update compiles exactly the used source files that are not recorded yet and then those whose digest is not
  the recorded one, each once, and leaves every used file recorded with its current digest. Doing it again compiles
  nothing.
\<close>

theorem update_recompiles:
  assumes "srcfiles_laws Q tab" "updatable E p" "src_table (missing tab p db) (tab db)"
  shows "\<exists>q db'. update_sources E Q (p, db) = Inr (q, db') \<and>
    commands q = commands p @ map (compile_command p)
      (filter (is_new (tab db)) (used_srcfiles p) @ filter (is_changed E p (tab db)) (used_srcfiles p)) \<and>
    (\<forall>s \<in> set (used_srcfiles p). recorded (tab db') (fst s) = Some (current E p s)) \<and>
    (\<exists>q' db''. update_sources E Q (p, db') = Inr (q', db'') \<and> commands q' = commands p)"
proof -
  obtain q db' where u: "update_sources E Q (p, db) = Inr (q, db')" "src_table 0 (tab db')"
    "commands q = commands p @ map (compile_command p)
      (filter (is_new (tab db)) (used_srcfiles p) @ filter (is_changed E p (tab db)) (used_srcfiles p))"
    "\<forall>s \<in> set (used_srcfiles p). recorded (tab db') (fst s) = Some (current E p s)"
    using update_sources_run [OF assms] by blast
  have n: "filter (is_new (tab db')) (used_srcfiles p) = []" "filter (is_changed E p (tab db')) (used_srcfiles p) = []"
    using u(4) by (auto simp: filter_empty_conv is_new_def is_changed_def)
  then have "missing tab p db' = 0" by (simp add: missing_def)
  with u(2) obtain q' db'' where "update_sources E Q (p, db') = Inr (q', db'')" "commands q' = commands p"
    using update_sources_run [OF assms(1,2), of db'] n by auto
  with u show ?thesis by blast
qed

theorem update_recompiles_witness:
  "\<exists>q db'. update_sources sample_os toy_sqlite (two_files, [(1, ''a.cpp'', ''s'', ''old'')]) = Inr (q, db') \<and>
     commands q = map (compile_command two_files) [(''b.cpp'', 0), (''a.cpp'', 0)] \<and>
     recorded db' ''a.cpp'' = Some ''d/s/a.cpp''"
proof -
  let ?db = "[(1, ''a.cpp'', ''s'', ''old'')] :: src_row list"
  have "updatable sample_os two_files"
    by (simp add: updatable_def two_files_def empty_proj_def searched_def std_map_def ready_def current_def src_file_def
        sample_os_def c_str_def less_list_code less_char_def)
  moreover have "src_table (missing id two_files (id ?db)) (id ?db)" by code_simp
  moreover have "filter (is_new ?db) (used_srcfiles two_files) @ filter (is_changed sample_os two_files ?db) (used_srcfiles two_files) =
      [(''b.cpp'', 0), (''a.cpp'', 0)]" "commands two_files = []" "(''a.cpp'', 0) \<in> set (used_srcfiles two_files)"
      "current sample_os two_files (''a.cpp'', 0) = ''d/s/a.cpp''"
    by code_simp+
  ultimately show ?thesis using update_recompiles [OF toy_laws, of sample_os two_files ?db] by fastforce
qed

text \<open>
  Only compiled files get an entry in \<open>lib_index\<close>. So when the description of an unchanged, recorded source file
  names one more entry function, the update looks its library up in an index that does not have it and dereferences
  the end of the map.
\<close>

theorem update_new_function_unsafe:
  assumes "map_of (funcs_src c) f = Some src" "map_of (lib_index p) src = None"
    "in_txn Q ''SELECT count(*) FROM functions WHERE name = ?1;'' [bind_text f] db = (r, db')" "r \<noteq> None"
    "column_int (first_row r) 0 = 0"
  shows "add_new_funcs Q p ((f, c) # fs) db = Inl NullDeref"
  using assms by (auto simp: add_func_info_def write_func_def the_second_def split: prod.split)

theorem update_new_function_unsafe_witness:
  "add_new_funcs toy_sqlite two_files [(''g'', (new_cpt ''p'')\<lparr>funcs_src := [(''g'', ''a.cpp'')]\<rparr>)] [] = Inl NullDeref"
proof -
  have "in_txn toy_sqlite ''SELECT count(*) FROM functions WHERE name = ?1;'' [bind_text ''g''] [] = (Some ([], []), [])"
    by code_simp
  then show ?thesis
    by (rule update_new_function_unsafe [rotated 2, where src = "''a.cpp''"])
      (simp_all add: two_files_def empty_proj_def first_row_def column_int_def column_def)
qed

end
