(* ===== verification/Session.thy ===== *)
theory Session
  imports Sockets Sql EndToEnd
begin

text \<open>
  The TCP session of a client. On the server: \<open>clientWaitDeamon\<close>, \<open>clientListener\<close> and \<open>clientChecker\<close> of
  \<^theory_text>\<open>src/src/server.cpp\<close>, started by a registration or a login. On the client: \<open>connectionDeamon\<close> and the
  callbacks of \<^theory_text>\<open>src/src/model.cpp\<close>, and the shared memory between the daemon and the shell of
  \<^theory_text>\<open>src/src/controller.cpp\<close>.

  Parameters: the answers of the sockets, MD5, SQLite, and the JSON documents: \<open>js_feedback\<close> writes the feedback to a
  registration, \<open>js_read\<close> finds status, client and password in a document, \<open>js_status\<close> the status alone, \<open>js_pwd\<close> the
  member \<open>pwdmd5\<close>; a missing member is a failed assertion, a fault.
\<close>

record json =
  js_feedback :: "int \<Rightarrow> int \<Rightarrow> string"
  js_read :: "string \<Rightarrow> (string \<times> int \<times> int) res"
  js_status :: "string \<Rightarrow> string res"
  js_pwd :: "string \<Rightarrow> int res"

section \<open>The server's side\<close>

text \<open>
  \<open>tryConnection\<close> fails only for the text \<^theory_text>\<open>fail to connect\<close>; after any other exception it returns true with a
  pointer that is still null.
\<close>

datatype connect_answer = Connected | Refused | NoSocket

fun try_connections :: "nat \<Rightarrow> nat \<Rightarrow> (nat \<Rightarrow> connect_answer) \<Rightarrow> connect_answer option" where
  "try_connections 0 i ans = None"
| "try_connections (Suc n) i ans = (if ans i = Refused then try_connections n (i + 1) ans else Some (ans i))"

definition resFromClient :: "recv_result \<Rightarrow> bool res" where
  "resFromClient r =
     (case r of
        Received (b # bs) \<Rightarrow> bind_res (cut (b # bs) 0 4) (\<lambda>t. Inr (t = tag ''DGET''))
      | _ \<Rightarrow> Inl OutOfBounds)"

definition connection_message :: "string \<Rightarrow> byte list res" where
  "connection_message type = bind_res (BuildSmallRawData (new_raw_data 0 []) type) (\<lambda>rd. Inr (rmsg rd))"

definition feedback_message :: "(byte list \<Rightarrow> string) \<Rightarrow> json \<Rightarrow> u64 \<Rightarrow> client_register \<Rightarrow> (byte list \<times> aes_key256) res" where
  "feedback_message md5 J rnd pclr =
     (let send_data = js_feedback J (sint (c_id pclr)) (sint (c_passwd pclr)) in
      bind_res (InitNew rnd (c_id pclr) (c_addr pclr) ''JRES'' new_post) (\<lambda>ncryp.
      bind_res (SetPostBuff (bytes_of send_data) (length send_data) ncryp) (\<lambda>ncryp.
      bind_res (Post2SignedRawData md5 ncryp (c_key pclr) (new_raw_data 0 [])) (\<lambda>(rd, _, k). Inr (rmsg rd, k)))))"

text \<open>The lease: seconds waited, and whether the connection was lost before it ended.\<close>

fun wait_loop :: "nat \<Rightarrow> nat \<Rightarrow> (nat \<Rightarrow> bool) \<Rightarrow> nat \<times> bool" where
  "wait_loop 0 i connected = (i, False)"
| "wait_loop (Suc click) i connected = (if \<not> connected i then (i + 1, True) else wait_loop click (i + 1) connected)"

text \<open>
  What a run of \<open>clientWaitDeamon\<close> did: the values written to the status of the registration, the messages of the
  first connection, the seconds of service, and whether the record of the client was deleted while the two service
  threads, which point to it, go on.
\<close>

record wait_result =
  statuses :: "int list"
  messages :: "byte list list"
  served :: "nat option"
  dangling :: bool

definition clientWaitDeamon :: "(byte list \<Rightarrow> string) \<Rightarrow> json \<Rightarrow> u64 \<Rightarrow> client_register \<Rightarrow>
    (nat \<Rightarrow> connect_answer) \<Rightarrow> recv_result \<Rightarrow> (nat \<Rightarrow> bool) \<Rightarrow> wait_result res" where
  "clientWaitDeamon md5 J rnd pclr connects reply connected =
     (case try_connections 8 0 connects of
        None \<Rightarrow> Inr \<lparr>statuses = [0], messages = [], served = None, dangling = False\<rparr>
      | Some c \<Rightarrow>
          bind_res (feedback_message md5 J rnd pclr) (\<lambda>(msg, _).
          bind_res (connection_message ''SCNT'') (\<lambda>scnt.
          if c \<noteq> Connected then Inl NullDeref
          else bind_res (resFromClient reply) (\<lambda>ok.
            if \<not> ok then Inr \<lparr>statuses = [], messages = [scnt], served = None, dangling = False\<rparr>
            else let (secs, lost) = wait_loop (unat (c_click pclr)) 0 connected
              in Inr \<lparr>statuses = 1 # (if lost then [0] else []), messages = [scnt, msg], served = Some secs,
                      dangling = \<not> lost\<rparr>))))"

datatype listen_event = JsonPost bool | Ping | NoEffect

definition listen_message :: "(byte list \<Rightarrow> string) \<Rightarrow> json \<Rightarrow> client_register \<Rightarrow> byte list \<Rightarrow>
    (listen_event \<times> client_register) res" where
  "listen_message md5 J pclr buff =
     bind_res (CheckRawMsg buff) (\<lambda>ok.
       if \<not> ok then Inr (NoEffect, pclr)
       else bind_res (ProcessSignedRawMsg buff (new_raw_data 0 [])) (\<lambda>nrwd.
         if rinfo nrwd = bytes_of ''ECYP'' then
           bind_res (SignedRawData2Post md5 nrwd new_post (c_key pclr)) (\<lambda>(post, k).
           let pclr = pclr\<lparr>c_key := k\<rparr> in
           if e_type post = bytes_of ''JIFO'' then
             bind_res (js_pwd J (c_str (chars_of (e_buff post)))) (\<lambda>pwd. Inr (JsonPost (word_of_int pwd = c_passwd pclr), pclr))
           else Inr (NoEffect, pclr))
         else Inr (if rinfo nrwd = bytes_of ''PING'' then Ping else NoEffect, pclr)))"

text \<open>
  The loop of \<open>clientListener\<close> over what its socket answers: the events and whether the connection counts as lost.
  A connection that the client closed answers with an empty result, which is not taken for a loss.
\<close>

fun listen_loop :: "(byte list \<Rightarrow> string) \<Rightarrow> json \<Rightarrow> client_register \<Rightarrow> recv_result list \<Rightarrow>
    (listen_event list \<times> bool) res" where
  "listen_loop md5 J pclr [] = Inr ([], False)"
| "listen_loop md5 J pclr (RecvError again # rs) = Inr ([], True)"
| "listen_loop md5 J pclr (Received [] # rs) = listen_loop md5 J pclr rs"
| "listen_loop md5 J pclr (Received (b # bs) # rs) =
     bind_res (listen_message md5 J pclr (b # bs)) (\<lambda>(e, pclr).
     bind_res (listen_loop md5 J pclr rs) (\<lambda>(es, lost). Inr (e # es, lost)))"

text \<open>\<open>clientChecker\<close>: the type of its connection, then a beat every second until one cannot be sent.\<close>

fun beat_loop :: "byte list \<Rightarrow> int list \<Rightarrow> byte list list \<times> bool" where
  "beat_loop beat [] = ([], False)"
| "beat_loop beat (r # rs) = (if r < 0 then ([beat], True) else (let (bs, lost) = beat_loop beat rs in (beat # bs, lost)))"

definition clientChecker :: "int list \<Rightarrow> (byte list list \<times> bool) res" where
  "clientChecker sends =
     bind_res (BuildBeatsRawData (new_raw_data 0 [])) (\<lambda>beat.
     bind_res (connection_message ''LCNT'') (\<lambda>lcnt.
       let (bs, lost) = beat_loop (rmsg beat) sends in Inr (lcnt # bs, lost)))"

section \<open>The client's side\<close>

text \<open>\<open>buff\<close> is the memory that the daemon shares with the shell.\<close>

record 'db terminal =
  t_db :: 'db
  t_buff :: "byte list"
  if_beat :: bool
  if_listen :: bool

definition poke :: "nat \<Rightarrow> byte list \<Rightarrow> byte list \<Rightarrow> byte list res" where
  "poke off xs buf = (if off + length xs \<le> length buf then Inr (take off buf @ xs @ drop (off + length xs) buf) else Inl OutOfBounds)"

datatype connection = LongIn | ShortIn | LongOut

text \<open>What the first message of a connection says; \<open>None\<close> ends the thread.\<close>

definition connection_kind :: "byte list \<Rightarrow> connection option res" where
  "connection_kind buff =
     bind_res (CheckRawMsg buff) (\<lambda>ok.
       if \<not> ok then Inr None
       else bind_res (ProcessSignedRawMsg buff (new_raw_data 0 [])) (\<lambda>rd.
         Inr (if rinfo rd = bytes_of ''LCNT'' then Some LongIn
              else if rinfo rd = bytes_of ''SCNT'' then Some ShortIn
              else if rinfo rd = bytes_of ''CNTL'' then Some LongOut else None)))"

text \<open>A received block of which \<open>n\<close> bytes are used; bytes that were never written are \<open>junk\<close>.\<close>

definition block_bytes :: "byte \<Rightarrow> block option \<Rightarrow> nat \<Rightarrow> byte list res" where
  "block_bytes junk p n =
     (case p of None \<Rightarrow> Inl NullDeref
      | Some b \<Rightarrow> if length b < n then Inl OutOfBounds else Inr (map (case_option junk id) (take n b)))"

text \<open>The first message of \<open>connectionDeamon\<close>: the kind, the answers sent, and what the socket still has to say.\<close>

definition open_connection :: "byte \<Rightarrow> byte list \<Rightarrow> recv_result list \<Rightarrow>
    (connection option \<times> byte list list \<times> recv_result list) res" where
  "open_connection junk buf rs =
     bind_res (tcp_RecvRAW_SM rs buf) (\<lambda>(p, size, sent, rest).
     bind_res (block_bytes junk p size) (\<lambda>buff.
     bind_res (connection_kind buff) (\<lambda>kind.
       Inr (kind, sent @ (if kind = Some ShortIn then [tag ''DGET''] else []), rest))))"

definition update_feedback :: string where
  "update_feedback = ''update client_register_info set client_id = ?1,passwd = ?2,status = 1 where rowid = 1;''"

text \<open>A message of a connection that is open. The branch for \<open>JCMD\<close> is inside the one for \<open>ECYP\<close> and never taken.\<close>

definition connection_post :: "(byte list \<Rightarrow> string) \<Rightarrow> json \<Rightarrow> 'db sqlite \<Rightarrow> aes_key256 \<Rightarrow> byte list \<Rightarrow>
    'db terminal \<Rightarrow> ('db terminal \<times> aes_key256) res" where
  "connection_post md5 J Q k buff t =
     bind_res (CheckRawMsg buff) (\<lambda>ok.
       if \<not> ok then Inr (t, k)
       else bind_res (ProcessSignedRawMsg buff (new_raw_data 0 [])) (\<lambda>rd.
         if rinfo rd = bytes_of ''ECYP'' then
           bind_res (Rawdata2Packet (new_packet 0 zero_sockaddr) rd) (\<lambda>pkt.
           bind_res (Packet2Post md5 pkt new_post k) (\<lambda>(post, k).
           if e_type post = bytes_of ''JRES'' then
             bind_res (js_read J (c_str (chars_of (e_buff post)))) (\<lambda>(status, cid, pw).
             if status = ''ok'' then
               bind_res (poke 0 (bytes_of ''D_OK'') (t_buff t)) (\<lambda>buf.
               Inr (t\<lparr>t_db := snd (run_sql Q update_feedback
                        [DInt (sint (word_of_int cid :: u64)), DInt (sint (word_of_int pw :: u64))] (t_db t)),
                      t_buff := buf\<rparr>, k))
             else Inr (t, k))
           else Inr (t, k)))
         else Inr (if rinfo rd = bytes_of ''BEAT'' then t\<lparr>if_beat := True\<rparr> else t, k)))"

definition connection_opened :: "connection option \<Rightarrow> 'db terminal \<Rightarrow> 'db terminal" where
  "connection_opened kind t = (if kind = Some LongOut then t\<lparr>if_listen := True\<rparr> else t)"

text \<open>A short connection delivers one message, joined from the pieces until its end.\<close>

definition short_connection :: "(byte list \<Rightarrow> string) \<Rightarrow> json \<Rightarrow> 'db sqlite \<Rightarrow> aes_key256 \<Rightarrow> byte \<Rightarrow> recv_result list \<Rightarrow>
    'db terminal \<Rightarrow> ('db terminal \<times> aes_key256) res" where
  "short_connection md5 J Q k junk rs t =
     (let (p, size) = tcp_RecvRAW rs in
      if size = 0 then Inr (t, k)
      else bind_res (block_bytes junk p size) (\<lambda>buff. connection_post md5 J Q k buff t))"

text \<open>A connection for sending: what the shell left in the shared memory goes to the server.\<close>

definition shared_message :: "byte list \<Rightarrow> byte list option res" where
  "shared_message buf =
     bind_res (cut buf 4 4) (\<lambda>sz.
       let nsrwd_size = le_dec sz in
       bind_res (cut buf (12 + nsrwd_size) 4) (\<lambda>mark.
         if mark = bytes_of ''TADS'' then
           (if BUFSIZ < nsrwd_size then Inl OutOfBounds
            else bind_res (cut buf 12 nsrwd_size) (\<lambda>d. Inr (Some d)))
         else Inr None))"

definition send_shared :: "byte list \<Rightarrow> (byte list option \<times> byte list) res" where
  "send_shared buf =
     bind_res (cut buf 0 4) (\<lambda>sig.
       if sig \<noteq> bytes_of ''SDAT'' then Inr (None, buf)
       else bind_res (shared_message buf) (\<lambda>sent.
            bind_res (poke 0 (replicate 4 0) buf) (\<lambda>buf. Inr (sent, buf))))"

text \<open>The command \<open>ping\<close> of the shell.\<close>

definition ping_command :: "byte list \<Rightarrow> byte list res" where
  "ping_command buf =
     bind_res (cut buf 0 4) (\<lambda>sig.
       if sig = bytes_of ''WAIT'' then Inr buf
       else bind_res (BuildSmallRawData (new_raw_data 0 []) ''PING'') (\<lambda>nrwd.
         let n = length (rmsg nrwd) in
         bind_res (poke 0 (bytes_of ''WAIT'') buf) (\<lambda>buf.
         bind_res (poke 4 (le_enc 8 n) buf) (\<lambda>buf.
         bind_res (poke 12 (rmsg nrwd) buf) (\<lambda>buf.
         bind_res (poke (12 + n) (bytes_of ''TADS'') buf) (\<lambda>buf.
           poke 0 (bytes_of ''SDAT'') buf))))))"

section \<open>Callbacks\<close>

text \<open>
  The callbacks set \<open>if_wait\<close>: 0 for success, -1 for a failure. A missing respond is a timeout. \<open>key_size\<close> is the
  size of a public key, which \<open>getSQEPublicKey\<close> reads from the buffer of the respond whatever its size.
\<close>

definition getSQEPublicKey :: "'db sqlite \<Rightarrow> nat \<Rightarrow> respond option \<Rightarrow> 'db \<Rightarrow> (int \<times> 'db) res" where
  "getSQEPublicKey Q key_size pres db =
     (case pres of None \<Rightarrow> Inr (- 1, db)
      | Some r \<Rightarrow> bind_res (cut (s_buff r) 0 key_size) (\<lambda>key.
          Inr (0, snd (in_txn Q ''update client_info set msqes_rsa_public = ?1 where rowid = 1;'' [DBlob (chars_of key)] db))))"

definition loginSQECallback :: "json \<Rightarrow> respond option \<Rightarrow> int res" where
  "loginSQECallback J pres =
     (case pres of None \<Rightarrow> Inr (- 1)
      | Some r \<Rightarrow> bind_res (js_status J (c_str (chars_of (s_buff r)))) (\<lambda>status. Inr (if status = ''ok'' then 0 else - 1)))"

definition registerSQECallback :: "json \<Rightarrow> 'db sqlite \<Rightarrow> respond option \<Rightarrow> 'db \<Rightarrow> (int \<times> 'db) res" where
  "registerSQECallback J Q pres db =
     (case pres of None \<Rightarrow> Inr (- 1, db)
      | Some r \<Rightarrow> bind_res (js_status J (c_str (chars_of (s_buff r)))) (\<lambda>status.
          if status = ''ok'' then
            (let cols = [(''client_id'', ''INT''), (''name'', ''TEXT''), (''tag'', ''TEXT''), (''key'', ''NONE''), (''passwd'', ''INT''), (''status'', ''INT'')]
             in case table_create Q ''client_register_info'' cols db of
               Inr db \<Rightarrow> Inr (0, db)
             | Inl e \<Rightarrow> Inr (0, snd (in_txn Q ''delete from client_register_info;'' []
                 (create_failed Q ''client_register_info'' cols db))))
          else Inr (- 1, db)))"

text \<open>
  \<open>gets_s\<close>: the characters before a newline, at most \<open>size - 1\<close> of them, and the rest of the input. The character
  that ends the loop is gone, also when it is not a newline; the end of the input reads as the character 255.
\<close>

fun gets_loop :: "nat \<Rightarrow> string \<Rightarrow> string \<times> string" where
  "gets_loop room [] = (replicate room (char_of (255 :: nat)), [])"
| "gets_loop 0 (c # cs) = ([], cs)"
| "gets_loop (Suc room) (c # cs) =
     (if code c = 10 then ([], cs) else (let (line, rest) = gets_loop room cs in (c # line, rest)))"

definition gets_s :: "nat \<Rightarrow> string \<Rightarrow> string \<times> string" where
  "gets_s size' input = gets_loop (size' - 1) input"

definition config_search :: "string list \<Rightarrow> string \<Rightarrow> bool" where
  "config_search configs tfg \<longleftrightarrow> tfg \<in> set configs"

section \<open>The feedback to a registration\<close>

lemma raw_pieces_joined:
  "[] \<notin> set ps \<Longrightarrow> raw_pieces (map Received ps @ [Received []]) (Some (map Some acc)) (length acc) =
     (Some (map Some (acc @ concat ps)), length (acc @ concat ps))"
proof (induction ps arbitrary: acc)
  case (Cons p ps)
  then obtain b bs where p: "p = b # bs" by (cases p) auto
  have "write_at (length acc) p (realloc (length acc + length p) (map Some acc)) = map Some (acc @ p)"
    by (simp add: write_at_def realloc_def)
  then show ?case using Cons.IH [of "acc @ p"] Cons.prems by (simp add: p)
qed simp

lemma RecvRAW_joined:
  assumes "[] \<notin> set ps" "ps \<noteq> []"
  shows "tcp_RecvRAW (map Received ps @ [Received []]) = (Some (map Some (concat ps)), length (concat ps))"
proof -
  obtain p qs where ps: "ps = p # qs" using assms(2) by (cases ps) auto
  then obtain b bs where p: "p = b # bs" using assms(1) by (cases p) auto
  show ?thesis using raw_pieces_joined [of qs p] assms(1) by (simp add: tcp_RecvRAW_def ps p)
qed

lemma block_bytes_whole: "block_bytes junk (Some (map Some bs)) (length bs) = Inr bs"
  by (simp add: block_bytes_def comp_def)

lemma SignedRawData2Post_packet:
  "rinfo rd = bytes_of ''ECYP'' \<Longrightarrow> SignedRawData2Post md5 rd pst k = Inr r \<Longrightarrow>
   \<exists>pkt. Rawdata2Packet (new_packet 0 zero_sockaddr) rd = Inr pkt \<and> Packet2Post md5 pkt pst k = Inr r"
  by (auto simp: SignedRawData2Post_def)

lemma small_message:
  assumes "3 \<le> length info"
  shows "\<exists>sd rd1. BuildSmallRawData rd info = Inr sd \<and> rmsg sd = bytes_of ''NETC'' @ info_tag info @ bytes_of ''CTEN'' \<and>
    CheckRawMsg (rmsg sd) = Inr True \<and> ProcessSignedRawMsg (rmsg sd) rd0 = Inr rd1 \<and> rinfo rd1 = info_tag info"
proof -
  obtain sd where sd: "SignedRawdata (setData [] rd) info = Inr sd" "CheckRawMsg (rmsg sd) = Inr True"
    "\<exists>rd1. ProcessSignedRawMsg (rmsg sd) rd0 = Inr rd1 \<and> rinfo rd1 = info_tag info"
    using signed_round_trip [OF assms, of "setData [] rd" rd0] by auto
  have "rmsg sd = bytes_of ''NETC'' @ info_tag info @ bytes_of ''CTEN''"
    using SignedRawdata_msg [OF sd(1)] sd(1) assms
    by (auto simp: SignedRawdata_def Let_def setData_def info_tag_def cut_def bytes_of_def)
  with sd show ?thesis by (auto simp: BuildSmallRawData_def)
qed

lemma ProcessSigned_info: "SignedRawdata rd info = Inr sd \<Longrightarrow> 3 \<le> length info \<Longrightarrow> ProcessSignedRawMsg (rmsg sd) rd' = Inr rd1 \<Longrightarrow> rinfo rd1 = info_tag info"
  using signed_round_trip [of info rd rd'] by auto

lemma c_str_padded:
  assumes "c_str s = s"
  shows "c_str (chars_of (padded (bytes_of s))) = s"
proof -
  have "char_of (0 :: nat) = CHR 0x00" by (simp add: char_of_def)
  then have "chars_of (bytes_of s @ replicate n 0) = s @ replicate n (CHR 0x00)" for n
    using chars_of_bytes_of [of s] by (simp add: chars_of_def)
  moreover have "c_str (s @ replicate n (CHR 0x00)) = s" for n
    using assms by (cases n) (auto simp: c_str_def takeWhile_append takeWhile_eq_all_conv)
  ultimately show ?thesis by (simp add: padded_def)
qed

lemma feedback_message_read:
  assumes "\<forall>b. length (md5 b) = 32" "wf_sockaddr (address (c_addr pclr))" "key k = key (c_key pclr)"
    and "js_feedback J (sint (c_id pclr)) (sint (c_passwd pclr)) = s" "c_str s = s" "length s \<le> 8000"
  shows "\<exists>msg k' rd1 pkt pst2 k2. feedback_message md5 J rnd pclr = Inr (msg, k') \<and> CheckRawMsg msg = Inr True \<and>
    ProcessSignedRawMsg msg (new_raw_data 0 []) = Inr rd1 \<and> rinfo rd1 = bytes_of ''ECYP'' \<and>
    Rawdata2Packet (new_packet 0 zero_sockaddr) rd1 = Inr pkt \<and> Packet2Post md5 pkt new_post k = Inr (pst2, k2) \<and>
    e_type pst2 = bytes_of ''JRES'' \<and> c_str (chars_of (e_buff pst2)) = s"
proof -
  let ?pst = "new_post\<lparr>client_id := c_id pclr, e_addr := c_addr pclr, e_type := bytes_of ''JRES'', p_id := rnd, e_buff := bytes_of s\<rparr>"
  have "post_ok md5 ?pst" using assms by (simp add: post_ok_def)
  from encrypted_post_round [OF this, of k "c_key pclr" "new_raw_data 0 []" "new_raw_data 0 []" new_post] assms(3,6)
  obtain rd pst1 k1 rd1 pst2 k2 where r: "Post2SignedRawData md5 ?pst (c_key pclr) (new_raw_data 0 []) = Inr (rd, pst1, k1)"
    "CheckRawMsg (rmsg rd) = Inr True" "ProcessSignedRawMsg (rmsg rd) (new_raw_data 0 []) = Inr rd1"
    "SignedRawData2Post md5 rd1 new_post k = Inr (pst2, k2)" "e_type pst2 = bytes_of ''JRES''"
    "e_buff pst2 = padded (bytes_of s)" by auto
  have "rinfo rd1 = info_tag ''ECYP''"
    using r(1,3) by (auto simp: Post2SignedRawData_def dest!: ProcessSigned_info)
  then have info: "rinfo rd1 = bytes_of ''ECYP''" by (simp add: info_tag_def bytes_of_def)
  have "InitNew rnd (c_id pclr) (c_addr pclr) ''JRES'' new_post =
      Inr (new_post\<lparr>client_id := c_id pclr, e_addr := c_addr pclr, e_type := bytes_of ''JRES'', p_id := rnd\<rparr>)"
    by (simp add: InitNew_def cut_def bytes_of_def)
  then have "feedback_message md5 J rnd pclr = Inr (rmsg rd, k1)"
    using r(1) assms(4) by (simp add: feedback_message_def SetPostBuff_def cut_def Let_def)
  then show ?thesis using r info SignedRawData2Post_packet [OF info r(4)] c_str_padded [OF assms(5)] by auto
qed

lemma feedback_stored:
  assumes "\<forall>b. length (md5 b) = 32" "wf_sockaddr (address (c_addr pclr))" "key k = key (c_key pclr)"
    and "js_feedback J (sint (c_id pclr)) (sint (c_passwd pclr)) = s" "c_str s = s" "length s \<le> 8000"
    and "js_read J s = Inr (''ok'', sint (c_id pclr), sint (c_passwd pclr))" "4 \<le> length (t_buff t)"
  shows "\<exists>msg k'. feedback_message md5 J rnd pclr = Inr (msg, k') \<and>
    (\<forall>ps. concat ps = msg \<longrightarrow> [] \<notin> set ps \<longrightarrow>
      (\<exists>k2. short_connection md5 J Q k junk (map Received ps @ [Received []]) t =
        Inr (t\<lparr>t_db := snd (run_sql Q update_feedback [DInt (sint (c_id pclr)), DInt (sint (c_passwd pclr))] (t_db t)),
               t_buff := bytes_of ''D_OK'' @ drop 4 (t_buff t)\<rparr>, k2)))"
proof -
  obtain msg k' rd1 pkt pst2 k2 where m: "feedback_message md5 J rnd pclr = Inr (msg, k')" "CheckRawMsg msg = Inr True"
    "ProcessSignedRawMsg msg (new_raw_data 0 []) = Inr rd1" "rinfo rd1 = bytes_of ''ECYP''"
    "Rawdata2Packet (new_packet 0 zero_sockaddr) rd1 = Inr pkt" "Packet2Post md5 pkt new_post k = Inr (pst2, k2)"
    "e_type pst2 = bytes_of ''JRES''" "c_str (chars_of (e_buff pst2)) = s"
    using feedback_message_read [OF assms(1-6)] by blast
  have "msg \<noteq> []" using m(3) by (auto simp: ProcessSignedRawMsg_def Let_def)
  have "poke 0 (bytes_of ''D_OK'') (t_buff t) = Inr (bytes_of ''D_OK'' @ drop 4 (t_buff t))"
    using assms(8) by (simp add: poke_def bytes_of_def eval_nat_numeral)
  then have "connection_post md5 J Q k msg t =
      Inr (t\<lparr>t_db := snd (run_sql Q update_feedback [DInt (sint (c_id pclr)), DInt (sint (c_passwd pclr))] (t_db t)),
               t_buff := bytes_of ''D_OK'' @ drop 4 (t_buff t)\<rparr>, k2)"
    using m assms(7) by (simp add: connection_post_def)
  then have "short_connection md5 J Q k junk (map Received ps @ [Received []]) t =
      Inr (t\<lparr>t_db := snd (run_sql Q update_feedback [DInt (sint (c_id pclr)), DInt (sint (c_passwd pclr))] (t_db t)),
               t_buff := bytes_of ''D_OK'' @ drop 4 (t_buff t)\<rparr>, k2)" if "concat ps = msg" "[] \<notin> set ps" for ps
  proof -
    have "ps \<noteq> []" using that(1) \<open>msg \<noteq> []\<close> by auto
    from RecvRAW_joined [OF that(2) this] that(1) \<open>msg \<noteq> []\<close> block_bytes_whole [of junk msg]
    show ?thesis using \<open>connection_post md5 J Q k msg t = _\<close> by (simp add: short_connection_def)
  qed
  with m(1) show ?thesis by blast
qed

text \<open>
  The feedback to a registration arrives: what \<open>clientWaitDeamon\<close> sends on a short connection, in whatever pieces
  TCP delivers it, makes \<open>connectionDeamon\<close> of the client with the same key store the identifier and the password
  that the server drew and wake the shell with \<open>D_OK\<close>.
\<close>

theorem feedback_arrives:
  assumes "\<forall>b. length (md5 b) = 32" "wf_sockaddr (address (c_addr pclr))" "key k = key (c_key pclr)"
    and "js_feedback J (sint (c_id pclr)) (sint (c_passwd pclr)) = s" "c_str s = s" "length s \<le> 8000"
    and "js_read J s = Inr (''ok'', sint (c_id pclr), sint (c_passwd pclr))" "4 \<le> length (t_buff t)"
  shows "\<exists>msg k'. feedback_message md5 J rnd pclr = Inr (msg, k') \<and>
    (\<forall>ps. concat ps = msg \<longrightarrow> [] \<notin> set ps \<longrightarrow>
      (\<exists>k2. short_connection md5 J Q k junk (map Received ps @ [Received []]) t =
        Inr (t\<lparr>t_db := snd (run_sql Q update_feedback [DInt (sint (c_id pclr)), DInt (sint (c_passwd pclr))] (t_db t)),
               t_buff := bytes_of ''D_OK'' @ drop 4 (t_buff t)\<rparr>, k2)))"
  by (rule feedback_stored [OF assms])

definition sample_json :: json where
  "sample_json = \<lparr>js_feedback = \<lambda>c p. ''feedback'', js_read = \<lambda>_. Inr (''ok'', 5, 6), js_status = \<lambda>_. Inr ''ok'', js_pwd = \<lambda>_. Inr 6\<rparr>"

definition sample_client_register :: client_register where
  "sample_client_register = \<lparr>c_id = 5, c_key = sample_key, c_name = ''n'', c_tag = ''t'', c_click = 99999, c_passwd = 6, c_addr = Addr_empty\<rparr>"

lemma sample_md5_length: "\<forall>b. length (sample_md5 b) = 32"
  by (simp add: sample_md5_def)

lemma wf_Addr_empty: "wf_sockaddr (address Addr_empty)"
  by (simp add: Addr_empty_def wf_sockaddr_def zero_sockaddr_def)

definition log_sqlite :: "(string \<times> dbval list) list sqlite" where
  "log_sqlite = \<lparr>run_sql = \<lambda>sql vals db. (Some ([], []), db @ [(sql, vals)]), errmsg = \<lambda>_. [], junk_size = 0\<rparr>"

theorem feedback_arrives_witness:
  "\<exists>msg k'. feedback_message sample_md5 sample_json 1 sample_client_register = Inr (msg, k') \<and>
    (\<exists>t k2. short_connection sample_md5 sample_json log_sqlite sample_key 0 (map Received [msg] @ [Received []])
        \<lparr>t_db = [], t_buff = replicate 8 0, if_beat = False, if_listen = False\<rparr> = Inr (t, k2) \<and>
      t_db t = [(update_feedback, [DInt 5, DInt 6])] \<and> take 4 (t_buff t) = bytes_of ''D_OK'')"
proof -
  let ?t = "\<lparr>t_db = [], t_buff = replicate 8 0, if_beat = False, if_listen = False\<rparr> :: (string \<times> dbval list) list terminal"
  have "\<exists>msg k'. feedback_message sample_md5 sample_json 1 sample_client_register = Inr (msg, k') \<and>
    (\<forall>ps. concat ps = msg \<longrightarrow> [] \<notin> set ps \<longrightarrow>
      (\<exists>k2. short_connection sample_md5 sample_json log_sqlite sample_key 0 (map Received ps @ [Received []]) ?t =
        Inr (?t\<lparr>t_db := snd (run_sql log_sqlite update_feedback [DInt (sint (c_id sample_client_register)), DInt (sint (c_passwd sample_client_register))] (t_db ?t)),
               t_buff := bytes_of ''D_OK'' @ drop 4 (t_buff ?t)\<rparr>, k2)))"
    by (rule feedback_arrives [OF sample_md5_length, where s = "''feedback''"])
      (simp_all add: sample_client_register_def sample_json_def wf_Addr_empty c_str_def)
  then obtain msg k' where m: "feedback_message sample_md5 sample_json 1 sample_client_register = Inr (msg, k')"
    "\<And>ps. concat ps = msg \<Longrightarrow> [] \<notin> set ps \<Longrightarrow>
      (\<exists>k2. short_connection sample_md5 sample_json log_sqlite sample_key 0 (map Received ps @ [Received []]) ?t =
        Inr (?t\<lparr>t_db := snd (run_sql log_sqlite update_feedback [DInt (sint (c_id sample_client_register)), DInt (sint (c_passwd sample_client_register))] (t_db ?t)),
               t_buff := bytes_of ''D_OK'' @ drop 4 (t_buff ?t)\<rparr>, k2))"
    by blast
  have "CheckRawMsg msg = Inr True"
    using feedback_message_read [OF sample_md5_length, of sample_client_register sample_key sample_json "''feedback''" 1] m(1)
    by (auto simp: sample_client_register_def sample_json_def wf_Addr_empty c_str_def)
  then have "msg \<noteq> []" by (auto simp: CheckRawMsg_def check_tags_def cut_def)
  then show ?thesis using m(1) m(2) [of "[msg]"] by (auto simp: log_sqlite_def sample_client_register_def bytes_of_def)
qed

section \<open>The lease\<close>

lemma wait_loop_lease: "(\<And>x. x < n \<Longrightarrow> connected (i + x)) \<Longrightarrow> wait_loop n i connected = (i + n, False)"
proof (induction n arbitrary: i)
  case (Suc n)
  then have "connected i" using Suc.prems [of 0] by simp
  moreover have "wait_loop n (Suc i) connected = (Suc i + n, False)"
    by (rule Suc.IH) (use Suc.prems [of "Suc _"] in simp)
  ultimately show ?case by simp
qed simp

text \<open>A registration, in contrast, is served for its 99999 seconds when the connection lasts.\<close>

lemma registration_served:
  assumes "c_click pclr = 99999" "clientWaitDeamon md5 J rnd pclr connects reply (\<lambda>_. True) = Inr r" "served r = Some n"
  shows "n = 99999 \<and> statuses r = [1]"
  using assms wait_loop_lease [of 99999 "\<lambda>_. True" 0]
  by (auto simp: clientWaitDeamon_def split: option.split_asm if_split_asm)

text \<open>
  A client that logs in is not served: the record that \<open>client_login\<close> starts the session with has no lease
  (\<open>click\<close> is 0), so \<open>clientWaitDeamon\<close> leaves its service loop at once and deletes the record that the two service
  threads still use.
\<close>

theorem login_not_served:
  assumes "client_login E preq s = Inr s'" "timers s' = timers s @ [pclr]"
    "clientWaitDeamon md5 J rnd pclr connects reply connected = Inr r"
  shows "served r = None \<or> served r = Some 0 \<and> dangling r"
proof -
  obtain lid lpw where lg: "env_login E (c_str (q_data preq)) = Inr (lid, lpw)"
    using assms(1) by (auto simp: client_login_def Let_def split_def)
  obtain k rs where k: "new_key (rand_state s) = (k, rs)" by (cases "new_key (rand_state s)")
  have "c_click pclr = 0"
  proof (cases "db_select E (show_nat (unat (word_of_int lid :: u64))) (database s)")
    case None
    then show ?thesis using assms(1,2) lg k by (auto simp: client_login_def)
  next
    case (Some row)
    then show ?thesis using assms(1,2) lg k
      by (auto simp: client_login_def send_respond_def Let_def split: if_split_asm)
  qed
  with assms(3) show ?thesis
    by (auto simp: clientWaitDeamon_def split: option.split_asm if_split_asm)
qed

definition sample_row :: reg_row where
  "sample_row = \<lparr>row_name = ''n'', row_tag = ''t'', row_client_id = 0, row_key = [1, 2, 3, 4], row_ip = ''127.0.0.1'',
     row_udp = 9050, row_tcp = 9052, row_passwd = 0, row_status = 0\<rparr>"

lemma resFromClient_get: "resFromClient (Received (tag ''DGET'')) = Inr True"
  by code_simp

theorem login_not_served_witness:
  "\<exists>s' pclr r. client_login sample_env sample_registration (sample_server \<lparr>modulus = 323, exponent = 257\<rparr>\<lparr>database := [sample_row]\<rparr>) = Inr s'
     \<and> timers s' = [pclr]
     \<and> clientWaitDeamon sample_md5 sample_json 1 pclr (\<lambda>_. Connected) (Received (tag ''DGET'')) (\<lambda>_. True) = Inr r
     \<and> served r = Some 0 \<and> dangling r"
proof -
  let ?s = "sample_server \<lparr>modulus = 323, exponent = 257\<rparr>\<lparr>database := [sample_row]\<rparr>"
  obtain p where p: "respond_packet sample_registration ''register respond'' status_ok = Inr p"
    using respond_packet_wf [of sample_registration "''register respond''" status_ok] sample_addr [of 9]
    by (auto simp: sample_registration_def)
  obtain k rs where k: "new_key (rand_state ?s) = (k, rs)" by (cases "new_key (rand_state ?s)")
  let ?pclr = "\<lparr>c_id = 0, c_key = k\<lparr>key := [1, 2, 3, 4]\<rparr>, c_name = ''n'', c_tag = ''t'', c_click = 0, c_passwd = 0,
    c_addr = SetPort 9052 (SetIP (\<lambda>_. 0) ''127.0.0.1'' Addr_empty)\<rparr>"
  obtain s' where s': "client_login sample_env sample_registration ?s = Inr s'" "timers s' = timers ?s @ [?pclr]"
    using k p by (simp add: client_login_def send_respond_def sample_env_def sample_server_def sample_row_def Let_def)
  obtain msg k' where fm: "feedback_message sample_md5 sample_json 1 ?pclr = Inr (msg, k')"
    using feedback_message_read [OF sample_md5_length, of ?pclr "c_key ?pclr" sample_json "''feedback''" 1]
    wf_Addr_empty by (auto simp: sample_json_def c_str_def wf_sockaddr_def SetPort_def SetIP_def)
  obtain sd where "BuildSmallRawData (new_raw_data 0 []) ''SCNT'' = Inr sd"
    using small_message [of "''SCNT''" "new_raw_data 0 []"] by auto
  then have "connection_message ''SCNT'' = Inr (rmsg sd)" by (simp add: connection_message_def)
  then obtain r where r: "clientWaitDeamon sample_md5 sample_json 1 ?pclr (\<lambda>_. Connected) (Received (tag ''DGET'')) (\<lambda>_. True) = Inr r"
      "served r \<noteq> None"
    using fm resFromClient_get by (simp add: clientWaitDeamon_def eval_nat_numeral)
  from login_not_served [OF s' r(1)] r s' show ?thesis by (auto simp: sample_server_def)
qed

section \<open>The shared memory\<close>

lemma bytes_of_inject: "bytes_of s = bytes_of t \<longleftrightarrow> s = t"
  by (metis chars_of_bytes_of)

lemma ping_size: "le_dec (take 4 (le_enc 8 12)) = 12"
  by code_simp

text \<open>What \<open>ping\<close> leaves in the shared memory.\<close>

lemma ping_left:
  assumes "28 \<le> length buf" "take 4 buf \<noteq> bytes_of ''WAIT''"
  shows "\<exists>buf1 msg rd1. ping_command buf = Inr buf1 \<and> length buf1 = length buf \<and> take 4 buf1 = bytes_of ''SDAT'' \<and>
    drop 28 buf1 = drop 28 buf \<and> shared_message buf1 = Inr (Some msg) \<and> CheckRawMsg msg = Inr True \<and>
    ProcessSignedRawMsg msg (new_raw_data 0 []) = Inr rd1 \<and> rinfo rd1 = bytes_of ''PING''"
proof -
  obtain sd rd1 where sd: "BuildSmallRawData (new_raw_data 0 []) ''PING'' = Inr sd"
    "rmsg sd = bytes_of ''NETC'' @ bytes_of ''PING'' @ bytes_of ''CTEN''"
    "CheckRawMsg (rmsg sd) = Inr True" "ProcessSignedRawMsg (rmsg sd) (new_raw_data 0 []) = Inr rd1"
    "rinfo rd1 = bytes_of ''PING''"
    using small_message [of "''PING''" "new_raw_data 0 []" "new_raw_data 0 []"] by (auto simp: info_tag_def bytes_of_def)
  have n: "length (rmsg sd) = 12" by (simp add: sd(2))
  let ?rest = "bytes_of ''SDAT'' @ le_enc 8 12 @ rmsg sd @ bytes_of ''TADS'' @ drop 28 buf"
  have "ping_command buf = Inr ?rest"
    using assms sd(1) n by (simp add: ping_command_def poke_def cut_def) arith
  moreover have "shared_message ?rest = Inr (Some (rmsg sd))"
    using n ping_size by (simp add: shared_message_def cut_def BUFSIZ_def)
  ultimately show ?thesis using n assms(1) sd(3-5) by (intro exI [of _ ?rest] exI [of _ "rmsg sd"] exI [of _ rd1]) simp
qed

text \<open>
  The command \<open>ping\<close> reaches the server: what the shell leaves in the shared memory is the message that the thread
  of the sending connection takes out of it, byte for byte, and that \<open>clientListener\<close> of the server reads as a ping,
  without a change of the client's record; the memory is then free for the next command.
\<close>

theorem ping_arrives:
  assumes "28 \<le> length buf" "take 4 buf \<noteq> bytes_of ''WAIT''"
  shows "\<exists>buf1 msg buf2. ping_command buf = Inr buf1 \<and> send_shared buf1 = Inr (Some msg, buf2) \<and>
    listen_message md5 J pclr msg = Inr (Ping, pclr) \<and> take 4 buf2 = replicate 4 0 \<and> drop 28 buf2 = drop 28 buf"
proof -
  obtain buf1 msg rd1 where p: "ping_command buf = Inr buf1" "length buf1 = length buf" "take 4 buf1 = bytes_of ''SDAT''"
    "drop 28 buf1 = drop 28 buf" "shared_message buf1 = Inr (Some msg)" "CheckRawMsg msg = Inr True"
    "ProcessSignedRawMsg msg (new_raw_data 0 []) = Inr rd1" "rinfo rd1 = bytes_of ''PING''"
    using ping_left [OF assms] by blast
  have "send_shared buf1 = Inr (Some msg, replicate 4 0 @ drop 4 buf1)"
    using p assms(1) by (simp add: send_shared_def poke_def cut_def)
  moreover have "listen_message md5 J pclr msg = Inr (Ping, pclr)"
    using p by (simp add: listen_message_def bytes_of_inject)
  ultimately show ?thesis using p by auto
qed

theorem ping_arrives_witness:
  "\<exists>buf1 msg buf2. ping_command (replicate 1024 0) = Inr buf1 \<and> send_shared buf1 = Inr (Some msg, buf2) \<and>
    listen_message sample_md5 sample_json sample_client_register msg = Inr (Ping, sample_client_register) \<and>
    take 4 buf2 = replicate 4 0"
proof -
  have "take 4 (replicate 1024 0 :: byte list) \<noteq> bytes_of ''WAIT''"
    unfolding take_replicate by code_simp
  moreover have "28 \<le> length (replicate 1024 0 :: byte list)" by simp
  ultimately show ?thesis
    using ping_arrives [of "replicate 1024 0" sample_md5 sample_json sample_client_register] by blast
qed

end
