(* ===== verification/Commands.thy ===== *)
theory Commands
  imports ProjectDb Session Clock Sha1
begin

text \<open>
  The command line: \<^theory_text>\<open>src/src/main.cpp\<close> and the commands of \<^theory_text>\<open>src/src/controller.cpp\<close> up to the point where a
  daemon takes over. A command gives its return value and the database behind it. Parameters beside SQLite and the
  operating system: \<open>hash\<close> is what \<open>SHA1_Easy\<close> leaves in its result (\<open>sha1_hash\<close> below says when it does), the
  JSON texts of the client's requests, and \<open>io_serve\<close>, the respond that the callback of a request gets, or nothing.
\<close>

section \<open>main.cpp\<close>

record parsed =
  instruct :: string
  config :: "string list"
  long_config :: "string list"
  target :: "string list"
  if_instruct :: bool

text \<open>An argument that starts with two dashes also starts with one.\<close>

definition parse_arg :: "parsed \<Rightarrow> string \<Rightarrow> parsed" where
  "parse_arg p sargv =
     (if take 1 sargv = ''-'' then p\<lparr>config := config p @ [sargv]\<rparr>
      else if take 1 sargv = ''-'' \<and> take 1 (drop 1 sargv) = ''-'' then p\<lparr>long_config := long_config p @ [sargv]\<rparr>
      else if if_instruct p then p\<lparr>instruct := sargv, if_instruct := False\<rparr>
      else p\<lparr>target := target p @ [sargv]\<rparr>)"

definition parse_args :: "string list \<Rightarrow> parsed" where
  "parse_args argv =
     foldl parse_arg \<lparr>instruct = [], config = [], long_config = [], target = [], if_instruct = True\<rparr> (drop 1 argv)"

datatype command = Construct | Update | ServerCommand | Init | SetCommand | ClientCommand | AutoInit | Senseless

definition command_of :: "string \<Rightarrow> command" where
  "command_of i =
     (if i = ''construct'' then Construct else if i = ''update'' then Update else if i = ''server'' then ServerCommand
      else if i = ''init'' then Init else if i = ''set'' then SetCommand else if i = ''client'' then ClientCommand
      else if i = ''autoinit'' then AutoInit else Senseless)"

section \<open>init\<close>

definition sha1_hash :: "byte list \<Rightarrow> string \<Rightarrow> string option res" where
  "sha1_hash junk str = SHA1_Easy junk (bytes_of str)"

definition step_done :: "answer \<Rightarrow> bool" where
  "step_done r \<longleftrightarrow> (case r of Some (_, []) \<Rightarrow> True | _ \<Rightarrow> False)"

definition server_tables :: "(string \<times> (string \<times> string) list) list" where
  "server_tables = [(''server_info'', [(''name'', ''TEXT''), (''sqes_public'', ''NONE''), (''sqes_private'', ''NONE''), (''key_sha1'', ''TEXT'')])]"

definition client_tables :: "(string \<times> (string \<times> string) list) list" where
  "client_tables =
     [(''client_info'', [(''name'', ''TEXT''), (''tag'', ''TEXT''), (''admin_key_sha1'', ''TEXT''), (''msqes_ip'', ''TEXT''),
        (''msqes_port'', ''INT''), (''msqes_key'', ''TEXT''), (''msqes_rsa_public'', ''NONE'')]),
      (''sqes_info'', [(''sqes_ip'', ''TEXT PRIMARY KEY''), (''sqes_port'', ''INT''), (''sqes_key'', ''TEXT''), (''rsa_public'', ''NONE'')])]"

text \<open>The first table that cannot be created ends the \<open>try\<close> block.\<close>

fun try_tables :: "'db sqlite \<Rightarrow> (string \<times> (string \<times> string) list) list \<Rightarrow> 'db \<Rightarrow> bool \<times> 'db" where
  "try_tables Q [] db = (True, db)"
| "try_tables Q ((name, cols) # ts) db =
     (case table_create Q name cols db of
        Inr db \<Rightarrow> try_tables Q ts db
      | Inl _ \<Rightarrow> (False, create_failed Q name cols db))"

text \<open>The tables of a component, emptied with \<open>-f\<close> when they exist; the first result says whether to go on.\<close>

definition init_tables :: "'db sqlite \<Rightarrow> string list \<Rightarrow> (string \<times> (string \<times> string) list) list \<Rightarrow> string \<Rightarrow> 'db \<Rightarrow>
    (bool \<times> 'db) res" where
  "init_tables Q configs tables name db =
     (let (ok, db) = try_tables Q tables db in
      if ok then Inr (True, db)
      else if \<not> config_search configs ''-f'' then Inr (False, db)
      else let (r, db) = run_sql Q (''DELETE FROM '' @ name @ '';'') [] db
        in if step_done r then Inr (True, db) else Inl (ThrownText (errmsg Q db)))"

definition key_image :: "rsa_key \<Rightarrow> string" where
  "key_image k = chars_of (le_enc 8 (unat (modulus k)) @ le_enc 8 (unat (exponent k)))"

definition insert_server :: string where
  "insert_server = insert_sql ''server_info'' [(''sqes_public'', ''?1''), (''sqes_private'', ''?2''), (''key_sha1'', ''?3''), (''name'', ''?4'')]"

text \<open>The name is checked in \<open>targets[0]\<close>, which is the word \<^theory_text>\<open>server\<close>; the hash is taken of the name \<open>targets[1]\<close>.\<close>

definition init_server :: "(string \<Rightarrow> string option res) \<Rightarrow> 'db sqlite \<Rightarrow> (rsa_key \<times> rsa_key) option \<Rightarrow> string list \<Rightarrow>
    string list \<Rightarrow> 'db \<Rightarrow> (int \<times> 'db) res option" where
  "init_server hash Q keys configs targets db =
     (if length targets < 3 then Some (Inr (- 1, db))
      else if \<not> if_name_illegal (c_str (targets ! 0)) then Some (Inr (- 1, db))
      else bind_run (Some (init_tables Q configs server_tables ''server_info'' db)) (\<lambda>(go, db).
        if \<not> go then Some (Inr (0, db))
        else case keys of None \<Rightarrow> None
        | Some (npbkc, nprkc) \<Rightarrow>
            bind_run (Some (hash (targets ! 1))) (\<lambda>sha1_hex.
            case sha1_hex of None \<Rightarrow> None
            | Some hex \<Rightarrow> Some (Inr (0, snd (run_sql Q insert_server
                [DBlob (key_image npbkc), DBlob (key_image nprkc), bind_text hex, DBlob (targets ! 1)] db))))))"

definition insert_client :: string where
  "insert_client = insert_sql ''client_info'' [(''name'', ''?1''), (''tag'', ''?2'')]"

definition init_client :: "'db sqlite \<Rightarrow> string list \<Rightarrow> string list \<Rightarrow> 'db \<Rightarrow> (int \<times> 'db) res" where
  "init_client Q configs targets db =
     (if length targets < 2 then Inr (- 1, db)
      else if \<not> if_name_illegal (targets ! 0) \<or> \<not> if_name_illegal (targets ! 1) then Inr (- 1, db)
      else bind_res (init_tables Q configs client_tables ''client_info'' db) (\<lambda>(go, db).
        if \<not> go then Inr (0, db)
        else let (r, db) = run_sql Q insert_client [bind_text (targets ! 0), bind_text (targets ! 1)] db
          in if step_done r then Inr (0, db) else Inl (ThrownText ''sql writes error'')))"

definition init :: "(string \<Rightarrow> string option res) \<Rightarrow> 'db sqlite \<Rightarrow> int list \<Rightarrow> (nat \<times> nat) list \<Rightarrow> string list \<Rightarrow>
    string list \<Rightarrow> 'db \<Rightarrow> (int \<times> 'db) res option" where
  "init hash Q primes draws configs targets db =
     (if targets = [] then Some (Inl OutOfBounds)
      else if targets ! 0 = ''server'' then init_server hash Q (rsa_gen_keys primes draws) configs targets db
      else Some (init_client Q configs targets db))"

section \<open>set\<close>

text \<open>\<open>>>\<close> leaves \<open>port\<close>, here \<open>junk\<close>, as it was when there is nothing but white space.\<close>

definition read_port :: "int \<Rightarrow> string \<Rightarrow> int" where
  "read_port junk s = (if list_all is_space s then junk else extract_int s)"

definition update_server :: string where
  "update_server = ''UPDATE client_info SET msqes_ip = ?1, msqes_port = ?2 WHERE rowid = 1;''"

definition set_server :: "'db sqlite \<Rightarrow> int \<Rightarrow> string list \<Rightarrow> 'db \<Rightarrow> (int \<times> 'db) res" where
  "set_server Q junk targets db =
     (if length targets < 3 then Inr (- 1, db)
      else if \<not> checkValidIP (targets ! 1) then Inr (- 1, db)
      else let port = read_port junk (targets ! 2)
        in if 0 < port \<and> port \<le> 65535
           then Inr (0, snd (run_sql Q update_server [bind_text (targets ! 1), DInt port] db))
           else Inr (- 1, db))"

definition set_key :: "(string \<Rightarrow> string option res) \<Rightarrow> 'db sqlite \<Rightarrow> string list \<Rightarrow> 'db \<Rightarrow> (int \<times> 'db) res option" where
  "set_key hash Q targets db =
     (if length targets < 3 then Some (Inr (- 1, db))
      else if targets ! 1 = ''admin'' then
        bind_run (Some (hash (targets ! 2))) (\<lambda>hexresult.
          case hexresult of None \<Rightarrow> None
          | Some hex \<Rightarrow> Some (Inr (0, snd (run_sql Q ''UPDATE client_info SET admin_key_sha1 = ?1 WHERE rowid = 1;'' [bind_text hex] db))))
      else if targets ! 1 = ''server'' then
        Some (Inr (0, snd (run_sql Q ''UPDATE client_info SET msqes_key = ?1 WHERE rowid = 1;'' [bind_text (targets ! 2)] db)))
      else Some (Inr (- 1, db)))"

definition set_command :: "(string \<Rightarrow> string option res) \<Rightarrow> 'db sqlite \<Rightarrow> int \<Rightarrow> string list \<Rightarrow> 'db \<Rightarrow> (int \<times> 'db) res option" where
  "set_command hash Q junk targets db =
     (if length targets < 2 then Some (Inr (- 1, db))
      else let (r, db) = run_sql Q (''SELECT count(*) FROM sqlite_master WHERE name = '' @ string_type ''client_info'' @ '';'') [] db
        in if column_int (first_row r) 0 = 0 then Some (Inr (- 1, db))
           else if targets ! 0 = ''server'' then Some (set_server Q junk targets db)
           else if targets ! 0 = ''key'' then set_key hash Q targets db
           else Some (Inr (0, db)))"

section \<open>server, construct and update\<close>

definition server_command :: "string list \<Rightarrow> clock_state \<Rightarrow> clock_state res" where
  "server_command targets s =
     (case targets of
        [] \<Rightarrow> setServerClockForSquare 0 3 s
      | t # _ \<Rightarrow> if t = ''square'' then setServerClockForSquare 0 3 s else Inr s)"

text \<open>
  The handler of \<open>construct\<close> and \<open>update\<close> takes \<^theory_text>\<open>const char *\<close> only. A database is given for a success.
\<close>

definition catch_text :: "(int \<times> 'db option) res option \<Rightarrow> (int \<times> 'db option) res option" where
  "catch_text m = (case m of Some (Inl (ThrownText t)) \<Rightarrow> Some (Inr (- 1, None)) | _ \<Rightarrow> m)"

definition construct :: "os \<Rightarrow> 'db sqlite \<Rightarrow> char \<Rightarrow> bool \<Rightarrow> bool \<Rightarrow> bool \<Rightarrow> 'db \<Rightarrow> string list \<Rightarrow> string list \<Rightarrow>
    (int \<times> 'db option) res option" where
  "construct E Q before remove_ok mkdir_ok open_ok empty_db configs targets =
     (if targets = [] then Some (Inl OutOfBounds)
      else catch_text (bind_run (Proj_dir E before (targets ! 0) ''netc.proj'') (\<lambda>nproj.
        let tdb_path = targets ! 0 @ ''/dbs/'' @ p_name nproj @ ''.db''; exists' = sys_access E tdb_path R_OK in
        if exists' \<and> \<not> config_search configs ''-f'' then Some (Inr (0, None))
        else if exists' \<and> \<not> remove_ok then Some (Inr (- 1, None))
        else bind_run (prepare E nproj) (\<lambda>nproj.
             bind_run (DBProcess E Q mkdir_ok open_ok nproj empty_db) (\<lambda>db. Some (Inr (0, Some db)))))))"

definition update :: "os \<Rightarrow> 'db sqlite \<Rightarrow> char \<Rightarrow> string list \<Rightarrow> 'db \<Rightarrow> (int \<times> 'db option) res option" where
  "update E Q before targets db =
     (if targets = [] then Some (Inl OutOfBounds)
      else catch_text (bind_run (Proj_dir E before (targets ! 0) ''netc.proj'') (\<lambda>nproj.
        bind_run (UpdateProcess E Q nproj db) (\<lambda>(_, db). Some (Inr (0, Some db))))))"

section \<open>client\<close>

text \<open>
  What the command asks of the outside: \<open>io_login\<close> and \<open>io_register\<close> write the data of its requests.
\<close>

record client_io =
  io_inet :: "string \<Rightarrow> u32"
  io_login :: "int \<Rightarrow> int \<Rightarrow> string"
  io_register :: "byte list \<Rightarrow> string \<Rightarrow> string \<Rightarrow> string \<Rightarrow> int \<Rightarrow> string \<Rightarrow> string"
  io_serve :: "request \<Rightarrow> respond option"
  io_json :: json

text \<open>\<open>Client\<close> with the members that its constructor reads from the database, and the key of its posts.\<close>

record client_id = client +
  name :: string
  tag_name :: string
  sqe_key :: string
  post_key :: aes_key256

definition select_identity :: string where
  "select_identity = ''select name,tag,msqes_key from client_info where rowid = 1;''"

definition Client :: "'db sqlite \<Rightarrow> u16 \<Rightarrow> rsa_key \<Rightarrow> u64 \<Rightarrow> 'db \<Rightarrow> (client_id \<times> u64 \<times> 'db) res" where
  "Client Q port blank rs db =
     (let (k, rs) = new_key rs; (r, db) = run_sql Q select_identity [] (exec Q ''BEGIN DEFERRED;'' db); row = first_row r in
      bind_res (column_string row 0) (\<lambda>n. bind_res (column_string row 1) (\<lambda>t. bind_res (column_string row 2) (\<lambda>q.
        Inr (\<lparr>req_lst = [], res_lst = [], listen_port = port, sqe_pbc = blank, name = n, tag_name = t, sqe_key = q,
              post_key = k\<rparr>, rs, exec Q ''COMMIT;'' db)))))"

text \<open>A command with the client, the random numbers, the database and what was sent.\<close>

record 'db run =
  r_clt :: client_id
  r_rand :: u64
  r_db :: 'db
  r_sent :: "sending list"

text \<open>A request, its listener, and the wait for its callback; the raw data of the listener draws its identifier.\<close>

definition ask :: "client_io \<Rightarrow> string \<Rightarrow> int \<Rightarrow> string \<Rightarrow> string \<Rightarrow> bool \<Rightarrow> int \<Rightarrow> 'db run \<Rightarrow> (respond option \<times> 'db run) res" where
  "ask W ip port ty da if_encrypt tmo s =
     (let (r1, rs) = rng64 (r_rand s); (r2, rs) = rng64 rs;
          preq = NewRequest (io_inet W) r1 ip port ty da if_encrypt (client.truncate (r_clt s)) in
      bind_res (NewRequestListener r2 preq tmo 0 (client.truncate (r_clt s))) (\<lambda>(c, out).
        Inr (io_serve W preq, s\<lparr>r_clt := (r_clt s)\<lparr>req_lst := req_lst c\<rparr>, r_rand := rs, r_sent := r_sent s @ [out]\<rparr>)))"

definition request_public_key :: "client_io \<Rightarrow> 'db sqlite \<Rightarrow> string \<Rightarrow> int \<Rightarrow> 'db run \<Rightarrow> 'db run res" where
  "request_public_key W Q ip port s =
     bind_res (ask W ip port ''public request'' ''request for public key'' False 30 s) (\<lambda>(pres, s).
     bind_res (getSQEPublicKey Q 16 pres (r_db s)) (\<lambda>(if_wait, db).
       if if_wait = 0 then Inr (s\<lparr>r_db := db\<rparr>) else Inl (ThrownText ''connection error'')))"

fun as_blob :: "dbval \<Rightarrow> byte list res" where
  "as_blob (DBlob b) = Inr (bytes_of b)"
| "as_blob (DText b) = Inr (bytes_of b)"
| "as_blob (DInt i) = Inr (bytes_of (show_int i))"
| "as_blob DNull = Inl NullDeref"

definition read_public_key :: "dbval \<Rightarrow> rsa_key res" where
  "read_public_key v =
     bind_res (as_blob v) (\<lambda>b. bind_res (cut b 0 8) (\<lambda>m. bind_res (cut b 8 8) (\<lambda>e.
       Inr \<lparr>modulus = word_of_nat (le_dec m), exponent = word_of_nat (le_dec e)\<rparr>)))"

definition int64_text :: "string \<Rightarrow> int" where
  "int64_text s = (case strto s of None \<Rightarrow> 0
     | Some (neg, v) \<Rightarrow> max (- (2 ^ 63)) (min (2 ^ 63 - 1) (if neg then - int v else int v)))"

fun as_int64 :: "dbval \<Rightarrow> int" where
  "as_int64 (DInt i) = i"
| "as_int64 (DText s) = int64_text s"
| "as_int64 (DBlob s) = int64_text s"
| "as_int64 DNull = 0"

text \<open>Logging in with the stored registration: the value that the callback leaves in \<open>if_wait\<close>.\<close>

definition login :: "client_io \<Rightarrow> string \<Rightarrow> int \<Rightarrow> dbval list option \<Rightarrow> 'db run \<Rightarrow> (int \<times> 'db run) res" where
  "login W ip port row s =
     (let cid = as_int64 (column row 0); passwd = as_int64 (column row 4); (k, rs) = new_key (r_rand s) in
      bind_res (column_string row 1) (\<lambda>_. bind_res (column_string row 2) (\<lambda>_.
      bind_res (as_blob (column row 3)) (\<lambda>b. bind_res (cut b 0 32) (\<lambda>b.
      let k = k\<lparr>key := map (\<lambda>i. word_of_nat (le_dec (take 8 (drop (8 * i) b)))) [0 ..< 4]\<rparr>;
          s = s\<lparr>r_clt := (r_clt s)\<lparr>post_key := k\<rparr>, r_rand := rs\<rparr> in
      bind_res (ask W ip port ''client login'' (io_login W cid passwd) True 44 s) (\<lambda>(pres, s).
      bind_res (loginSQECallback (io_json W) pres) (\<lambda>if_wait. Inr (if_wait, s))))))))"

definition insert_registration :: string where
  "insert_registration = insert_sql ''client_register_info'' [(''name'', ''?1''), (''tag'', ''?2''), (''key'', ''?3''), (''status'', ''0'')]"

text \<open>Registering with a fresh key.\<close>

definition register :: "client_io \<Rightarrow> 'db sqlite \<Rightarrow> string \<Rightarrow> int \<Rightarrow> string \<Rightarrow> 'db run \<Rightarrow> (int \<times> 'db run) res" where
  "register W Q ip port listen_ip s =
     (let (k, rs) = new_key (r_rand s); s = s\<lparr>r_clt := (r_clt s)\<lparr>post_key := k\<rparr>, r_rand := rs\<rparr>; c = r_clt s;
          da = io_register W (GetKey k) (name c) (tag_name c) (sqe_key c) 9052 listen_ip in
      bind_res (ask W ip port ''private request'' da True 44 s) (\<lambda>(pres, s).
      bind_res (registerSQECallback (io_json W) Q pres (r_db s)) (\<lambda>(if_wait, db).
        if if_wait = 0 then
          Inr (0, s\<lparr>r_db := exec Q ''COMMIT;'' (snd (run_sql Q insert_registration
            [bind_text (name c), bind_text (tag_name c), DBlob (chars_of (GetKey k))] (exec Q ''BEGIN IMMEDIATE;'' db)))\<rparr>)
        else Inr (if_wait, s\<lparr>r_db := db\<rparr>))))"

text \<open>The state of the client's database: whether the key of the server is missing, and where the server is.\<close>

definition server_address :: "'db sqlite \<Rightarrow> 'db \<Rightarrow> (bool \<times> string \<times> int \<times> 'db) res" where
  "server_address Q db =
     (let (r, db) = run_sql Q ''select count(*) from client_info where rowid = 1 and msqes_rsa_public is null;'' [] db;
          if_null = column_int (first_row r) 0;
          (r, db) = run_sql Q ''select msqes_ip,msqes_port from client_info where rowid = 1;'' [] db in
      bind_res (column_string (first_row r) 0) (\<lambda>ip. Inr (if_null \<noteq> 0, ip, column_int (first_row r) 1, db)))"

definition select_public :: string where
  "select_public = ''select msqes_rsa_public from client_info where rowid = 1;''"

definition select_registered :: string where
  "select_registered = ''select count(name) from sqlite_master where name = '' @ [CHR 0x22] @ ''client_register_info'' @ [CHR 0x22]"

definition select_registration :: string where
  "select_registration = ''SELECT * from client_register_info where rowid = 1;''"

text \<open>
  A stored registration that the server has confirmed is used to log in, otherwise the client registers. The daemon
  and the shell start when the callback left 0. The result: the return value, whether they start, and the run.
\<close>

definition enter :: "client_io \<Rightarrow> 'db sqlite \<Rightarrow> string \<Rightarrow> int \<Rightarrow> string \<Rightarrow> 'db run \<Rightarrow> (int \<times> bool \<times> 'db run) res" where
  "enter W Q ip port listen_ip s =
     (let (r, db) = run_sql Q select_registered [] (r_db s); s = s\<lparr>r_db := db\<rparr> in
      if first_row r = None then Inl (ThrownText ''database is abnormal'')
      else let if_find = column_int (first_row r) 0;
             (row, s) = (if if_find \<noteq> 0 then let (r, db) = run_sql Q select_registration [] (r_db s) in (first_row r, s\<lparr>r_db := db\<rparr>)
                         else (None, s)) in
        if if_find \<noteq> 0 \<and> column_int row 5 = 1 then
          bind_res (login W ip port row s) (\<lambda>(if_wait, s). Inr (0, if_wait = 0, s))
        else bind_res (register W Q ip port listen_ip s) (\<lambda>(if_wait, s).
          if if_wait = 0 then Inr (0, True, s) else Inr (- 1, False, s)))"

definition client_command :: "client_io \<Rightarrow> 'db sqlite \<Rightarrow> rsa_key \<Rightarrow> u64 \<Rightarrow> string list \<Rightarrow> string list \<Rightarrow> 'db \<Rightarrow>
    (int \<times> bool \<times> 'db run) res" where
  "client_command W Q blank rs configs targets db =
     bind_res (Client Q 9050 blank rs db) (\<lambda>(c, rs, db).
     bind_res (if config_search configs ''-p'' then (if targets = [] then Inl OutOfBounds else Inr (targets ! 0))
               else Inr ''127.0.0.1'') (\<lambda>listen_ip.
     bind_res (server_address Q db) (\<lambda>(if_null, ip, port, db).
     let s = \<lparr>r_clt = c, r_rand = rs, r_db = db, r_sent = []\<rparr> in
     bind_res (if if_null then request_public_key W Q ip port s else Inr s) (\<lambda>s.
     let (r, db) = run_sql Q select_public [] (r_db s) in
     bind_res (read_public_key (column (first_row r) 0)) (\<lambda>pbc.
       enter W Q ip port listen_ip (s\<lparr>r_clt := (r_clt s)\<lparr>sqe_pbc := pbc\<rparr>, r_db := db\<rparr>))))))"

section \<open>Configuring the server\<close>

lemma read_port_show: "read_port junk (show_int p) = max (- (2 ^ 31)) (min (2 ^ 31 - 1) p)"
proof -
  have "\<exists>c. c \<in> set (show_int p) \<and> \<not> is_space c"
    using show_int_chars [of "hd (show_int p)" p] digit_not_space [of "hd (show_int p)"]
    by (intro exI [of _ "hd (show_int p)"]) (auto simp: is_space_def code_def)
  then have "\<not> list_all is_space (show_int p)" by (auto simp: list_all_iff)
  then show ?thesis by (simp add: read_port_def extract_int_def show_int_def strto_show_nat strto_show_neg)
qed

text \<open>
  \<open>set server\<close> stores the address of the server exactly if it is a canonical dotted decimal and the port lies
  between 1 and 65535, whatever number of any size is given; otherwise it answers -1 and leaves the database alone.
\<close>

theorem set_server_decides:
  assumes "run_sql Q (''SELECT count(*) FROM sqlite_master WHERE name = '' @ string_type ''client_info'' @ '';'') [] db = (r, db')"
    and "column_int (first_row r) 0 \<noteq> 0"
  shows "set_command hash Q junk (''server'' # ip # show_int p # ts) db = Some (Inr
    (if (\<exists>a \<le> 255. \<exists>b \<le> 255. \<exists>c \<le> 255. \<exists>d \<le> 255. c_str ip = dotted (int a) (int b) (int c) (int d)) \<and> 1 \<le> p \<and> p \<le> 65535
     then (0, snd (run_sql Q update_server [DText (c_str ip), DInt p] db')) else (- 1, db')))"
proof -
  have "0 < read_port junk (show_int p) \<and> read_port junk (show_int p) \<le> 65535 \<longleftrightarrow> 1 \<le> p \<and> p \<le> 65535"
    unfolding read_port_show by auto
  moreover have "1 \<le> p \<and> p \<le> 65535 \<Longrightarrow> read_port junk (show_int p) = p" unfolding read_port_show by auto
  ultimately show ?thesis
    using assms by (auto simp: set_command_def set_server_def checkValidIP_canonical [symmetric])
qed

definition count_sqlite :: "(string \<times> dbval list) list sqlite" where
  "count_sqlite = log_sqlite\<lparr>run_sql := \<lambda>sql vals db. (Some ([''n''], [[DInt 1]]), if vals = [] then db else db @ [(sql, vals)])\<rparr>"

theorem set_server_decides_witness:
  "set_command (sha1_hash []) count_sqlite 0 [''server'', ''127.0.0.1'', show_int 9049] [] =
     Some (Inr (0, [(update_server, [DText ''127.0.0.1'', DInt 9049])])) \<and>
   set_command (sha1_hash []) count_sqlite 0 [''server'', ''127.0.0.1'', show_int (2 ^ 40)] [] = Some (Inr (- 1, []))"
proof -
  have r: "run_sql count_sqlite sql [] [] = (Some ([''n''], [[DInt 1]]), [])" for sql
    by (simp add: count_sqlite_def)
  have one: "column_int (first_row (Some ([''n''], [[DInt 1]]))) 0 \<noteq> 0"
    by (simp add: column_int_def column_def first_row_def to_int32_def)
  have ip: "c_str ''127.0.0.1'' = dotted (int 127) (int 0) (int 0) (int 1)"
    by (simp add: c_str_def dotted_def show_int_def show_nat.simps)
  have "\<exists>a \<le> 255. \<exists>b \<le> 255. \<exists>c \<le> 255. \<exists>d \<le> 255. c_str ''127.0.0.1'' = dotted (int a) (int b) (int c) (int d)"
    unfolding ip by (rule exI [of _ 127], simp, rule exI [of _ 0], simp, rule exI [of _ 0], simp, rule exI [of _ 1], simp)
  with set_server_decides [OF r one, where ip = "''127.0.0.1''" and ts = "[]" and junk = 0 and hash = "sha1_hash []"]
  show ?thesis by (simp add: count_sqlite_def c_str_def)
qed

section \<open>Initialising a server\<close>

text \<open>
  \<open>init server\<close> with a name and an access key stores fresh RSA keys and the name, and as the hash of the key the hash
  of the name: the access key has no influence on the database or on the answer, only its length on a warning.
\<close>

lemma init_server_ignores_key:
  assumes "init_tables Q configs server_tables ''server_info'' db = Inr (True, db1)"
    and "rsa_gen_keys primes draws = Some (pub, priv)" "hash nm = Inr (Some hex)"
  shows "init hash Q primes draws configs [''server'', nm, access_key] db = Some (Inr (0, snd (run_sql Q insert_server
    [DBlob (key_image pub), DBlob (key_image priv), DText (c_str hex), DBlob nm] db1)))"
proof -
  have "if_name_illegal (c_str ''server'')" by code_simp
  then show ?thesis using assms by (simp add: init_def init_server_def)
qed

end
