(* ===== verification/Registration.thy ===== *)
theory Registration
  imports Commands
begin

text \<open>
  What the commands of the client do together with the server: configuring, registering and logging in, from the
  command line of the client over the datagrams and the rounds of the server to the session.
\<close>

section \<open>A registration arrives\<close>

text \<open>One activation of every daemon of the server behind the arrival of datagrams.\<close>

definition server_round :: "'db env \<Rightarrow> raw_data \<Rightarrow> sockaddr_in \<Rightarrow> byte list list \<Rightarrow> 'db square \<Rightarrow> 'db square res" where
  "server_round E rd a dgs s =
     bind_res (on_server (receive_all rd a dgs) s) (\<lambda>s.
     bind_res (on_server (boxProcessorDeamon rd) s) (\<lambda>s.
     bind_res (ProcessRawData s) (\<lambda>s.
     bind_res (ProcessPacket E s) (ProcessRequset E))))"

lemma key_words: "map (\<lambda>i. word_of_nat (le_dec (take 8 (drop (8 * i)
    (concat (map (\<lambda>w. le_enc 8 (unat w)) [a, b, c, d]))))) :: u64) [0 ..< 4] = [a, b, c, d]"
  by (simp add: upt_rec)

lemma GetKey_words:
  assumes "length (key k) = 4"
  shows "length (GetKey k) = 32"
    and "map (\<lambda>i. word_of_nat (le_dec (take 8 (drop (8 * i) (GetKey k)))) :: u64) [0 ..< 4] = key k"
proof -
  obtain a b c d where k: "key k = [a, b, c, d]" using assms by (auto simp: length_Suc_conv_ex eval_nat_numeral)
  show "length (GetKey k) = 32" by (simp add: GetKey_def k)
  show "map (\<lambda>i. word_of_nat (le_dec (take 8 (drop (8 * i) (GetKey k)))) :: u64) [0 ..< 4] = key k"
    using key_words [of a b c d] by (simp only: GetKey_def k)
qed

lemma store_key_image:
  assumes "length (key k0) = 4" "length (key k) = 4"
  shows "store_key (map uint (GetKey k0)) k = Inr (k\<lparr>key := key k0\<rparr>)"
  using GetKey_words [OF assms(1)] GetKey_words(1) [OF assms(2)] by (simp add: store_key_def Let_def comp_def)

lemma length_new_key [simp]: "length (key (fst (new_key rs))) = 4"
  by (simp add: new_key_def)

lemma wf_set_addr: "wf_sockaddr (address a) \<Longrightarrow> wf_sockaddr (address (SetPort port (SetIP inet ip a)))"
  by (simp add: SetPort_def SetIP_def wf_sockaddr_def)

text \<open>The server's record of a client, and the row of its table, for a registration with the key \<open>k\<close>.\<close>

definition registered :: "'db env \<Rightarrow> aes_key256 \<Rightarrow> reg_doc \<Rightarrow> 'db square \<Rightarrow> 'db square \<Rightarrow> client_register \<Rightarrow> bool" where
  "registered E k doc s s' pclr \<longleftrightarrow>
     timers s' = timers s @ [pclr] \<and> key (c_key pclr) = key k \<and> c_name pclr = c_str (j_name doc) \<and>
     c_tag pclr = c_str (j_tag doc) \<and> c_click pclr = 99999 \<and>
     (\<exists>row. database s' = db_insert E row (database s) \<and> row_client_id row = c_id pclr \<and> row_passwd row = c_passwd pclr \<and>
        row_key row = key k \<and> row_name row = c_name pclr \<and> row_status row = 0)"

lemma register_client_registers:
  assumes "env_register E (c_str (q_data q)) = Inr doc" "j_key doc = map uint (GetKey k)" "length (key k) = 4"
    and "wf_sockaddr (address (q_addr q))"
  shows "\<exists>s' pclr. register_client E q s = Inr s' \<and> registered E k doc s s' pclr \<and> wf_sockaddr (address (c_addr pclr)) \<and>
    req_list s' = req_list s"
proof -
  obtain k1 rs where k1: "new_key (rand_state s) = (k1, rs)" by (cases "new_key (rand_state s)")
  obtain cid rs1 where r1: "rng64 rs = (cid, rs1)" by (cases "rng64 rs")
  obtain pw rs2 where r2: "rng64 rs1 = (pw, rs2)" by (cases "rng64 rs1")
  have "length (key k1) = 4" using length_new_key [of "rand_state s"] k1 by simp
  from store_key_image [OF assms(3) this] show ?thesis
    using assms(1,4) by (simp add: register_client_def k1 r1 r2 assms(2) registered_def wf_set_addr Let_def)
      (auto intro!: exI)
qed

lemma ProcessRequset_registers:
  assumes "req_list s = [q]" "q_type q = ''private request''" "map_of (rids s) (q_id q) = None"
    and "env_register E (c_str (q_data q)) = Inr doc" "j_key doc = map uint (GetKey k)" "length (key k) = 4"
    and "wf_sockaddr (address (q_addr q))"
  shows "\<exists>s' pclr. ProcessRequset E s = Inr s' \<and> registered E k doc s s' pclr \<and> wf_sockaddr (address (c_addr pclr))"
proof -
  obtain s1 pclr where s1: "register_client E q s = Inr s1" "registered E k doc s s1 pclr" "wf_sockaddr (address (c_addr pclr))"
    using register_client_registers [OF assms(4-7), of s] by blast
  obtain p where p: "respond_packet q ''register respond'' status_ok = Inr p"
    using respond_packet_wf [OF assms(7), of "''register respond''" status_ok] by auto
  have "process_request E q s = Inr (s1\<lparr>packets_out := packets_out s1 @ [p]\<rparr>)"
    using assms(2,3) s1(1) p by (simp add: process_request_def send_respond_def)
  then have "ProcessRequset E s = Inr (s1\<lparr>packets_out := packets_out s1 @ [p], req_list := []\<rparr>)"
    using assms(1) request_loop.simps(3) [of E 2047 q "[]"] by (simp add: ProcessRequset_def)
  with s1(2,3) show ?thesis by (auto simp: registered_def)
qed

text \<open>The request \<open>r\<close> arrives with the datagrams.\<close>

definition arrives :: "'db env \<Rightarrow> raw_data \<Rightarrow> sockaddr_in \<Rightarrow> byte list list \<Rightarrow> 'db square \<Rightarrow> request \<Rightarrow> bool" where
  "arrives E rd a dgs s r \<longleftrightarrow> (\<exists>s1 s2 s3 s4 q. on_server (receive_all rd a dgs) s = Inr s1
     \<and> on_server (boxProcessorDeamon rd) s1 = Inr s2 \<and> ProcessRawData s2 = Inr s3 \<and> ProcessPacket E s3 = Inr s4
     \<and> req_list s4 = req_list s @ [q] \<and> q_id q = q_id r \<and> q_type q = q_type r \<and> q_data q = q_data r
     \<and> recv_port q = recv_port r \<and> address (q_addr q) = a
     \<and> boxls s4 = [] \<and> rawdata_in s4 = [] \<and> packets_in s4 = []
     \<and> rids s4 = rids s \<and> timers s4 = timers s \<and> packets_out s4 = packets_out s \<and> database s4 = database s)"

lemma server_round_registers:
  assumes "arrives E rd a dgs s r"
    and "req_list s = []" "q_type r = ''private request''" "map_of (rids s) (q_id r) = None" "wf_sockaddr a"
    and "env_register E (c_str (q_data r)) = Inr doc" "j_key doc = map uint (GetKey k)" "length (key k) = 4"
  shows "\<exists>s' pclr. server_round E rd a dgs s = Inr s' \<and> registered E k doc s s' pclr \<and> wf_sockaddr (address (c_addr pclr))"
proof -
  obtain s1 s2 s3 s4 q where c: "on_server (receive_all rd a dgs) s = Inr s1" "on_server (boxProcessorDeamon rd) s1 = Inr s2"
      "ProcessRawData s2 = Inr s3" "ProcessPacket E s3 = Inr s4"
    and q: "req_list s4 = [q]" "q_id q = q_id r" "q_type q = q_type r" "q_data q = q_data r" "address (q_addr q) = a"
    and s4: "rids s4 = rids s" "timers s4 = timers s" "database s4 = database s"
    using assms(1,2) by (auto simp: arrives_def)
  obtain s' pclr where "ProcessRequset E s4 = Inr s'" "registered E k doc s4 s' pclr" "wf_sockaddr (address (c_addr pclr))"
    using ProcessRequset_registers [of s4 q E doc k] assms q s4 by auto
  then show ?thesis using c s4 by (auto simp: server_round_def registered_def)
qed

section \<open>The commands of the client\<close>

definition next_request :: "client_io \<Rightarrow> string \<Rightarrow> int \<Rightarrow> string \<Rightarrow> string \<Rightarrow> bool \<Rightarrow> 'db run \<Rightarrow> request" where
  "next_request W ip port ty da enc s =
     NewRequest (io_inet W) (fst (rng64 (r_rand s))) ip port ty da enc (client.truncate (r_clt s))"

definition request_ok :: "request \<Rightarrow> bool" where
  "request_ok r \<longleftrightarrow> wf_request r \<and> length (request_bytes r) \<le> BUFSIZ \<and> (request_length r \<le> 256 \<or> request_length r mod 256 \<noteq> 0)"

lemma ask_delivers:
  fixes E :: "'d env" and s :: "'db run"
  assumes r: "r = next_request W ip port ty da True s"
    and ok: "request_ok r" "keys_ok primes draws (sqe_pbc (r_clt s)) (prc sv)"
    and idle: "boxls sv = []" "rawdata_in sv = []" "packets_in sv = []"
  shows "\<exists>dgs s'. ask W ip port ty da True tmo s = Inr (io_serve W r, s')
    \<and> r_sent s' = r_sent s @ [(address (q_addr r), dgs)] \<and> r_db s' = r_db s \<and> post_key (r_clt s') = post_key (r_clt s)
    \<and> (\<forall>js. distinct js \<and> set js = {..< length dgs} \<longrightarrow> arrives E rd a (map ((!) dgs) js) sv r)"
proof -
  obtain r1 rs where r1: "rng64 (r_rand s) = (r1, rs)" by (cases "rng64 (r_rand s)")
  obtain r2 rs2 where r2: "rng64 rs = (r2, rs2)" by (cases "rng64 rs")
  let ?c = "client.truncate (r_clt s)"
  have n: "r = NewRequest (io_inet W) r1 ip port ty da True ?c" by (simp add: r next_request_def r1)
  have k: "q_encrypt r \<longrightarrow> keys_ok primes draws (sqe_pbc ?c) (prc sv)" using ok(2) by (simp add: client.truncate_def)
  have wf: "wf_request r" "length (request_bytes r) \<le> BUFSIZ" "request_length r \<le> 256 \<or> request_length r mod 256 \<noteq> 0"
    using ok(1) by (auto simp: request_ok_def)
  have "\<exists>c' dgs. NewRequestListener r2 r tmo 0 ?c = Inr (c', (address (q_addr r), dgs))
    \<and> (\<forall>js. distinct js \<and> set js = {..< length dgs} \<longrightarrow> arrives E rd a (map ((!) dgs) js) sv r)"
    unfolding arrives_def by (rule request_reaches [OF wf k idle])
  then show ?thesis by (auto simp: ask_def r1 r2 n [symmetric])
qed

text \<open>The request of a registration that starts in the state \<open>s\<close> of the command.\<close>

definition registration_request :: "client_io \<Rightarrow> string \<Rightarrow> int \<Rightarrow> string \<Rightarrow> 'db run \<Rightarrow> request" where
  "registration_request W ip port listen_ip s =
     (let (k, rs) = new_key (r_rand s); c = r_clt s in
      next_request W ip port ''private request'' (io_register W (GetKey k) (name c) (tag_name c) (sqe_key c) 9052 listen_ip)
        True (s\<lparr>r_clt := c\<lparr>post_key := k\<rparr>, r_rand := rs\<rparr>))"

lemma registerSQECallback_ok:
  "js_status J (c_str (chars_of (s_buff res))) = Inr ''ok'' \<Longrightarrow> \<exists>db'. registerSQECallback J Q (Some res) db = Inr (0, db')"
  by (auto simp: registerSQECallback_def Let_def split: sum.split)

lemma register_delivers:
  assumes r: "r = registration_request W ip port listen_ip s" and k: "k = fst (new_key (r_rand s))"
    and ok: "request_ok r" "keys_ok primes draws (sqe_pbc (r_clt s)) (prc sv)"
    and idle: "boxls sv = []" "rawdata_in sv = []" "packets_in sv = []"
    and serve: "io_serve W r = Some res" "js_status (io_json W) (c_str (chars_of (s_buff res))) = Inr ''ok''"
  shows "\<exists>dgs s'. register W Q ip port listen_ip s = Inr (0, s') \<and> post_key (r_clt s') = k
    \<and> r_sent s' = r_sent s @ [(address (q_addr r), dgs)]
    \<and> (\<forall>js. distinct js \<and> set js = {..< length dgs} \<longrightarrow> arrives E rd a (map ((!) dgs) js) sv r)"
proof -
  obtain rs where rs: "new_key (r_rand s) = (k, rs)" using k by (cases "new_key (r_rand s)") simp
  let ?c = "r_clt s" and ?s = "s\<lparr>r_clt := (r_clt s)\<lparr>post_key := k\<rparr>, r_rand := rs\<rparr>"
  let ?da = "io_register W (GetKey k) (name ?c) (tag_name ?c) (sqe_key ?c) 9052 listen_ip"
  have "r = next_request W ip port ''private request'' ?da True ?s"
    by (simp add: r registration_request_def rs Let_def)
  from ask_delivers [OF this ok(1) _ idle, where primes = primes and draws = draws and tmo = 44 and E = E and rd = rd and a = a]
  obtain dgs s1 where a: "ask W ip port ''private request'' ?da True 44 ?s = Inr (Some res, s1)"
    "r_sent s1 = r_sent s @ [(address (q_addr r), dgs)]" "post_key (r_clt s1) = k"
    "\<forall>js. distinct js \<and> set js = {..< length dgs} \<longrightarrow> arrives E rd a (map ((!) dgs) js) sv r"
    using ok(2) serve(1) by auto
  obtain db where "registerSQECallback (io_json W) Q (Some res) (r_db s1) = Inr (0, db)"
    using registerSQECallback_ok [OF serve(2), of Q "r_db s1"] by blast
  then show ?thesis using a by (simp add: register_def rs)
qed

text \<open>What the writer and the reader of the feedback promise each other.\<close>

definition feedback_law :: "json \<Rightarrow> bool" where
  "feedback_law J \<longleftrightarrow> (\<forall>(c :: u64) (p :: u64). let f = js_feedback J (sint c) (sint p) in
     c_str f = f \<and> length f \<le> 8000 \<and> js_read J f = Inr (''ok'', sint c, sint p))"

text \<open>
  The feedback to the client \<open>pclr\<close>, in whatever pieces it arrives, makes a terminal with the key \<open>k\<close> store the
  identifier and the password of \<open>pclr\<close> and wakes the shell.
\<close>

definition feedback_stores :: "(byte list \<Rightarrow> string) \<Rightarrow> json \<Rightarrow> u64 \<Rightarrow> 'db sqlite \<Rightarrow> aes_key256 \<Rightarrow> byte \<Rightarrow> 'db terminal \<Rightarrow>
    client_register \<Rightarrow> bool" where
  "feedback_stores md5 J rnd Q k junk t pclr \<longleftrightarrow>
     (\<exists>msg k'. feedback_message md5 J rnd pclr = Inr (msg, k') \<and>
     (\<forall>ps. concat ps = msg \<longrightarrow> [] \<notin> set ps \<longrightarrow>
       (\<exists>k2. short_connection md5 J Q k junk (map Received ps @ [Received []]) t =
         Inr (t\<lparr>t_db := snd (run_sql Q update_feedback [DInt (sint (c_id pclr)), DInt (sint (c_passwd pclr))] (t_db t)),
                t_buff := bytes_of ''D_OK'' @ drop 4 (t_buff t)\<rparr>, k2))))"


section \<open>A registration that is carried out\<close>

definition int_of :: "string \<Rightarrow> int" where
  "int_of s = (case strto s of None \<Rightarrow> 0 | Some (neg, v) \<Rightarrow> if neg then - int v else int v)"

lemma int_of_show: "int_of (show_int i) = i"
  by (simp add: int_of_def show_int_def strto_show_nat strto_show_neg)

definition law_json :: json where
  "law_json = \<lparr>js_feedback = \<lambda>c p. show_int c @ '';'' @ show_int p,
     js_read = \<lambda>s. Inr (''ok'', int_of (takeWhile (\<lambda>c. c \<noteq> CHR '';'') s), int_of (drop 1 (dropWhile (\<lambda>c. c \<noteq> CHR '';'') s))),
     js_status = \<lambda>_. Inr ''ok'', js_pwd = \<lambda>_. Inr 0\<rparr>"

lemma feedback_law_json: "feedback_law law_json"
proof -
  have "c_str f = f \<and> length f \<le> 8000 \<and> js_read law_json f = Inr (''ok'', sint c, sint p)"
    if f: "f = show_int (sint c) @ '';'' @ show_int (sint p)" for f and c p :: u64
  proof -
    have d: "x \<noteq> CHR '';'' \<and> x \<noteq> CHR 0x00" if "x \<in> set (show_int i)" for x i
      using show_int_chars [OF that] by (auto simp: is_digit_def code_def)
    have len: "length (show_int (sint w)) \<le> 20" for w :: u64
    proof -
      have "\<bar>sint w\<bar> < 10 ^ 19" using sint_greater_eq [of w] sint_less [of w] by simp
      then have "nat (sint w) < 10 ^ Suc 18" "nat (- sint w) < 10 ^ Suc 18" by auto
      from length_show_nat [OF this(1)] length_show_nat [OF this(2)] show ?thesis by (simp add: show_int_def)
    qed
    have "takeWhile (\<lambda>x. x \<noteq> CHR '';'') f = show_int (sint c)" "dropWhile (\<lambda>x. x \<noteq> CHR '';'') f = '';'' @ show_int (sint p)"
      using d by (auto simp: f takeWhile_append dropWhile_append)
    moreover have "c_str f = f" using d by (auto simp: f c_str_def takeWhile_eq_all_conv)
    moreover have "length f \<le> 8000" using len [of c] len [of p] by (simp add: f)
    ultimately show ?thesis by (simp add: law_json_def int_of_show)
  qed
  then show ?thesis by (simp add: feedback_law_def law_json_def)
qed

definition sample_io :: client_io where
  "sample_io = \<lparr>io_inet = \<lambda>_. 0, io_login = \<lambda>_ _. ''login'', io_register = \<lambda>_ _ _ _ _ _. ''register'',
     io_serve = \<lambda>_. Some (new_respond\<lparr>s_buff := status_ok\<rparr>), io_json = law_json\<rparr>"

definition sample_start :: "rsa_key \<Rightarrow> (string \<times> dbval list) list run" where
  "sample_start pub = \<lparr>r_clt = \<lparr>req_lst = [], res_lst = [], listen_port = 9050, sqe_pbc = pub, name = ''n'', tag_name = ''t'',
     sqe_key = ''k'', post_key = sample_key\<rparr>, r_rand = 1, r_db = [], r_sent = []\<rparr>"

definition sample_doc :: reg_doc where
  "sample_doc = \<lparr>j_key = map uint (GetKey (fst (new_key 1))), j_name = ''n'', j_tag = ''t'', j_port = 9052, j_ip = ''127.0.0.1''\<rparr>"

lemma sample_registration_request:
  fixes pub defines "r \<equiv> registration_request sample_io ''127.0.0.1'' 9049 ''127.0.0.1'' (sample_start pub)"
  shows "request_ok r"
proof -
  have f: "q_type r = ''private request''" "q_data r = ''register''" "q_encrypt r"
    by (simp_all add: r_def registration_request_def next_request_def NewRequest_def sample_io_def sample_start_def Let_def split_def)
  have wf: "wf_sockaddr (address (q_addr r))"
    using wf_Addr_empty by (simp add: r_def registration_request_def next_request_def NewRequest_def Let_def split_def
        SetPort_def SetIP_def wf_sockaddr_def)
  then have "length (request_bytes r) = 99"
    by (simp add: request_bytes_def request_blocks_def packet_bytes_def f(1,2))
  moreover have "wf_request r" using wf by (simp add: wf_request_def f)
  ultimately show ?thesis by (simp add: request_ok_def request_length_def f(3) BUFSIZ_def)
qed


section \<open>A login without an answer\<close>

lemma client_login_unknown:
  assumes "client_login E q sv = Inr sv'" "env_login E (c_str (q_data q)) = Inr (lid, lpw)"
    and "db_select E (show_nat (unat (word_of_int lid :: u64))) (database sv) = None"
  shows "packets_out sv' = packets_out sv \<and> timers sv' = timers sv \<and> database sv' = database sv"
  using assms by (auto simp: client_login_def Let_def split_def)

lemma ask_keeps: "ask W ip port ty da enc tmo s = Inr (pres, s') \<Longrightarrow>
    r_db s' = r_db s \<and> (\<exists>x. r_sent s' = r_sent s @ [x]) \<and> (\<exists>q. pres = io_serve W q)"
  by (auto simp: ask_def Let_def split_def)

lemma login_unanswered:
  assumes "login W ip port row s = Inr (w, s')" "io_serve W = (\<lambda>_. None)"
  shows "w = - 1 \<and> r_db s' = r_db s \<and> (\<exists>x. r_sent s' = r_sent s @ [x])"
  using assms by (auto simp: login_def Let_def split_def loginSQECallback_def dest!: ask_keeps)


definition confirmed_sqlite :: "dbval list list sqlite" where
  "confirmed_sqlite = \<lparr>run_sql = \<lambda>sql vals db. (Some ([], if sql = select_registered then [[DInt 1]] else db), db),
     errmsg = \<lambda>_. [], junk_size = 0\<rparr>"

definition confirmed_row :: "dbval list" where
  "confirmed_row = [DInt 5, DText ''n'', DText ''t'', DBlob (replicate 32 CHR ''x''), DInt 6, DInt 1]"

definition confirmed_start :: "rsa_key \<Rightarrow> dbval list list run" where
  "confirmed_start pub = \<lparr>r_clt = r_clt (sample_start pub), r_rand = 1, r_db = [confirmed_row], r_sent = []\<rparr>"

definition silent_io :: client_io where
  "silent_io = sample_io\<lparr>io_serve := \<lambda>_. None\<rparr>"

lemma confirmed_login:
  assumes "keys_ok primes draws pub priv"
  shows "\<exists>w s'. login silent_io ip port (Some confirmed_row) (confirmed_start pub) = Inr (w, s')"
proof -
  obtain k rs where k: "new_key 1 = (k, rs)" by (cases "new_key 1")
  let ?k = "k\<lparr>key := map (\<lambda>i. word_of_nat (le_dec (take 8 (drop (8 * i) (bytes_of (replicate 32 CHR ''x'')))))) [0 ..< 4]\<rparr>"
  let ?s = "(confirmed_start pub)\<lparr>r_clt := (r_clt (confirmed_start pub))\<lparr>post_key := ?k\<rparr>, r_rand := rs\<rparr>"
  let ?r = "next_request silent_io ip port ''client login'' ''login'' True ?s"
  have f: "q_type ?r = ''client login''" "q_data ?r = ''login''" "q_encrypt ?r"
    by (simp_all add: next_request_def NewRequest_def)
  have wf: "wf_sockaddr (address (q_addr ?r))"
    using wf_Addr_empty by (simp add: next_request_def NewRequest_def SetPort_def SetIP_def wf_sockaddr_def)
  then have "length (request_bytes ?r) = 93" by (simp add: request_bytes_def request_blocks_def packet_bytes_def f(1,2))
  moreover have "wf_request ?r" using wf by (simp add: wf_request_def f)
  ultimately have "request_ok ?r" by (simp add: request_ok_def request_length_def f(3) BUFSIZ_def)
  have hyps: "keys_ok primes draws (sqe_pbc (r_clt ?s)) (prc (sample_server priv))" "boxls (sample_server priv) = []"
    "rawdata_in (sample_server priv) = []" "packets_in (sample_server priv) = []"
    using assms by (simp_all add: confirmed_start_def sample_start_def sample_server_def)
  from ask_delivers [OF refl \<open>request_ok ?r\<close> hyps, where tmo = 44 and E = sample_env and rd = "new_raw_data 1 []" and a = zero_sockaddr]
  obtain s' where "ask silent_io ip port ''client login'' ''login'' True 44 ?s = Inr (io_serve silent_io ?r, s')" by blast
  then have "ask silent_io ip port ''client login'' ''login'' True 44 ?s = Inr (None, s')" by (simp add: silent_io_def)
  then show ?thesis
    by (simp add: login_def column_string_def column_def confirmed_row_def confirmed_start_def k cut_def silent_io_def
        sample_io_def loginSQECallback_def eval_nat_numeral)
qed


end
