(* ===== verification/Shell.thy ===== *)
theory Shell
  imports Session
begin

text \<open>
  The shell of a client and its daemon, the two processes at the end of \<open>client\<close> in \<^theory_text>\<open>src/src/controller.cpp\<close>. They
  talk through 1024 bytes of shared memory without a lock: the first four bytes say what the rest means. The model
  interleaves the steps of the shell, of the daemon's loop, of the thread that sends what the shell left, and of the
  threads that report. A step is one look at the memory with what follows it up to the next access that another
  process can come between; the writes of \<open>ping\<close> are one step.
\<close>

section \<open>State\<close>

datatype shell_pc = WaitOk | Prompt | WaitStop | WaitStatus | Left
datatype daemon_pc = Starting | Polling | Answering | Gone
datatype sender_pc = NoSender | Idle | Clearing

record connection_info =
  ci_listen :: bool
  ci_beat :: bool
  ci_send :: bool

definition info_bytes :: "connection_info \<Rightarrow> byte list" where
  "info_bytes i = map (\<lambda>b. if b then 1 else 0) [ci_listen i, ci_beat i, ci_send i]"

definition info_of :: "byte list \<Rightarrow> connection_info" where
  "info_of bs = \<lparr>ci_listen = bs ! 0 \<noteq> 0, ci_beat = bs ! 1 \<noteq> 0, ci_send = bs ! 2 \<noteq> 0\<rparr>"

text \<open>\<open>pending\<close>: the feedback of the server has not come yet. \<open>shown\<close> is what the shell printed, \<open>out\<close> what was sent.\<close>

record sys =
  mem :: "byte list"
  s_pc :: shell_pc
  d_pc :: daemon_pc
  t_pc :: sender_pc
  p_ci :: connection_info
  pending :: bool
  shown :: "connection_info list"
  out :: "byte list list"

definition put :: "nat \<Rightarrow> byte list \<Rightarrow> byte list \<Rightarrow> byte list" where
  "put off xs m = take off m @ xs @ drop (off + length xs) m"

text \<open>What the first four bytes say.\<close>

definition signal :: "byte list \<Rightarrow> string" where
  "signal m = chars_of (take 4 m)"

section \<open>Steps\<close>

text \<open>The daemon answers a request for the state with \<open>RCFO\<close> first, and then copies the state.\<close>

definition daemon_step :: "sys \<Rightarrow> sys" where
  "daemon_step s =
     (case d_pc s of
        Starting \<Rightarrow> s\<lparr>mem := put 0 (replicate 4 0) (mem s), d_pc := Polling\<rparr>
      | Polling \<Rightarrow>
          if signal (mem s) = ''CIFO'' then s\<lparr>mem := put 0 (bytes_of ''RCFO'') (mem s), d_pc := Answering\<rparr>
          else if signal (mem s) = ''Exit'' then s\<lparr>mem := put 0 (bytes_of ''SEXT'') (mem s), d_pc := Gone, t_pc := NoSender\<rparr>
          else s
      | Answering \<Rightarrow> s\<lparr>mem := put 4 (info_bytes (p_ci s)) (mem s), d_pc := Polling\<rparr>
      | Gone \<Rightarrow> s)"

definition sender_step :: "sys \<Rightarrow> sys" where
  "sender_step s =
     (case t_pc s of
        NoSender \<Rightarrow> s
      | Idle \<Rightarrow>
          if signal (mem s) = ''SDAT'' then
            (case shared_message (mem s) of
               Inr (Some msg) \<Rightarrow> s\<lparr>out := out s @ [msg], t_pc := Clearing\<rparr>
             | Inr None \<Rightarrow> s\<lparr>t_pc := Clearing\<rparr>
             | Inl e \<Rightarrow> s\<lparr>t_pc := NoSender\<rparr>)
          else s
      | Clearing \<Rightarrow> s\<lparr>mem := put 0 (replicate 4 0) (mem s), t_pc := Idle\<rparr>)"

definition shell_poll :: "sys \<Rightarrow> sys" where
  "shell_poll s =
     (case s_pc s of
        WaitOk \<Rightarrow> if signal (mem s) = ''D_OK'' then s\<lparr>mem := put 0 (replicate 4 0) (mem s), s_pc := Prompt\<rparr> else s
      | WaitStop \<Rightarrow> if signal (mem s) = ''SEXT'' then s\<lparr>s_pc := Prompt\<rparr> else s
      | WaitStatus \<Rightarrow>
          if signal (mem s) = ''RCFO'' then
            s\<lparr>shown := shown s @ [info_of (drop 4 (mem s))], mem := put 0 (replicate 4 0) (mem s), s_pc := Prompt\<rparr>
          else s
      | _ \<Rightarrow> s)"

text \<open>\<open>info\<close> reads the database and every other line does nothing.\<close>

definition shell_command :: "string \<Rightarrow> sys \<Rightarrow> sys" where
  "shell_command cmd s =
     (if cmd = ''stop'' then s\<lparr>mem := put 0 (bytes_of ''Exit'') (mem s), s_pc := WaitStop\<rparr>
      else if cmd = ''status'' then s\<lparr>mem := put 0 (bytes_of ''CIFO'') (mem s), s_pc := WaitStatus\<rparr>
      else if cmd = ''quit'' then s\<lparr>s_pc := Left\<rparr>
      else if cmd = ''ping'' then (case ping_command (mem s) of Inr m \<Rightarrow> s\<lparr>mem := m\<rparr> | Inl e \<Rightarrow> s)
      else s)"

inductive step :: "string set \<Rightarrow> sys \<Rightarrow> sys \<Rightarrow> bool" for cmds where
  daemon: "step cmds s (daemon_step s)"
| sender: "step cmds s (sender_step s)"
| poll: "step cmds s (shell_poll s)"
| command: "s_pc s = Prompt \<Longrightarrow> cmd \<in> cmds \<Longrightarrow> step cmds s (shell_command cmd s)"
| feedback: "pending s \<Longrightarrow> d_pc s \<noteq> Gone \<Longrightarrow> step cmds s (s\<lparr>mem := put 0 (bytes_of ''D_OK'') (mem s), pending := False\<rparr>)"
| connect: "t_pc s = NoSender \<Longrightarrow> d_pc s \<noteq> Gone \<Longrightarrow> step cmds s (s\<lparr>t_pc := Idle, p_ci := (p_ci s)\<lparr>ci_listen := True\<rparr>\<rparr>)"
| beat: "d_pc s \<noteq> Gone \<Longrightarrow> step cmds s (s\<lparr>p_ci := (p_ci s)\<lparr>ci_beat := True\<rparr>\<rparr>)"

inductive_cases stepE: "step cmds s s'"

definition start :: sys where
  "start = \<lparr>mem = replicate 1024 0, s_pc = WaitOk, d_pc = Starting, t_pc = NoSender,
     p_ci = \<lparr>ci_listen = False, ci_beat = False, ci_send = False\<rparr>, pending = True, shown = [], out = []\<rparr>"

section \<open>The first four bytes\<close>

lemma signal_put [simp]: "length t = 4 \<Longrightarrow> signal (put 0 (bytes_of t) m) = t"
  by (simp add: signal_def put_def chars_of_bytes_of)

lemma signal_zeros [simp]: "signal (put 0 (replicate 4 0) m) = [CHR 0x00, CHR 0x00, CHR 0x00, CHR 0x00]"
proof -
  have "chars_of (replicate 4 0) = [CHR 0x00, CHR 0x00, CHR 0x00, CHR 0x00]" by code_simp
  then show ?thesis by (simp add: signal_def put_def)
qed

lemma signal_put_behind [simp]: "4 \<le> length m \<Longrightarrow> signal (put 4 xs m) = signal m"
  by (simp add: signal_def put_def)

lemma length_put [simp]: "off + length xs \<le> length m \<Longrightarrow> length (put off xs m) = length m"
  by (simp add: put_def)

lemma drop_put [simp]: "length t = 4 \<Longrightarrow> drop 4 (put 0 (bytes_of t) m) = drop 4 m"
  by (simp add: put_def)

lemma length_info_bytes [simp]: "length (info_bytes i) = 3"
  by (simp add: info_bytes_def)

section \<open>Runs\<close>

inductive reach :: "string set \<Rightarrow> sys \<Rightarrow> sys \<Rightarrow> bool" for cmds s0 where
  here: "reach cmds s0 s0"
| then_step: "reach cmds s0 s \<Longrightarrow> step cmds s s' \<Longrightarrow> reach cmds s0 s'"

lemma reach_invariant:
  assumes "reach cmds s0 s" "I s0" "\<And>s s'. I s \<Longrightarrow> step cmds s s' \<Longrightarrow> I s'"
  shows "I s"
  using assms by (induction rule: reach.induct) auto

lemma command_reach: "reach cmds s0 s \<Longrightarrow> s_pc s = Prompt \<Longrightarrow> c \<in> cmds \<Longrightarrow> reach cmds s0 (shell_command c s)"
  by (blast intro: then_step command)

section \<open>A request for the state\<close>

text \<open>Behind the start, with no message of a \<open>ping\<close> in the memory.\<close>

definition ready :: "sys \<Rightarrow> bool" where
  "ready s \<longleftrightarrow> s_pc s = Prompt \<and> d_pc s = Polling \<and> \<not> pending s \<and> t_pc s \<noteq> Clearing \<and> 8 \<le> length (mem s) \<and> signal (mem s) \<noteq> ''SDAT''"

definition undisturbed :: "sys \<Rightarrow> bool" where
  "undisturbed s \<longleftrightarrow> 8 \<le> length (mem s) \<and> \<not> pending s \<and> t_pc s \<noteq> Clearing \<and> d_pc s \<noteq> Starting \<and> s_pc s \<noteq> WaitOk \<and>
     signal (mem s) \<noteq> ''SDAT'' \<and> (s_pc s = WaitStatus \<longrightarrow> signal (mem s) = ''CIFO'' \<or> signal (mem s) = ''RCFO'')"

lemma undisturbed_daemon: "undisturbed s \<Longrightarrow> undisturbed (daemon_step s)"
  by (cases "d_pc s") (auto simp: undisturbed_def daemon_step_def)

lemma undisturbed_sender: "undisturbed s \<Longrightarrow> undisturbed (sender_step s)"
  by (cases "t_pc s") (auto simp: undisturbed_def sender_step_def)

lemma undisturbed_poll: "undisturbed s \<Longrightarrow> undisturbed (shell_poll s)"
  by (cases "s_pc s") (auto simp: undisturbed_def shell_poll_def)

lemma undisturbed_command: "undisturbed s \<Longrightarrow> s_pc s = Prompt \<Longrightarrow> c \<noteq> ''ping'' \<Longrightarrow> undisturbed (shell_command c s)"
  by (auto simp: undisturbed_def shell_command_def)

lemma undisturbed_report: "undisturbed s \<Longrightarrow> undisturbed (s\<lparr>p_ci := i\<rparr>)" "undisturbed s \<Longrightarrow> undisturbed (s\<lparr>t_pc := Idle, p_ci := i\<rparr>)"
  "undisturbed s \<Longrightarrow> \<not> pending s"
  by (simp_all add: undisturbed_def)

lemma undisturbed_step: "undisturbed s \<Longrightarrow> step (UNIV - {''ping''}) s s' \<Longrightarrow> undisturbed s'"
  by (erule stepE) (auto intro: undisturbed_daemon undisturbed_sender undisturbed_poll undisturbed_command
      undisturbed_report(1,2) dest: undisturbed_report(3))

lemma answered_at_once:
  "s_pc s = WaitStatus \<Longrightarrow> signal (mem s) = ''RCFO'' \<Longrightarrow>
     s_pc (shell_poll s) = Prompt \<and> shown (shell_poll s) = shown s @ [info_of (drop 4 (mem s))]"
  by (simp add: shell_poll_def)


definition ready_state :: sys where
  "ready_state = start\<lparr>s_pc := Prompt, d_pc := Polling, pending := False\<rparr>"


section \<open>Runs that hang\<close>

definition stuck :: "sys \<Rightarrow> bool" where
  "stuck s \<longleftrightarrow> (\<forall>s'. reach UNIV s s' \<longrightarrow> s_pc s' = s_pc s)"

text \<open>Nobody has anything to do, except to report.\<close>

definition silent :: "shell_pc \<Rightarrow> sys \<Rightarrow> bool" where
  "silent pc s \<longleftrightarrow> s_pc s = pc \<and> \<not> pending s \<and> t_pc s \<noteq> Clearing \<and>
     (d_pc s = Polling \<and> signal (mem s) = [CHR 0x00, CHR 0x00, CHR 0x00, CHR 0x00] \<or> d_pc s = Gone \<and> signal (mem s) = ''CIFO'')"

lemma silent_step: "pc \<in> {WaitOk, WaitStop, WaitStatus} \<Longrightarrow> silent pc s \<Longrightarrow> step cmds s s' \<Longrightarrow> silent pc s'"
  by (erule stepE) (auto simp: silent_def daemon_step_def sender_step_def shell_poll_def
      split: sender_pc.splits shell_pc.splits)

lemma silent_stuck: "silent pc s \<Longrightarrow> pc \<in> {WaitOk, WaitStop, WaitStatus} \<Longrightarrow> stuck s"
  using reach_invariant [where I = "silent pc"] silent_step unfolding stuck_def by (metis silent_def)

text \<open>A run to the first prompt: the daemon starts, a connection for sending is open, and the feedback is taken.\<close>

lemma at_prompt:
  "\<exists>s. reach cmds start s \<and> s_pc s = Prompt \<and> d_pc s = Polling \<and> t_pc s = Idle \<and> \<not> pending s \<and> length (mem s) = 1024 \<and>
     signal (mem s) = [CHR 0x00, CHR 0x00, CHR 0x00, CHR 0x00] \<and> shown s = [] \<and> ci_listen (p_ci s) \<and> drop 4 (mem s) = replicate 1020 0"
proof -
  let ?d = "daemon_step start"
  let ?c = "?d\<lparr>t_pc := Idle, p_ci := (p_ci ?d)\<lparr>ci_listen := True\<rparr>\<rparr>"
  let ?f = "?c\<lparr>mem := put 0 (bytes_of ''D_OK'') (mem ?c), pending := False\<rparr>"
  have d: "t_pc ?d = NoSender" "d_pc ?d \<noteq> Gone" "pending ?c" "d_pc ?c \<noteq> Gone"
    by (simp_all add: daemon_step_def start_def)
  have "reach cmds start (shell_poll ?f)"
    by (rule then_step [OF then_step [OF then_step [OF then_step [OF here daemon] connect [OF d(1,2)]] feedback [OF d(3,4)]] poll])
  moreover have "shell_poll ?f = ?f\<lparr>mem := put 0 (replicate 4 0) (mem ?f), s_pc := Prompt\<rparr>"
    by (simp add: shell_poll_def daemon_step_def start_def)
  moreover have "drop 4 (put 0 (replicate 4 0) (put 0 (bytes_of ''D_OK'') (put 0 (replicate 4 0) (replicate 1024 (0 :: byte))))) = replicate 1020 0"
    by (simp add: put_def)
  ultimately show ?thesis
    by (intro exI [of _ "shell_poll ?f"]) (simp add: daemon_step_def start_def)
qed

lemma signal_take: "signal m = t \<Longrightarrow> length t = 4 \<Longrightarrow> take 4 m = bytes_of t"
  by (auto simp: signal_def bytes_of_chars_of)

text \<open>The sender clears the memory that it sent from, and with it a request that came in between.\<close>

lemma ping_hang:
  "\<exists>s. reach {''ping'', ''status''} start s \<and> s_pc s = WaitStatus \<and> d_pc s = Polling \<and> t_pc s = Idle \<and> stuck s"
proof -
  let ?cs = "{''ping'', ''status''}"
  obtain s where s: "reach ?cs start s" "s_pc s = Prompt" "d_pc s = Polling" "t_pc s = Idle" "\<not> pending s"
    "length (mem s) = 1024" "signal (mem s) = [CHR 0x00, CHR 0x00, CHR 0x00, CHR 0x00]"
    using at_prompt by blast
  have "take 4 (mem s) \<noteq> bytes_of ''WAIT''" using signal_take [OF s(7)] by (simp add: bytes_of_inject)
  then obtain m msg where m: "ping_command (mem s) = Inr m" "take 4 m = bytes_of ''SDAT''" "shared_message m = Inr (Some msg)"
    using ping_left [of "mem s"] s(6) by auto
  have p: "shell_command ''ping'' s = s\<lparr>mem := m\<rparr>" by (simp add: shell_command_def m(1))
  have "signal m = ''SDAT''" by (simp add: signal_def m(2))
  then have c: "sender_step (s\<lparr>mem := m\<rparr>) = s\<lparr>mem := m, out := out s @ [msg], t_pc := Clearing\<rparr>"
    using s(4) m(3) by (simp add: sender_step_def)
  let ?q = "shell_command ''status'' (s\<lparr>mem := m, out := out s @ [msg], t_pc := Clearing\<rparr>)"
  have "reach ?cs start (s\<lparr>mem := m\<rparr>)"
    using command_reach [OF s(1,2), of "''ping''"] p by simp
  then have "reach ?cs start (s\<lparr>mem := m, out := out s @ [msg], t_pc := Clearing\<rparr>)"
    using then_step [OF _ sender] c by metis
  then have "reach ?cs start ?q" by (rule command_reach) (simp_all add: s(2))
  then have r: "reach ?cs start (sender_step ?q)" by (rule then_step [OF _ sender])
  have "silent WaitStatus (sender_step ?q)"
    using s by (simp add: silent_def sender_step_def shell_command_def)
  then show ?thesis using r s silent_stuck
    by (intro exI [of _ "sender_step ?q"]) (simp add: sender_step_def shell_command_def)
qed

text \<open>The daemon clears the memory after it started the thread that takes connections.\<close>

lemma start_hang: "\<exists>s. reach {} start s \<and> s_pc s = WaitOk \<and> d_pc s = Polling \<and> stuck s"
proof -
  let ?f = "start\<lparr>mem := put 0 (bytes_of ''D_OK'') (mem start), pending := False\<rparr>"
  have "reach {} start (daemon_step ?f)"
    by (rule then_step [OF then_step [OF here feedback] daemon]) (simp_all add: start_def)
  moreover have "silent WaitOk (daemon_step ?f)" by (simp add: silent_def daemon_step_def start_def)
  ultimately show ?thesis using silent_stuck
    by (intro exI [of _ "daemon_step ?f"]) (simp add: daemon_step_def start_def)
qed

text \<open>The shell goes on when it has stopped the daemon.\<close>

lemma stop_hang: "\<exists>s. reach {''stop'', ''status''} start s \<and> s_pc s = WaitStatus \<and> d_pc s = Gone \<and> stuck s"
proof -
  let ?cs = "{''stop'', ''status''}"
  obtain s where s: "reach ?cs start s" "s_pc s = Prompt" "d_pc s = Polling" "t_pc s = Idle" "\<not> pending s"
    using at_prompt by blast
  let ?g = "shell_poll (daemon_step (shell_command ''stop'' s))" and ?h = "\<lambda>s. shell_command ''status'' s"
  have g: "s_pc ?g = Prompt" "d_pc ?g = Gone" "t_pc ?g = NoSender" "\<not> pending ?g"
    using s by (simp_all add: shell_poll_def daemon_step_def shell_command_def)
  have "reach ?cs start (shell_command ''stop'' s)" by (rule command_reach [OF s(1,2)]) simp
  then have "reach ?cs start ?g" by (rule then_step [OF then_step [OF _ daemon] poll])
  then have "reach ?cs start (?h ?g)" by (rule command_reach) (simp_all add: g(1))
  moreover have "silent WaitStatus (?h ?g)" using g by (simp add: silent_def shell_command_def)
  ultimately show ?thesis using g silent_stuck by (intro exI [of _ "?h ?g"]) (simp add: shell_command_def)
qed

text \<open>
  C32. The shell can hang for good. With a \<open>ping\<close>: the sending thread clears the memory after it has sent, and with it
  a request for the state that the shell has made meanwhile; the daemon and the sender run on, but neither answers,
  whatever anybody does. At the start: the feedback of the server that comes before the daemon clears the memory is
  lost, and the shell never shows its prompt. After \<open>stop\<close>: a request to the daemon that is gone.
\<close>

theorem shell_may_hang:
  "(\<exists>s. reach {''ping'', ''status''} start s \<and> s_pc s = WaitStatus \<and> d_pc s = Polling \<and> t_pc s = Idle \<and> stuck s)
   \<and> (\<exists>s. reach {} start s \<and> s_pc s = WaitOk \<and> d_pc s = Polling \<and> stuck s)
   \<and> (\<exists>s. reach {''stop'', ''status''} start s \<and> s_pc s = WaitStatus \<and> d_pc s = Gone \<and> stuck s)"
  using ping_hang start_hang stop_hang by blast

section \<open>A state that is out of date\<close>

text \<open>
  The daemon says that the state is there before it copies it: a shell that looks in between prints what was in the
  memory, here that there is no connection, although it has been open since before the question.
\<close>

lemma status_may_be_stale:
  "\<exists>s s'. reach {''status''} start s \<and> s_pc s = Prompt \<and> shown s = [] \<and> ci_listen (p_ci s) \<and> reach {''status''} s s' \<and>
     (\<exists>i. shown s' = [i] \<and> \<not> ci_listen i)"
proof -
  obtain s where s: "reach {''status''} start s" "s_pc s = Prompt" "d_pc s = Polling" "shown s = []" "ci_listen (p_ci s)"
    "length (mem s) = 1024" "drop 4 (mem s) = replicate 1020 0"
    using at_prompt by blast
  let ?s' = "shell_poll (daemon_step (shell_command ''status'' s))"
  have "reach {''status''} s (shell_command ''status'' s)" by (rule command_reach [OF here s(2)]) simp
  then have "reach {''status''} s ?s'" by (rule then_step [OF then_step [OF _ daemon] poll])
  moreover have "shown ?s' = [info_of (replicate 1020 0)]"
    using s by (simp add: shell_poll_def daemon_step_def shell_command_def)
  ultimately show ?thesis using s by (intro exI [of _ s] exI [of _ ?s']) (simp add: info_of_def)
qed

end
