(* ===== verification/Results.thy ===== *)
theory Results
  imports CThread RawData
begin

text \<open>
  Results of computations as packets: \<open>CPURS2Packet\<close> and \<open>Packet2CPUR\<close> of the class \<open>CNodeServer\<close> in
  \<^theory_text>\<open>src/src/server.cpp\<close>. The block with the name points into an argument that is gone when the function has
  returned; here it holds what it pointed to. \<open>types_in\<close> and \<open>types_out\<close> are the types of the arguments
  (\<open>fargs_in\<close>, \<open>fargs_out\<close>), 0 for \<open>INT\<close> and 1 for \<open>DOUBLE\<close>.
\<close>

section \<open>Writing\<close>

fun write_values :: "int list \<Rightarrow> nat \<Rightarrow> nat list \<Rightarrow> pool \<Rightarrow> byte list list res" where
  "write_values fargs count [] p = Inr []"
| "write_values fargs count (ptr # ptrs) p =
     bind_res (at fargs count) (\<lambda>t.
     bind_res (if t = 0 then bind_res (block_at ptr p) (\<lambda>b. bind_res (cut b 0 4) (\<lambda>b. Inr [b]))
               else if t = 1 then bind_res (block_at ptr p) (\<lambda>b. bind_res (cut b 0 8) (\<lambda>b. Inr [b]))
               else Inr []) (\<lambda>bs.
     bind_res (write_values fargs (count + 1) ptrs p) (\<lambda>rest. Inr (bs @ rest))))"

definition CPURS2Packet :: "pool \<Rightarrow> int list \<Rightarrow> int list \<Rightarrow> compute_result \<Rightarrow> packet res" where
  "CPURS2Packet p types_in types_out tcpur =
     bind_res (write_values types_in 0 (cr_args_in tcpur) p) (\<lambda>ins.
     case cr_args_out tcpur of
       None \<Rightarrow> Inl OutOfBounds
     | Some outs_r \<Rightarrow>
         bind_res (write_values types_out 0 outs_r p) (\<lambda>outs.
           Inr ((new_packet 0 zero_sockaddr)\<lparr>ptype := 0, buffs :=
             [bytes_of (cr_name tcpur), le_enc 4 (length (cr_args_in tcpur))] @ ins @ [le_enc 4 (length outs_r)] @ outs\<rparr>)))"

section \<open>Reading\<close>

definition index :: "'a list \<Rightarrow> int \<Rightarrow> 'a res" where
  "index xs i = (if 0 \<le> i \<and> i < int (length xs) then Inr (xs ! nat i) else Inl OutOfBounds)"

definition int_block :: "byte list list \<Rightarrow> int \<Rightarrow> int res" where
  "int_block bs i = bind_res (index bs i) (\<lambda>b. bind_res (cut b 0 4) (\<lambda>b. Inr (sint (word_of_nat (le_dec b) :: u32))))"

text \<open>\<open>n\<close> turns of a loop that stores block \<open>i + 1\<close> at place \<open>i\<close> of a vector.\<close>

fun copy_args :: "nat \<Rightarrow> int \<Rightarrow> byte list list \<Rightarrow> byte list list \<Rightarrow> byte list list res" where
  "copy_args 0 i bs v = Inr v"
| "copy_args (Suc n) i bs v =
     bind_res (index bs (i + 1)) (\<lambda>b. bind_res (index v i) (\<lambda>_. copy_args n (i + 1) bs (v[nat i := b])))"

definition Packet2CPUR :: "packet \<Rightarrow> (byte list list \<times> byte list list) res" where
  "Packet2CPUR tpkt =
     (if ptype tpkt = 0 then
        bind_res (int_block (buffs tpkt) 0) (\<lambda>nargs_in.
        bind_res (int_block (buffs tpkt) (nargs_in + 1)) (\<lambda>nargs_out.
        bind_res (copy_args (nat nargs_in) 0 (buffs tpkt) []) (\<lambda>ins.
        bind_res (copy_args (nat (nargs_out + 1)) (nargs_in + 1) (buffs tpkt) []) (\<lambda>outs.
          Inr (ins, outs)))))
      else Inr ([], []))"

section \<open>Nothing can be read\<close>

lemma index_empty [simp]: "index [] i = Inl OutOfBounds"
  by (simp add: index_def)

lemma copy_args_empty: "copy_args n i bs [] = (if n = 0 then Inr [] else Inl OutOfBounds)"
  by (cases n) (auto simp: index_def bind_res_def)

lemma int_block_cases: "int_block bs i = Inl OutOfBounds \<or> (\<exists>x. int_block bs i = Inr x)"
  by (auto simp: int_block_def index_def cut_def)

lemma sint_small: "n < 2 ^ 31 \<Longrightarrow> sint (word_of_nat n :: u32) = int n"
  by (simp add: signed_of_nat signed_take_bit_int_eq_self)

lemma int_block_count: "n < 2 ^ 31 \<Longrightarrow> int_block (b # le_enc 4 n # bs) 1 = Inr (int n)"
proof -
  assume n: "n < 2 ^ 31"
  from sint_small [OF n] have "sint (word_of_nat n :: u32) = int n" .
  moreover have "le_dec (le_enc 4 n) = n" using n by (intro le_dec_enc) simp
  ultimately show ?thesis by (simp add: int_block_def index_def cut_def)
qed

text \<open>
  No result of a computation can be read back from its packet: \<open>Packet2CPUR\<close> takes the first block, which holds the
  name, for the number of inputs, and stores what it reads into empty vectors. It fails for every packet that
  \<open>CPURS2Packet\<close> writes, unless the first four bytes of the name read as -1; then it answers without any argument.
\<close>

theorem results_unreadable:
  assumes "CPURS2Packet p fi fo r = Inr pkt" "length (cr_args_in r) < 2 ^ 31"
  shows "Packet2CPUR pkt = Inl OutOfBounds \<or>
    sint (word_of_nat (le_dec (take 4 (bytes_of (cr_name r)))) :: u32) = - 1 \<and> Packet2CPUR pkt = Inr ([], [])"
proof -
  let ?b = "bytes_of (cr_name r)"
  obtain rest where pkt: "ptype pkt = 0" "buffs pkt = ?b # le_enc 4 (length (cr_args_in r)) # rest"
    using assms(1) by (auto simp: CPURS2Packet_def split: option.split_asm)
  have b0: "int_block (buffs pkt) 0 = (if length ?b < 4 then Inl OutOfBounds
      else Inr (sint (word_of_nat (le_dec (take 4 ?b)) :: u32)))"
    by (simp add: pkt int_block_def index_def cut_def)
  show ?thesis
  proof (cases "length ?b < 4")
    case True
    then show ?thesis using b0 pkt(1) by (simp add: Packet2CPUR_def)
  next
    case False
    define i where "i = sint (word_of_nat (le_dec (take 4 ?b)) :: u32)"
    have i: "int_block (buffs pkt) 0 = Inr i" using b0 False by (simp add: i_def)
    consider "i < - 1" | "i = - 1" | "i = 0" | "0 < i" by linarith
    then show ?thesis
    proof cases
      case 1
      then have "int_block (buffs pkt) (i + 1) = Inl OutOfBounds" by (simp add: int_block_def index_def)
      then show ?thesis using i pkt(1) by (simp add: Packet2CPUR_def)
    next
      case 2
      then show ?thesis using i pkt(1) by (simp add: Packet2CPUR_def copy_args_empty i_def [symmetric])
    next
      case 3
      have "int_block (buffs pkt) 1 = Inr (int (length (cr_args_in r)))"
        unfolding pkt(2) using assms(2) by (rule int_block_count)
      then show ?thesis using i 3 pkt(1) by (simp add: Packet2CPUR_def copy_args_empty)
    next
      case 4
      then show ?thesis using i pkt(1) int_block_cases [of "buffs pkt" "i + 1"]
        by (auto simp: Packet2CPUR_def copy_args_empty)
    qed
  qed
qed

theorem results_unreadable_witness:
  "\<exists>pkt. CPURS2Packet sample_pool [] [] \<lparr>cr_name = ''solve'', cr_args_in = [], cr_args_out = Some []\<rparr> = Inr pkt
    \<and> Packet2CPUR pkt = Inl OutOfBounds"
proof -
  let ?r = "\<lparr>cr_name = ''solve'', cr_args_in = [], cr_args_out = Some []\<rparr>"
  obtain pkt where pkt: "CPURS2Packet sample_pool [] [] ?r = Inr pkt" by (simp add: CPURS2Packet_def)
  have "sint (word_of_nat (le_dec (take 4 (bytes_of (cr_name ?r)))) :: u32) \<noteq> - 1"
  proof -
    have "take 4 (bytes_of (cr_name ?r)) = [0x73, 0x6F, 0x6C, 0x76]" by code_simp
    then have "le_dec (take 4 (bytes_of (cr_name ?r))) < 2 ^ 31" by (simp only:) simp
    from sint_small [OF this] show ?thesis by linarith
  qed
  moreover have "length (cr_args_in ?r) < 2 ^ 31" by simp
  ultimately show ?thesis using results_unreadable [OF pkt] pkt by blast
qed

end
