(* ===== verification/TcpServer.thy ===== *)
theory TcpServer
  imports CStrings "HOL-Library.Sublist"
begin

text \<open>
  The classes \<open>TCPServer\<close> and \<open>TCPClient\<close> of \<^theory_text>\<open>src/src/communicate\<close>. Every connection of the server has a thread
  that collects what its client sends and, when the client is done, pushes all of it into the queue that
  \<open>readByte\<close> reads from. The model interleaves the steps of the threads: one turn of the receiving loop, the
  decision after it with the lock, one byte pushed, one call of \<open>readByte\<close>. What the system calls return is an
  argument; \<open>err\<close> is the text of \<open>strerror(errno)\<close>. The specification is a mailbox in which the data of a
  connection arrives as one letter.
\<close>

section \<open>State\<close>

text \<open>
  \<open>Pushing bs\<close>: the thread holds the mutex and has \<open>bs\<close> left to push. \<open>p_conn_mgr_thrd\<close> says whether the thread
  object it points to still exists; \<open>None\<close> is the uninitialised pointer.
\<close>

datatype conn = Reading "byte list" | Leaving "byte list" | Pushing "byte list"

record tcp_server =
  fd :: int
  status :: int
  recv_buff :: "byte list"
  buff_mutex :: "nat option"
  conns :: "nat \<Rightarrow> conn option"
  p_conn_mgr_thrd :: "bool option"

section \<open>Operations of the server\<close>

definition create_socket :: "string \<Rightarrow> int \<Rightarrow> int \<Rightarrow> tcp_server \<Rightarrow> tcp_server res" where
  "create_socket err sock bound s =
     (if sock < 0 then Inl (RuntimeError err)
      else if bound < 0 then Inl (RuntimeError err)
      else Inr (s\<lparr>fd := sock\<rparr>))"

text \<open>\<open>cycle\<close> stores the address of its local variable, which ends with the call.\<close>

definition cycle :: "tcp_server \<Rightarrow> tcp_server" where
  "cycle s = s\<lparr>p_conn_mgr_thrd := Some False\<rparr>"

definition TCPServer :: "string \<Rightarrow> int \<Rightarrow> int \<Rightarrow> int \<Rightarrow> tcp_server res" where
  "TCPServer err sock bound listening =
     bind_res (create_socket err sock bound
       \<lparr>fd = 0, status = 0, recv_buff = [], buff_mutex = None, conns = Map.empty, p_conn_mgr_thrd = None\<rparr>) (\<lambda>s.
     if listening < 0 then Inl (RuntimeError err) else Inr (cycle s))"

definition stop :: "tcp_server \<Rightarrow> tcp_server res" where
  "stop s = (case p_conn_mgr_thrd s of
       Some True \<Rightarrow> Inr (s\<lparr>status := -1\<rparr>)
     | _ \<Rightarrow> Inl UseAfterFree)"

text \<open>One turn of \<open>connection_manager\<close>: a descriptor, or the exception that leaves its thread.\<close>

definition connection_manager :: "string \<Rightarrow> int \<Rightarrow> tcp_server \<Rightarrow> tcp_server res" where
  "connection_manager err connect_fd s =
     (if connect_fd < 0 then Inl (RuntimeError err)
      else Inr (s\<lparr>conns := (conns s)(nat connect_fd \<mapsto> Reading [])\<rparr>))"

text \<open>
  The function \<open>accept\<close> of a connection: \<open>recv_turn\<close> is one turn of the loop, with the empty list for a result of
  \<open>recv\<close> that is zero or negative; \<open>leave_turn\<close> tests the status and waits for the mutex; \<open>push_turn\<close> pushes a byte,
  or unlocks the mutex and closes the descriptor.
\<close>

definition recv_turn :: "nat \<Rightarrow> byte list \<Rightarrow> tcp_server \<Rightarrow> tcp_server" where
  "recv_turn c buff s = (case conns s c of
       Some (Reading b) \<Rightarrow>
         (if buff \<noteq> [] \<and> status s = 0 then s\<lparr>conns := (conns s)(c \<mapsto> Reading (b @ buff))\<rparr>
          else s\<lparr>conns := (conns s)(c \<mapsto> Leaving b)\<rparr>)
     | _ \<Rightarrow> s)"

definition leave_turn :: "nat \<Rightarrow> tcp_server \<Rightarrow> tcp_server" where
  "leave_turn c s = (case conns s c of
       Some (Leaving b) \<Rightarrow>
         (if status s \<noteq> 0 then s\<lparr>conns := (conns s)(c := None)\<rparr>
          else if buff_mutex s = None then s\<lparr>conns := (conns s)(c \<mapsto> Pushing b), buff_mutex := Some c\<rparr>
          else s)
     | _ \<Rightarrow> s)"

definition push_turn :: "nat \<Rightarrow> tcp_server \<Rightarrow> tcp_server" where
  "push_turn c s = (case conns s c of
       Some (Pushing (i # b)) \<Rightarrow> s\<lparr>recv_buff := recv_buff s @ [i], conns := (conns s)(c \<mapsto> Pushing b)\<rparr>
     | Some (Pushing []) \<Rightarrow> s\<lparr>buff_mutex := None, conns := (conns s)(c := None)\<rparr>
     | _ \<Rightarrow> s)"

text \<open>\<open>try_lock\<close> does not wait and its result is not used, so \<open>unlock\<close> also runs when a thread holds the mutex.\<close>

definition readByte :: "tcp_server \<Rightarrow> (byte \<times> tcp_server) res" where
  "readByte s = (case buff_mutex s of
       Some c \<Rightarrow> Inl ForeignUnlock
     | None \<Rightarrow> (case recv_buff s of
         [] \<Rightarrow> Inr (0, s)
       | b # bs \<Rightarrow> Inr (b, s\<lparr>recv_buff := bs\<rparr>)))"

section \<open>The client\<close>

text \<open>\<open>closed\<close> lists the descriptors given to \<open>close\<close>, in order. Nothing reads \<open>recv_stream\<close>.\<close>

record tcp_client =
  cfd :: int
  closed :: "int list"
  recv_stream :: "byte list"

definition new_client :: tcp_client where
  "new_client = \<lparr>cfd = 0, closed = [], recv_stream = []\<rparr>"

text \<open>The receiving thread: what the calls of \<open>recv\<close> give, up to one with nothing.\<close>

fun recv_data :: "byte list list \<Rightarrow> tcp_client \<Rightarrow> tcp_client" where
  "recv_data [] k = k"
| "recv_data (buff # rest) k =
     (if buff = [] then k else recv_data rest (k\<lparr>recv_stream := recv_stream k @ buff\<rparr>))"

definition create_socket_and_connection :: "string \<Rightarrow> int \<Rightarrow> int \<Rightarrow> tcp_client \<Rightarrow> tcp_client \<times> unit res" where
  "create_socket_and_connection err sock connected k =
     (let k = k\<lparr>cfd := sock\<rparr> in
      if sock < 0 then (k, Inl (RuntimeError err))
      else if connected < 0 then (k, Inl (RuntimeError err))
      else (k, Inr ()))"

definition sendData :: "string \<Rightarrow> int \<Rightarrow> int \<Rightarrow> int \<Rightarrow> tcp_client \<Rightarrow> tcp_client \<times> int res" where
  "sendData err sock connected sent k =
     (case create_socket_and_connection err sock connected k of
        (k, Inl e) \<Rightarrow> (k, Inl e)
      | (k, Inr _) \<Rightarrow> (k\<lparr>closed := closed k @ [cfd k]\<rparr>, Inr sent))"

definition client_gone :: "tcp_client \<Rightarrow> tcp_client" where
  "client_gone k = k\<lparr>closed := closed k @ [cfd k]\<rparr>"

text \<open>Every descriptor that \<open>sendData\<close> got is closed twice when the client goes.\<close>

lemma closed_twice:
  "sendData err sock connected sent k = (k', Inr r) \<Longrightarrow> closed (client_gone (recv_data ds k')) = closed k @ [sock, sock]"
proof -
  have same: "cfd (recv_data ds c) = cfd c" "closed (recv_data ds c) = closed c" for c
    by (induction ds arbitrary: c) simp_all
  show "sendData err sock connected sent k = (k', Inr r) \<Longrightarrow> closed (client_gone (recv_data ds k')) = closed k @ [sock, sock]"
    by (auto simp: sendData_def create_socket_and_connection_def client_gone_def Let_def same split: if_splits)
qed

section \<open>Runs\<close>

datatype event = Accept nat | Recv nat "byte list" | Leave nat | Push nat | Read

text \<open>
  \<open>runs s0 evs outs s\<close>: the events take the server from \<open>s0\<close> to \<open>s\<close> without undefined behaviour, and the calls
  of \<open>readByte\<close> return \<open>outs\<close>. A thread that waits for the mutex has no event.
\<close>

inductive runs :: "tcp_server \<Rightarrow> event list \<Rightarrow> byte list \<Rightarrow> tcp_server \<Rightarrow> bool" for s0 where
  start: "runs s0 [] [] s0"
| accept: "runs s0 evs outs s \<Longrightarrow> conns s c = None \<Longrightarrow> connection_manager err (int c) s = Inr s'
    \<Longrightarrow> runs s0 (evs @ [Accept c]) outs s'"
| recv: "runs s0 evs outs s \<Longrightarrow> conns s c = Some (Reading b) \<Longrightarrow> length buff \<le> 1024
    \<Longrightarrow> runs s0 (evs @ [Recv c buff]) outs (recv_turn c buff s)"
| leave: "runs s0 evs outs s \<Longrightarrow> conns s c = Some (Leaving b) \<Longrightarrow> buff_mutex s = None \<or> status s \<noteq> 0
    \<Longrightarrow> runs s0 (evs @ [Leave c]) outs (leave_turn c s)"
| push: "runs s0 evs outs s \<Longrightarrow> conns s c = Some (Pushing b) \<Longrightarrow> runs s0 (evs @ [Push c]) outs (push_turn c s)"
| read: "runs s0 evs outs s \<Longrightarrow> readByte s = Inr (b, s') \<Longrightarrow> runs s0 (evs @ [Read]) (outs @ [b]) s'"

text \<open>The same as a function of the events, to evaluate runs.\<close>

fun turn :: "event \<Rightarrow> tcp_server \<Rightarrow> (byte list \<times> tcp_server) option" where
  "turn (Accept c) s = (if conns s c = None then Some ([], s\<lparr>conns := (conns s)(c \<mapsto> Reading [])\<rparr>) else None)"
| "turn (Recv c buff) s = (case conns s c of
       Some (Reading b) \<Rightarrow> if length buff \<le> 1024 then Some ([], recv_turn c buff s) else None
     | _ \<Rightarrow> None)"
| "turn (Leave c) s = (case conns s c of
       Some (Leaving b) \<Rightarrow> if buff_mutex s = None \<or> status s \<noteq> 0 then Some ([], leave_turn c s) else None
     | _ \<Rightarrow> None)"
| "turn (Push c) s = (case conns s c of Some (Pushing b) \<Rightarrow> Some ([], push_turn c s) | _ \<Rightarrow> None)"
| "turn Read s = (case readByte s of Inr (b, s') \<Rightarrow> Some ([b], s') | Inl e \<Rightarrow> None)"

fun run_all :: "event list \<Rightarrow> byte list \<Rightarrow> tcp_server \<Rightarrow> (byte list \<times> tcp_server) option" where
  "run_all [] outs s = Some (outs, s)"
| "run_all (e # evs) outs s = (case turn e s of None \<Rightarrow> None | Some (o', s') \<Rightarrow> run_all evs (outs @ o') s')"

lemma turn_runs:
  assumes "turn e s = Some (o', s')" "runs s0 evs outs s"
  shows "runs s0 (evs @ [e]) (outs @ o') s'"
proof (cases e)
  case (Accept c)
  then show ?thesis
    using assms runs.accept [OF assms(2), of c "[]" s'] by (auto simp: connection_manager_def split: if_splits)
next
  case (Recv c buff)
  then show ?thesis using assms by (auto intro: runs.recv split: option.splits conn.splits if_splits)
next
  case (Leave c)
  then show ?thesis using assms by (auto intro: runs.leave split: option.splits conn.splits if_splits)
next
  case (Push c)
  then show ?thesis using assms by (auto intro: runs.push split: option.splits conn.splits)
next
  case Read
  then show ?thesis using assms by (auto intro: runs.read split: sum.splits)
qed

lemma run_all_runs:
  "run_all evs outs s = Some (outs', s') \<Longrightarrow> runs s0 evs0 outs s \<Longrightarrow> runs s0 (evs0 @ evs) outs' s'"
proof (induction evs arbitrary: evs0 outs s)
  case (Cons e evs)
  then obtain o1 s1 where "turn e s = Some (o1, s1)" "run_all evs (outs @ o1) s1 = Some (outs', s')"
    by (auto split: option.splits)
  with Cons.IH [OF _ turn_runs [OF _ Cons.prems(2)]] show ?case by fastforce
qed simp

section \<open>The mailbox\<close>

record mailbox =
  open_conns :: "nat \<Rightarrow> byte list option"
  letters :: "byte list list"

definition empty_box :: mailbox where
  "empty_box = \<lparr>open_conns = Map.empty, letters = []\<rparr>"

fun deliver :: "event \<Rightarrow> mailbox \<Rightarrow> mailbox" where
  "deliver (Accept c) m = m\<lparr>open_conns := (open_conns m)(c \<mapsto> [])\<rparr>"
| "deliver (Recv c buff) m = m\<lparr>open_conns := (open_conns m)(c := map_option (\<lambda>b. b @ buff) (open_conns m c))\<rparr>"
| "deliver (Leave c) m = (case open_conns m c of None \<Rightarrow> m
     | Some b \<Rightarrow> m\<lparr>open_conns := (open_conns m)(c := None), letters := letters m @ [b]\<rparr>)"
| "deliver _ m = m"

text \<open>What the server has of the connections: collected data, and what the thread with the mutex has left.\<close>

fun collected :: "conn option \<Rightarrow> byte list option" where
  "collected (Some (Reading b)) = Some b"
| "collected (Some (Leaving b)) = Some b"
| "collected _ = None"

fun left_of :: "conn option \<Rightarrow> byte list" where
  "left_of (Some (Pushing b)) = b"
| "left_of _ = []"

definition unpushed :: "tcp_server \<Rightarrow> byte list" where
  "unpushed s = (case buff_mutex s of None \<Rightarrow> [] | Some c \<Rightarrow> left_of (conns s c))"

text \<open>
  \<open>threads_ok\<close>: the mailbox has what the threads have collected, and the mutex belongs to the thread that pushes.
  \<open>queued\<close>: the bytes read, without zeros for an empty queue, the queue and the rest are the letters.
\<close>

definition threads_ok :: "tcp_server \<Rightarrow> mailbox \<Rightarrow> bool" where
  "threads_ok s m \<longleftrightarrow> status s = 0
     \<and> (\<forall>c. open_conns m c = collected (conns s c))
     \<and> (\<forall>c. (\<exists>b. conns s c = Some (Pushing b)) = (buff_mutex s = Some c))"

definition queued :: "tcp_server \<Rightarrow> mailbox \<Rightarrow> byte list \<Rightarrow> bool" where
  "queued s m outs \<longleftrightarrow> (\<exists>ds. subseq ds outs \<and> filter (\<lambda>b. b \<noteq> 0) ds = filter (\<lambda>b. b \<noteq> 0) outs
     \<and> ds @ recv_buff s @ unpushed s = concat (letters m))"

section \<open>The server keeps in step with the mailbox\<close>

lemma threads_okD:
  assumes "threads_ok s m"
  shows "status s = 0" "open_conns m c = collected (conns s c)"
    "(\<exists>b. conns s c = Some (Pushing b)) = (buff_mutex s = Some c)"
  using assms by (simp_all add: threads_ok_def)

lemma threads_ok_not_held:
  assumes "threads_ok s m" "\<nexists>b. conns s c = Some (Pushing b)"
  shows "buff_mutex s \<noteq> Some c"
  using assms by (simp add: threads_okD(3))

lemma unpushed_update [simp]:
  "buff_mutex s \<noteq> Some c \<Longrightarrow> unpushed (s\<lparr>conns := (conns s)(c := k)\<rparr>) = unpushed s"
  by (simp add: unpushed_def split: option.splits)

lemma queued_cong:
  assumes "queued s m outs" "recv_buff s' @ unpushed s' = recv_buff s @ unpushed s @ bs"
    "concat (letters m') = concat (letters m) @ bs"
  shows "queued s' m' outs"
proof -
  obtain ds where "subseq ds outs" "filter (\<lambda>b. b \<noteq> 0) ds = filter (\<lambda>b. b \<noteq> 0) outs"
    "ds @ recv_buff s @ unpushed s = concat (letters m)"
    using assms(1) unfolding queued_def by blast
  moreover have "ds @ recv_buff s' @ unpushed s' = (ds @ recv_buff s @ unpushed s) @ bs"
    using assms(2) by simp
  ultimately show ?thesis
    using assms(3) unfolding queued_def by metis
qed

lemma start_ok:
  assumes "TCPServer err sock bound listening = Inr s0"
  shows "threads_ok s0 empty_box \<and> queued s0 empty_box []"
  using assms
  by (auto simp: TCPServer_def create_socket_def cycle_def threads_ok_def queued_def unpushed_def empty_box_def
      split: if_splits)

lemma accept_ok:
  assumes "threads_ok s m" "queued s m outs" "conns s c = None" "connection_manager err (int c) s = Inr s'"
  shows "threads_ok s' (deliver (Accept c) m) \<and> queued s' (deliver (Accept c) m) outs"
proof
  have s': "s' = s\<lparr>conns := (conns s)(c \<mapsto> Reading [])\<rparr>"
    using assms(4) by (simp add: connection_manager_def)
  have free: "buff_mutex s \<noteq> Some c" using threads_ok_not_held assms by force
  then show "threads_ok s' (deliver (Accept c) m)"
    using assms(1) by (auto simp: s' threads_ok_def)
  show "queued s' (deliver (Accept c) m) outs"
    by (rule queued_cong [OF assms(2), of _ "[]"]) (simp_all add: s' free)
qed

lemma recv_ok:
  assumes "threads_ok s m" "queued s m outs" "conns s c = Some (Reading b)"
  shows "threads_ok (recv_turn c buff s) (deliver (Recv c buff) m) \<and> queued (recv_turn c buff s) (deliver (Recv c buff) m) outs"
proof
  have free: "buff_mutex s \<noteq> Some c" using threads_ok_not_held assms by force
  then show "threads_ok (recv_turn c buff s) (deliver (Recv c buff) m)"
    using assms(1,3) by (auto simp: recv_turn_def threads_ok_def)
  show "queued (recv_turn c buff s) (deliver (Recv c buff) m) outs"
    by (rule queued_cong [OF assms(2), of _ "[]"]) (simp_all add: recv_turn_def assms(3) free)
qed

lemma leave_ok:
  assumes "threads_ok s m" "queued s m outs" "conns s c = Some (Leaving b)" "buff_mutex s = None \<or> status s \<noteq> 0"
  shows "threads_ok (leave_turn c s) (deliver (Leave c) m) \<and> queued (leave_turn c s) (deliver (Leave c) m) outs"
proof
  have free: "buff_mutex s = None" "status s = 0" using assms(1,4) by (simp_all add: threads_okD(1))
  have eq: "leave_turn c s = s\<lparr>conns := (conns s)(c \<mapsto> Pushing b), buff_mutex := Some c\<rparr>"
    using assms(3) free by (simp add: leave_turn_def)
  have m: "open_conns m c = Some b" using assms(3) by (simp add: threads_okD(2) [OF assms(1)])
  show "threads_ok (leave_turn c s) (deliver (Leave c) m)"
    using assms(1,3) free m by (auto simp: eq threads_ok_def)
  show "queued (leave_turn c s) (deliver (Leave c) m) outs"
    by (rule queued_cong [OF assms(2), of _ b]) (simp_all add: eq unpushed_def free m)
qed

lemma push_ok:
  assumes "threads_ok s m" "queued s m outs" "conns s c = Some (Pushing b)"
  shows "threads_ok (push_turn c s) (deliver (Push c) m) \<and> queued (push_turn c s) (deliver (Push c) m) outs"
proof
  have held: "buff_mutex s = Some c" using threads_okD(3) [OF assms(1)] assms(3) by blast
  have "(\<exists>b. conns s c' = Some (Pushing b)) = (c' = c)" for c'
    using threads_okD(3) [OF assms(1)] held by auto
  then show "threads_ok (push_turn c s) (deliver (Push c) m)"
    using assms(1,3) held by (cases b) (auto simp: push_turn_def threads_ok_def)
  show "queued (push_turn c s) (deliver (Push c) m) outs"
    by (rule queued_cong [OF assms(2), of _ "[]"]) (cases b; simp add: push_turn_def unpushed_def assms(3) held)+
qed

lemma read_ok:
  assumes "threads_ok s m" "queued s m outs" "readByte s = Inr (b, s')"
  shows "threads_ok s' (deliver Read m) \<and> queued s' (deliver Read m) (outs @ [b])"
proof -
  have free: "buff_mutex s = None" using assms(3) by (simp add: readByte_def split: option.splits)
  obtain ds where ds: "subseq ds outs" "filter (\<lambda>b. b \<noteq> 0) ds = filter (\<lambda>b. b \<noteq> 0) outs"
    "ds @ recv_buff s @ unpushed s = concat (letters m)"
    using assms(2) unfolding queued_def by blast
  show ?thesis
  proof (cases "recv_buff s")
    case Nil
    then have "b = 0" "s' = s" using assms(3) free by (simp_all add: readByte_def)
    moreover have "subseq ds (outs @ [0])" using ds(1) by (rule list_emb_prefix)
    ultimately have "queued s' m (outs @ [b])"
      using ds unfolding queued_def by (intro exI [of _ ds]) simp
    then show ?thesis using assms(1) \<open>s' = s\<close> by simp
  next
    case (Cons i bs)
    then have s': "b = i" "s' = s\<lparr>recv_buff := bs\<rparr>" using assms(3) free by (simp_all add: readByte_def)
    then have "queued s' m (outs @ [b])"
      using ds Cons free unfolding queued_def by (intro exI [of _ "ds @ [i]"]) (simp add: unpushed_def)
    then show ?thesis using assms(1) by (simp add: s' threads_ok_def)
  qed
qed

lemma runs_ok:
  assumes "runs s0 evs outs s" "threads_ok s0 m0 \<and> queued s0 m0 []"
  shows "threads_ok s (fold deliver evs m0) \<and> queued s (fold deliver evs m0) outs"
  using assms
proof induction
  case (accept evs outs s c err s')
  with accept_ok [OF _ _ accept.hyps(2,3)] show ?case by (simp del: deliver.simps) blast
next
  case (recv evs outs s c b buff)
  with recv_ok [OF _ _ recv.hyps(2)] show ?case by (simp del: deliver.simps) blast
next
  case (leave evs outs s c b)
  with leave_ok [OF _ _ leave.hyps(2,3)] show ?case by (simp del: deliver.simps) blast
next
  case (push evs outs s c b)
  with push_ok [OF _ _ push.hyps(2)] show ?case by (simp del: deliver.simps) blast
next
  case (read evs outs s b s')
  with read_ok [OF _ _ read.hyps(2)] show ?case by (simp del: deliver.simps) blast
qed simp

text \<open>
  C16. The server is a mailbox in which the data of a connection arrives whole: as long as no call of \<open>readByte\<close> falls
  into a push, the bytes read so far, without the zeros that stand for an empty queue, followed by the queue and by
  what the pushing thread has left, are the concatenation of all that finished connections have sent, each in one
  piece, in the order in which their threads took the mutex; and the open connections hold what they have sent.
\<close>

theorem tcp_server_mailbox:
  assumes "TCPServer err sock bound listening = Inr s0" "runs s0 evs outs s"
  shows "(\<exists>ds. subseq ds outs \<and> filter (\<lambda>b. b \<noteq> 0) ds = filter (\<lambda>b. b \<noteq> 0) outs
       \<and> ds @ recv_buff s @ unpushed s = concat (letters (fold deliver evs empty_box)))
    \<and> (\<forall>c. open_conns (fold deliver evs empty_box) c = collected (conns s c))"
  using runs_ok [OF assms(2) start_ok [OF assms(1)]] by (simp add: queued_def threads_ok_def)

lemma push_all:
  assumes "runs s0 evs outs s" "conns s c = Some (Pushing b)" "buff_mutex s = Some c"
  shows "\<exists>evs' s'. runs s0 (evs @ evs') outs s' \<and> conns s' = (conns s)(c := None) \<and> buff_mutex s' = None \<and> status s' = status s"
  using assms
proof (induction b arbitrary: evs s)
  case Nil
  have "runs s0 (evs @ [Push c]) outs (push_turn c s)" using Nil.prems(1,2) by (rule runs.push)
  moreover have "push_turn c s = s\<lparr>buff_mutex := None, conns := (conns s)(c := None)\<rparr>"
    using Nil.prems by (simp add: push_turn_def)
  ultimately show ?case by force
next
  case (Cons i b)
  let ?s = "s\<lparr>recv_buff := recv_buff s @ [i], conns := (conns s)(c \<mapsto> Pushing b)\<rparr>"
  have "push_turn c s = ?s" using Cons.prems by (simp add: push_turn_def)
  then have "runs s0 (evs @ [Push c]) outs ?s" using runs.push [OF Cons.prems(1,2)] by simp
  note IH = Cons.IH [OF this]
  have "\<exists>evs' s'. runs s0 ((evs @ [Push c]) @ evs') outs s' \<and> conns s' = (conns s)(c := None) \<and> buff_mutex s' = None
      \<and> status s' = status s"
    using IH Cons.prems(3) by (simp del: append_assoc fun_upd_apply add: fun_upd_same)
  then show ?case by (metis append.assoc)
qed

lemma mutex_is_released:
  assumes "runs s0 evs outs s" "threads_ok s0 m0 \<and> queued s0 m0 []"
  shows "\<exists>evs' s'. runs s0 (evs @ evs') outs s' \<and> buff_mutex s' = None \<and> status s' = 0
    \<and> (\<forall>c. conns s' c = conns s c \<or> conns s' c = None)"
proof (cases "buff_mutex s")
  case None
  then show ?thesis
    using assms(1) threads_okD(1) [OF runs_ok [OF assms, THEN conjunct1]] by (intro exI [of _ "[]"] exI [of _ s]) simp
next
  case (Some c)
  have ok: "threads_ok s (fold deliver evs m0)" using runs_ok [OF assms] by simp
  obtain b where "conns s c = Some (Pushing b)" using threads_okD(3) [OF ok, of c] Some by auto
  from push_all [OF assms(1) this Some] show ?thesis
    using threads_okD(1) [OF ok] by (metis fun_upd_apply)
qed

lemma finish_connection:
  assumes "runs s0 evs outs s" "conns s c = Some (Leaving b)" "buff_mutex s = None" "status s = 0"
  shows "\<exists>evs' s'. runs s0 (evs @ evs') outs s' \<and> conns s' c = None"
proof -
  have "runs s0 (evs @ [Leave c]) outs (leave_turn c s)"
    using assms by (intro runs.leave) simp_all
  moreover have "leave_turn c s = s\<lparr>conns := (conns s)(c \<mapsto> Pushing b), buff_mutex := Some c\<rparr>"
    using assms by (simp add: leave_turn_def)
  ultimately obtain evs' s' where "runs s0 ((evs @ [Leave c]) @ evs') outs s'" "conns s' c = None"
    using push_all [of s0 "evs @ [Leave c]" outs _ c b] by force
  then show ?thesis by (metis append.assoc)
qed


text \<open>
  Two hazards of the server. Its \<open>stop\<close>, and with it its destructor, always uses the thread object that ended with
  the constructor; and a call of \<open>readByte\<close> while a connection pushes its data releases the mutex of that thread.
\<close>

theorem tcp_server_hazards:
  assumes "TCPServer err sock bound listening = Inr s0"
  shows "stop s0 = Inl UseAfterFree
    \<and> (\<exists>evs s. runs s0 evs [] s \<and> letters (fold deliver evs empty_box) = [[b]] \<and> readByte s = Inl ForeignUnlock)"
proof
  show "stop s0 = Inl UseAfterFree"
    using assms by (auto simp: TCPServer_def cycle_def stop_def split: if_splits)
  have s0: "conns s0 = Map.empty" "buff_mutex s0 = None" "status s0 = 0"
    using assms by (auto simp: TCPServer_def create_socket_def cycle_def split: if_splits)
  let ?evs = "[Accept 4, Recv 4 [b], Recv 4 [], Leave 4]"
  let ?s = "s0\<lparr>conns := [4 \<mapsto> Pushing [b]], buff_mutex := Some 4\<rparr>"
  have "run_all ?evs [] s0 = Some ([], ?s)"
    by (simp add: recv_turn_def leave_turn_def s0)
  then have "runs s0 ?evs [] ?s"
    using run_all_runs [OF _ runs.start] by fastforce
  moreover have "readByte ?s = Inl ForeignUnlock" by (simp add: readByte_def)
  moreover have "letters (fold deliver ?evs empty_box) = [[b]]" by (simp add: empty_box_def)
  ultimately show "\<exists>evs s. runs s0 evs [] s \<and> letters (fold deliver evs empty_box) = [[b]] \<and> readByte s = Inl ForeignUnlock"
    by blast
qed

text \<open>
  Two connections whose data arrives in turns: the one that is done first is in the queue as a whole.
\<close>

definition demo_server :: tcp_server where
  "demo_server = \<lparr>fd = 3, status = 0, recv_buff = [], buff_mutex = None, conns = Map.empty, p_conn_mgr_thrd = Some False\<rparr>"

definition demo_events :: "event list" where
  "demo_events = [Accept 4, Read, Recv 4 [7], Accept 5, Recv 5 [9], Recv 4 [8], Recv 4 [], Leave 4, Push 4, Push 4, Push 4, Read]"

lemma demo_start: "TCPServer ''err'' 3 0 0 = Inr demo_server"
  by (simp add: TCPServer_def create_socket_def cycle_def demo_server_def)

lemma demo_runs:
  "runs demo_server demo_events [0, 7] (demo_server\<lparr>recv_buff := [8], conns := [5 \<mapsto> Reading [9]]\<rparr>)"
proof -
  have "run_all demo_events [] demo_server = Some ([0, 7], demo_server\<lparr>recv_buff := [8], conns := [5 \<mapsto> Reading [9]]\<rparr>)"
    by (simp add: demo_events_def demo_server_def recv_turn_def leave_turn_def push_turn_def readByte_def fun_eq_iff)
  from run_all_runs [OF this runs.start] show ?thesis by simp
qed

lemma tcp_server_mailbox_witness:
  "letters (fold deliver demo_events empty_box) = [[7, 8]]
   \<and> (\<exists>ds. subseq ds [0, 7] \<and> ds @ [8] = concat (letters (fold deliver demo_events empty_box)))"
  using tcp_server_mailbox [OF demo_start demo_runs]
  by (auto simp: demo_events_def empty_box_def unpushed_def demo_server_def)


lemma tcp_server_hazards_witness:
  "stop demo_server = Inl UseAfterFree"
  using tcp_server_hazards [OF demo_start] by simp

end
