(* ===== verification/Utils.thy ===== *)
theory Utils
  imports MessageFactory
begin

text \<open>
  The wrappers of OpenSSL in \<^theory_text>\<open>src/src/utils\<close> and \<^theory_text>\<open>src/src/bignumber.cpp\<close>: the SHA-256 generator that signs
  messages, the RSA key chain and the AES encryptor. OpenSSL and Boost are not part of the repository; their functions
  are parameters, and what the results rest on is in the hypotheses.
\<close>

section \<open>The SHA-256 generator\<close>

text \<open>
  The generator keeps the address of the data, not the data: \<open>objs\<close> gives the contents of the objects that are alive
  when it is used. \<open>None\<close> in \<open>raw_data\<close> is the null pointer, which the first element of an empty vector gives.
\<close>

record sha_generator =
  if_generate :: bool
  raw_data :: "nat option"
  raw_data_size :: nat
  sha256_data :: string

definition SHA256Generator :: sha_generator where
  "SHA256Generator = \<lparr>if_generate = False, raw_data = None, raw_data_size = 0, sha256_data = []\<rparr>"

definition setRawData_vector :: "nat \<Rightarrow> string \<Rightarrow> sha_generator \<Rightarrow> sha_generator" where
  "setRawData_vector a c_array g = g\<lparr>raw_data := (if c_array = [] then None else Some a),
     raw_data_size := length c_array, if_generate := False\<rparr>"

definition setRawData_string :: "nat \<Rightarrow> string \<Rightarrow> sha_generator \<Rightarrow> sha_generator" where
  "setRawData_string a str g = g\<lparr>raw_data := Some a, raw_data_size := length str, if_generate := False\<rparr>"

definition read_raw :: "(nat \<Rightarrow> string option) \<Rightarrow> sha_generator \<Rightarrow> string res" where
  "read_raw objs g = (case raw_data g of
       None \<Rightarrow> if raw_data_size g = 0 then Inr [] else Inl NullDeref
     | Some a \<Rightarrow> (case objs a of
         None \<Rightarrow> Inl UseAfterFree
       | Some bytes \<Rightarrow> cut bytes 0 (raw_data_size g)))"

definition generate :: "(string \<Rightarrow> byte list) \<Rightarrow> (nat \<Rightarrow> string option) \<Rightarrow> sha_generator \<Rightarrow> sha_generator res" where
  "generate SHA256 objs g = bind_res (read_raw objs g) (\<lambda>bytes.
     Inr (g\<lparr>sha256_data := concat (map hex2 (take 32 (SHA256 bytes))), if_generate := True\<rparr>))"

definition getHex :: "(string \<Rightarrow> byte list) \<Rightarrow> (nat \<Rightarrow> string option) \<Rightarrow> sha_generator \<Rightarrow> (sha_generator \<times> string) res" where
  "getHex SHA256 objs g = bind_res (if if_generate g then Inr g else generate SHA256 objs g) (\<lambda>g. Inr (g, sha256_data g))"

text \<open>The signature the factory writes: \<open>setRawData\<close> and \<open>getHex\<close> on the data of the message.\<close>

definition sha_hex :: "(string \<Rightarrow> byte list) \<Rightarrow> string \<Rightarrow> string" where
  "sha_hex SHA256 d = concat (map hex2 (take 32 (SHA256 d)))"

lemma hex_digit_code: "n < 16 \<Longrightarrow> code (hex_digit n) = (if n < 10 then 48 + n else 87 + n)"
  by (simp add: hex_digit_def code_def)

lemma byte_div16: "unat (b :: byte) div 16 < 16"
proof -
  have "unat b < 16 * 16" using unsigned_less [of b] by simp
  then show ?thesis by (rule less_mult_imp_div_less)
qed

lemma hex2_inject: "hex2 b = hex2 c \<longleftrightarrow> b = c"
proof
  assume h: "hex2 b = hex2 c"
  have inj: "m = n" if "hex_digit m = hex_digit n" "m < 16" "n < 16" for m n
  proof -
    have "(if m < 10 then 48 + m else 87 + m) = (if n < 10 then 48 + n else 87 + n)"
      using that hex_digit_code [of m] hex_digit_code [of n] by simp
    then show ?thesis by (simp split: if_splits)
  qed
  have "hex_digit (unat b div 16) = hex_digit (unat c div 16)" "hex_digit (unat b mod 16) = hex_digit (unat c mod 16)"
    using h by (simp_all add: hex2_def)
  then have "unat b div 16 = unat c div 16" "unat b mod 16 = unat c mod 16"
    by (simp_all add: inj byte_div16)
  then have "unat b = unat c" by (metis div_mult_mod_eq)
  then show "b = c" by (simp add: word_unat_eq_iff)
qed simp

lemma clean_hex2: "clean_string (hex2 b)"
proof -
  have "code (hex_digit n) \<noteq> code (CHR 0x22) \<and> code (hex_digit n) \<noteq> code (CHR 0x00)" if "n < 16" for n
    unfolding hex_digit_code [OF that] by (simp add: code_def)
  note neq = this
  have "hex_digit (unat b div 16) \<noteq> CHR 0x22 \<and> hex_digit (unat b div 16) \<noteq> CHR 0x00"
    "hex_digit (unat b mod 16) \<noteq> CHR 0x22 \<and> hex_digit (unat b mod 16) \<noteq> CHR 0x00"
    using neq [OF byte_div16 [of b]] neq [of "unat b mod 16"] by auto
  then show ?thesis unfolding clean_string_def hex2_def by (metis empty_iff list.set(1) set_ConsD)
qed

lemma hex2_nonempty [simp]: "hex2 b \<noteq> []"
  by (simp add: hex2_def)

lemma concat_hex2_inject: "concat (map hex2 bs) = concat (map hex2 cs) \<longleftrightarrow> bs = cs"
proof (induction bs arbitrary: cs)
  case Nil
  then show ?case by (cases cs) simp_all
next
  case (Cons b bs)
  then show ?case by (cases cs) (simp_all add: hex2_inject)
qed

lemma length_sha_hex: "length (SHA256 d) = 32 \<Longrightarrow> length (sha_hex SHA256 d) = 64"
  by (simp add: sha_hex_def length_concat comp_def sum_list_triv)

lemma clean_sha_hex: "clean_string (sha_hex SHA256 d)"
  using clean_hex2 by (auto simp: clean_string_def sha_hex_def)

lemma getHex_vector:
  assumes "d \<noteq> [] \<Longrightarrow> objs a = Some d"
  shows "\<exists>g'. getHex SHA256 objs (setRawData_vector a d g) = Inr (g', sha_hex SHA256 d) \<and> if_generate g'"
  using assms
  by (auto simp: getHex_def setRawData_vector_def generate_def read_raw_def sha_hex_def cut_def)


text \<open>
  C18. The signature of a message: the generator gives 64 hexadecimal digits of the data it was pointed at, again
  without computing when it is asked again; they can stand in an option line; and a receiver accepts a message whose
  data was replaced exactly when the two data have the same SHA-256.
\<close>

theorem signature_of_message:
  assumes "length (SHA256 (data m)) = 32" "length (SHA256 d') = 32" "data m \<noteq> [] \<Longrightarrow> objs a = Some (data m)"
  shows "\<exists>g'. getHex SHA256 objs (setRawData_vector a (data m) g) = Inr (g', sha_hex SHA256 (data m))
    \<and> getHex SHA256 (\<lambda>_. None) g' = Inr (g', sha_hex SHA256 (data m))
    \<and> length (sha_hex SHA256 (data m)) = 64 \<and> clean_string (sha_hex SHA256 (data m))
    \<and> checkMessageSign (sha_hex SHA256) ((addOption ''sign'' (sha_hex SHA256 (data m)) m)\<lparr>data := d'\<rparr>)
        = Inr (SHA256 d' = SHA256 (data m))"
proof -
  obtain g' where g': "getHex SHA256 objs (setRawData_vector a (data m) g) = Inr (g', sha_hex SHA256 (data m))" "if_generate g'"
    using getHex_vector [of "data m" objs a SHA256 g] assms(3) by blast
  then have "sha256_data g' = sha_hex SHA256 (data m)"
    by (auto simp: getHex_def)
  then have "getHex SHA256 (\<lambda>_. None) g' = Inr (g', sha_hex SHA256 (data m))"
    using g'(2) by (simp add: getHex_def)
  moreover have "sha_hex SHA256 d' = sha_hex SHA256 (data m) \<longleftrightarrow> SHA256 d' = SHA256 (data m)"
    using assms(1,2) by (simp add: sha_hex_def concat_hex2_inject)
  ultimately show ?thesis
    using g'(1) length_sha_hex [of SHA256 "data m"] assms(1) clean_sha_hex [of SHA256 "data m"]
    by (auto simp: checkMessageSign_def)
qed

lemma signature_of_message_witness:
  "\<exists>m g'. getHex (\<lambda>d. replicate 32 (word_of_nat (length d))) [3 \<mapsto> ''hi''] (setRawData_vector 3 ''hi'' SHA256Generator)
       = Inr (g', sha_hex (\<lambda>d. replicate 32 (word_of_nat (length d))) ''hi'')
     \<and> checkMessageSign (sha_hex (\<lambda>d. replicate 32 (word_of_nat (length d)))) (m\<lparr>data := ''h''\<rparr>) = Inr False"
proof -
  let ?H = "\<lambda>d :: string. replicate 32 (word_of_nat (length d) :: byte)"
  let ?m = "pushData ''hi'' (new_message ''d'')"
  have d: "data ?m = ''hi''" by (simp add: pushData_def new_message_def Let_def)
  have "?H ''h'' \<noteq> ?H ''hi''" by (simp add: replicate_eq_replicate)
  then show ?thesis
    using signature_of_message [of ?H ?m "''h''" "[3 \<mapsto> ''hi'']" 3 SHA256Generator] unfolding d
    by (intro exI [of _ "addOption ''sign'' (sha_hex ?H ''hi'') ?m"]) auto
qed

text \<open>A generator pointed at a temporary string, as in \<^theory_text>\<open>src/test/test_util/test_sha.cpp\<close>, reads a dead object.\<close>

lemma dead_string:
  "objs a = None \<Longrightarrow> getHex SHA256 objs (setRawData_string a str g) = Inl UseAfterFree"
  by (simp add: getHex_def generate_def read_raw_def setRawData_string_def)

section \<open>Big numbers and RSA keys\<close>

text \<open>
  A \<open>BIGNUM\<close> is a number, and \<open>BN_copy\<close> from a null pointer a null dereference. The structure \<open>RSA\<close> of OpenSSL has
  the parts of a key, each of them absent until it is set.
\<close>

record rsa =
  k_n :: "nat option"
  k_e :: "nat option"
  k_d :: "nat option"
  k_p :: "nat option"
  k_q :: "nat option"

definition RSA_new :: rsa where
  "RSA_new = \<lparr>k_n = None, k_e = None, k_d = None, k_p = None, k_q = None\<rparr>"

definition copyFrom :: "nat option \<Rightarrow> nat res" where
  "copyFrom t = (case t of None \<Rightarrow> Inl NullDeref | Some v \<Rightarrow> Inr v)"

record pub_key =
  pub_n :: nat
  pub_e :: nat

record prv_key = pub_key +
  prv_d :: nat
  prv_p :: nat
  prv_q :: nat

definition RSAPubKey :: "rsa \<Rightarrow> pub_key res" where
  "RSAPubKey k = bind_res (copyFrom (k_n k)) (\<lambda>n. bind_res (copyFrom (k_e k)) (\<lambda>e. Inr \<lparr>pub_n = n, pub_e = e\<rparr>))"

definition RSAPrvKey :: "rsa \<Rightarrow> prv_key res" where
  "RSAPrvKey k =
     bind_res (copyFrom (k_n k)) (\<lambda>n.
     bind_res (copyFrom (k_e k)) (\<lambda>e.
     bind_res (copyFrom (k_d k)) (\<lambda>d.
     bind_res (copyFrom (k_p k)) (\<lambda>p.
     bind_res (copyFrom (k_q k)) (\<lambda>q.
     Inr \<lparr>pub_n = n, pub_e = e, prv_d = d, prv_p = p, prv_q = q\<rparr>)))))"

section \<open>The key chain\<close>

record key_chain =
  key_pair :: "rsa option"
  buffer_size :: u32
  if_prv_key :: bool
  if_pub_key :: bool

definition RSAKeyChain :: key_chain where
  "RSAKeyChain = \<lparr>key_pair = Some RSA_new, buffer_size = 0, if_prv_key = False, if_pub_key = False\<rparr>"

definition chain_of_pub :: "pub_key \<Rightarrow> key_chain" where
  "chain_of_pub k = \<lparr>key_pair = Some (RSA_new\<lparr>k_n := Some (pub_n k), k_e := Some (pub_e k)\<rparr>),
     buffer_size = 0, if_prv_key = False, if_pub_key = True\<rparr>"

definition chain_of_prv :: "prv_key \<Rightarrow> key_chain" where
  "chain_of_prv k = \<lparr>key_pair = Some \<lparr>k_n = Some (pub_n k), k_e = Some (pub_e k), k_d = Some (prv_d k),
       k_p = Some (prv_p k), k_q = Some (prv_q k)\<rparr>,
     buffer_size = 0, if_prv_key = True, if_pub_key = False\<rparr>"

text \<open>The moving constructor: the new chain and what is left of the old one.\<close>

definition move_chain :: "key_chain \<Rightarrow> key_chain \<times> key_chain" where
  "move_chain t = (t, t\<lparr>key_pair := None\<rparr>)"

text \<open>\<open>RSA_size\<close> is the number of bytes of the modulus.\<close>

fun bytes_of_nat :: "nat \<Rightarrow> nat" where
  "bytes_of_nat n = (if n = 0 then 0 else Suc (bytes_of_nat (n div 256)))"

declare bytes_of_nat.simps [simp del]

definition RSA_size :: "rsa \<Rightarrow> u32 res" where
  "RSA_size k = (case k_n k of None \<Rightarrow> Inl NullDeref | Some n \<Rightarrow> Inr (word_of_nat (bytes_of_nat n)))"

text \<open>
  \<open>gen e\<close> is the key \<open>RSA_generate_key_ex\<close> makes with the exponent \<open>e\<close> that \<open>BN_generate_prime_ex\<close> drew; \<open>None\<close>
  when it fails, which leaves the structure as it was. Its result is not tested.
\<close>

definition generateKeyPair :: "(nat \<Rightarrow> rsa option) \<Rightarrow> nat \<Rightarrow> key_chain \<Rightarrow> key_chain res" where
  "generateKeyPair gen e c = (case key_pair c of
       None \<Rightarrow> Inl NullDeref
     | Some k \<Rightarrow>
         (let k' = (case gen e of None \<Rightarrow> k | Some k' \<Rightarrow> k') in
          bind_res (RSA_size k') (\<lambda>n.
          Inr (c\<lparr>key_pair := Some k', buffer_size := n, if_prv_key := True, if_pub_key := True\<rparr>))))"

definition getPubKey :: "key_chain \<Rightarrow> pub_key res" where
  "getPubKey c = (case key_pair c of None \<Rightarrow> Inl NullDeref | Some k \<Rightarrow> RSAPubKey k)"

definition getPrvKey :: "key_chain \<Rightarrow> prv_key res" where
  "getPrvKey c = (case key_pair c of None \<Rightarrow> Inl NullDeref | Some k \<Rightarrow> RSAPrvKey k)"

definition checkKey :: "(rsa \<Rightarrow> int) \<Rightarrow> key_chain \<Rightarrow> bool res" where
  "checkKey RSA_check_key c =
     (if \<not> if_prv_key c then Inl (RuntimeError ''illegal call of checkKey'')
      else case key_pair c of
        None \<Rightarrow> Inl (RuntimeError ''key pair is invalid'')
      | Some k \<Rightarrow>
          (if RSA_check_key k = -1 then Inl (RuntimeError ''PrintTools occur when rsa check key'')
           else Inr (RSA_check_key k = 1)))"

text \<open>
  \<open>enc k m\<close> and \<open>dec k c\<close> are OpenSSL's encryption with the public and decryption with the private key under OAEP
  padding; \<open>None\<close> is the result \<open>-1\<close>, whose message is \<open>err\<close>. The subtraction \<open>buffer_size - 42\<close> is one of 32 bits.
\<close>

definition publicKeyEncrypt :: "(rsa \<Rightarrow> byte list \<Rightarrow> byte list option) \<Rightarrow> string \<Rightarrow> key_chain \<Rightarrow> byte list \<Rightarrow> byte list res" where
  "publicKeyEncrypt enc err c dat =
     (if \<not> if_pub_key c then Inl (RuntimeError ''illegal call of publicKeyEncrypt'')
      else case key_pair c of
        None \<Rightarrow> Inl (RuntimeError ''key pair is invalid'')
      | Some k \<Rightarrow>
          (if \<not> 0 < buffer_size c then Inl AssertionFailed
           else if unat (buffer_size c - 42) \<le> length dat then Inl (RuntimeError ''string data is too long'')
           else case enc k (dat @ replicate (unat (buffer_size c - 42) - length dat) 0) of
             None \<Rightarrow> Inl (RuntimeError err)
           | Some e \<Rightarrow> Inr e))"

text \<open>
  The buffer of the decryption is not initialised, \<open>junk\<close> is what it holds; the result is read from it as a C string.
\<close>

definition privateKeyDecrypt ::
    "(rsa \<Rightarrow> byte list \<Rightarrow> byte list option) \<Rightarrow> string \<Rightarrow> byte list \<Rightarrow> key_chain \<Rightarrow> byte list \<Rightarrow> byte list res" where
  "privateKeyDecrypt dec err junk c encrypted_data =
     (if \<not> if_prv_key c then Inl (RuntimeError ''illegal call of privateKeyDecrypt'')
      else case key_pair c of
        None \<Rightarrow> Inl (RuntimeError ''key pair is invalid'')
      | Some k \<Rightarrow>
          (if length encrypted_data \<noteq> unat (buffer_size c) then Inl (RuntimeError ''encrypt data's size is abnormal'')
           else case dec k encrypted_data of
             None \<Rightarrow> Inl (RuntimeError err)
           | Some p \<Rightarrow>
               (let p_buffer = p @ drop (length p) junk in
                if 0 \<in> set p_buffer then Inr (takeWhile (\<lambda>b. b \<noteq> 0) p_buffer) else Inl OutOfBounds)))"

lemma bytes_of_nat_bound: "256 ^ k \<le> n \<Longrightarrow> n < 256 ^ Suc k \<Longrightarrow> bytes_of_nat n = Suc k"
proof (induction k arbitrary: n)
  case 0
  then show ?case by (simp add: bytes_of_nat.simps [of n] bytes_of_nat.simps [of 0])
next
  case (Suc k)
  have "256 ^ k \<le> n div 256" using div_le_mono [OF Suc.prems(1), of 256] by simp
  moreover have "n div 256 < 256 ^ Suc k"
    using Suc.prems(2) by (simp add: less_mult_imp_div_less mult.commute)
  ultimately have "bytes_of_nat (n div 256) = Suc k" by (rule Suc.IH)
  moreover have "n \<noteq> 0" using Suc.prems(1) by (metis not_one_le_zero power_not_zero le_zero_eq zero_neq_numeral)
  ultimately show ?case by (subst bytes_of_nat.simps) simp
qed

lemma takeWhile_pad: "takeWhile (\<lambda>b. b \<noteq> 0) (d @ replicate n (0 :: byte) @ r) = takeWhile (\<lambda>b. b \<noteq> 0) d" if "0 < n"
  using that by (cases n) (auto simp: takeWhile_append takeWhile_eq_all_conv [THEN iffD2])

text \<open>
  C19. A key chain with a freshly generated 2048-bit pair encrypts every string of at most 213 bytes and decrypts the
  result to the string up to its first zero byte: all of it exactly when the string has none. Longer strings are
  refused.
\<close>

theorem key_chain_round_trip:
  assumes gen: "gen e = Some k" "k_n k = Some n" "256 ^ 255 \<le> n" "n < 256 ^ 256"
    and oaep: "\<And>m. length m = 214 \<Longrightarrow> \<exists>x. enc k m = Some x \<and> length x = 256 \<and> dec k x = Some m"
  shows "\<exists>c. generateKeyPair gen e RSAKeyChain = Inr c
    \<and> (if length dat < 214
       then \<exists>x. publicKeyEncrypt enc err c dat = Inr x \<and> length x = 256
         \<and> privateKeyDecrypt dec err junk c x = Inr (takeWhile (\<lambda>b. b \<noteq> 0) dat)
       else publicKeyEncrypt enc err c dat = Inl (RuntimeError ''string data is too long''))"
proof -
  let ?c = "\<lparr>key_pair = Some k, buffer_size = 256, if_prv_key = True, if_pub_key = True\<rparr>"
  have "bytes_of_nat n = Suc 255" using gen(3,4) by (intro bytes_of_nat_bound) simp_all
  then have c: "generateKeyPair gen e RSAKeyChain = Inr ?c"
    using gen by (simp add: generateKeyPair_def RSAKeyChain_def RSA_size_def)
  show ?thesis
  proof (cases "length dat < 214")
    case True
    let ?m = "dat @ replicate (214 - length dat) 0"
    obtain x where x: "enc k ?m = Some x" "length x = 256" "dec k x = Some ?m"
      using oaep [of ?m] True by auto
    then have "publicKeyEncrypt enc err ?c dat = Inr x"
      using True by (simp add: publicKeyEncrypt_def)
    moreover have "privateKeyDecrypt dec err junk ?c x = Inr (takeWhile (\<lambda>b. b \<noteq> 0) dat)"
      using True x takeWhile_pad [of "214 - length dat" dat]
      by (simp add: privateKeyDecrypt_def Let_def)
    ultimately show ?thesis using c x True by auto
  next
    case False
    then show ?thesis using c by (simp add: publicKeyEncrypt_def)
  qed
qed

lemma key_chain_round_trip_witness:
  "\<exists>c x. generateKeyPair (\<lambda>_. Some (RSA_new\<lparr>k_n := Some (256 ^ 255)\<rparr>)) 7 RSAKeyChain = Inr c
    \<and> publicKeyEncrypt (\<lambda>_ m. Some (m @ replicate 42 1)) [] c [5, 0, 6] = Inr x
    \<and> privateKeyDecrypt (\<lambda>_ x. Some (take 214 x)) [] [] c x = Inr [5]"
  using key_chain_round_trip [where gen = "\<lambda>_. Some (RSA_new\<lparr>k_n := Some (256 ^ 255)\<rparr>)" and e = 7
      and k = "RSA_new\<lparr>k_n := Some (256 ^ 255)\<rparr>" and n = "256 ^ 255" and enc = "\<lambda>_ m. Some (m @ replicate 42 1)"
      and dec = "\<lambda>_ x. Some (take 214 x)" and dat = "[5, 0, 6]" and err = "[]" and junk = "[]"]
  by auto

text \<open>
  C20. A chain built from an exported key has the whole key and passes the check, but cannot be used: its buffer size
  stays zero, so that encrypting with the public key fails an assertion and decrypting with the private key rejects
  everything there is to decrypt.
\<close>

theorem imported_keys_unusable:
  assumes "generateKeyPair gen e RSAKeyChain = Inr c" "getPubKey c = Inr p" "getPrvKey c = Inr q" "x \<noteq> []"
  shows "publicKeyEncrypt enc err (chain_of_pub p) dat = Inl AssertionFailed
    \<and> privateKeyDecrypt dec err junk (chain_of_prv q) x = Inl (RuntimeError ''encrypt data's size is abnormal'')
    \<and> key_pair (chain_of_prv q) = key_pair c \<and> checkKey chk (chain_of_prv q) = checkKey chk c"
proof -
  obtain k where k: "key_pair c = Some k" "if_prv_key c"
    using assms(1) by (auto simp: generateKeyPair_def RSAKeyChain_def Let_def)
  then have "k = \<lparr>k_n = Some (pub_n q), k_e = Some (pub_e q), k_d = Some (prv_d q), k_p = Some (prv_p q), k_q = Some (prv_q q)\<rparr>"
    using assms(3) by (cases k) (auto simp: getPrvKey_def RSAPrvKey_def copyFrom_def split: option.splits)
  then have "key_pair (chain_of_prv q) = key_pair c" by (simp add: chain_of_prv_def k)
  then show ?thesis
    using assms(4) k by (simp add: publicKeyEncrypt_def privateKeyDecrypt_def chain_of_pub_def chain_of_prv_def checkKey_def)
qed

lemma imported_keys_unusable_witness:
  "\<exists>c q. generateKeyPair (\<lambda>_. Some \<lparr>k_n = Some 15, k_e = Some 3, k_d = Some 3, k_p = Some 3, k_q = Some 5\<rparr>) 3 RSAKeyChain = Inr c
    \<and> getPrvKey c = Inr q
    \<and> privateKeyDecrypt (\<lambda>_ x. Some x) [] [] (chain_of_prv q) [1] = Inl (RuntimeError ''encrypt data's size is abnormal'')"
proof -
  let ?k = "\<lparr>k_n = Some 15, k_e = Some 3, k_d = Some 3, k_p = Some 3, k_q = Some 5\<rparr>"
  let ?c = "\<lparr>key_pair = Some ?k, buffer_size = 1, if_prv_key = True, if_pub_key = True\<rparr>"
  let ?q = "\<lparr>pub_n = 15, pub_e = 3, prv_d = 3, prv_p = 3, prv_q = 5\<rparr>"
  have c: "generateKeyPair (\<lambda>_. Some ?k) 3 RSAKeyChain = Inr ?c"
    by (simp add: generateKeyPair_def RSAKeyChain_def RSA_size_def bytes_of_nat.simps)
  moreover have "getPubKey ?c = Inr \<lparr>pub_n = 15, pub_e = 3\<rparr>" "getPrvKey ?c = Inr ?q"
    by (simp_all add: getPubKey_def getPrvKey_def RSAPubKey_def RSAPrvKey_def copyFrom_def)
  ultimately show ?thesis
    using imported_keys_unusable [where gen = "\<lambda>_. Some ?k" and e = 3 and c = ?c and q = ?q and x = "[1]"
        and p = "\<lparr>pub_n = 15, pub_e = 3\<rparr>" and dec = "\<lambda>_ x. Some x" and err = "[]" and junk = "[]"]
    by blast
qed

text \<open>When the generation fails, the size of a key without a modulus is asked for before anything else is noticed.\<close>

lemma failed_generation: "gen e = None \<Longrightarrow> generateKeyPair gen e RSAKeyChain = Inl NullDeref"
  by (simp add: generateKeyPair_def RSAKeyChain_def RSA_size_def RSA_new_def)

section \<open>The AES encryptor\<close>

text \<open>
  \<open>draw\<close> is the uniform distribution over the state of the global generator of Boost, which has no seed of its own;
  the value goes through \<^theory_text>\<open>int\<close> and back. The functions of EVP are in a record: \<open>bytes_to_key\<close> gives key, initial
  vector and length for the key data and the number of rounds; the others the output for key, vector and input, with
  \<open>None\<close> where the padding of the last block is wrong.
\<close>

record evp =
  bytes_to_key :: "byte list \<Rightarrow> int \<Rightarrow> byte list \<times> byte list \<times> int"
  enc_update :: "byte list \<Rightarrow> byte list \<Rightarrow> byte list \<Rightarrow> byte list"
  enc_final :: "byte list \<Rightarrow> byte list \<Rightarrow> byte list \<Rightarrow> byte list"
  dec_update :: "byte list \<Rightarrow> byte list \<Rightarrow> byte list \<Rightarrow> byte list"
  dec_final :: "byte list \<Rightarrow> byte list \<Rightarrow> byte list \<Rightarrow> byte list option"

record encryptor =
  a_key :: "byte list"
  a_iv :: "byte list"
  key_data :: "byte list"

fun draws :: "('g \<Rightarrow> u32 \<times> 'g) \<Rightarrow> nat \<Rightarrow> 'g \<Rightarrow> u32 list \<times> 'g" where
  "draws draw 0 g = ([], g)"
| "draws draw (Suc n) g = (case draw g of (i, g) \<Rightarrow> case draws draw n g of (is, g) \<Rightarrow> (i # is, g))"

definition generate_random_key_data :: "('g \<Rightarrow> u32 \<times> 'g) \<Rightarrow> 'g \<Rightarrow> encryptor \<Rightarrow> encryptor \<times> 'g" where
  "generate_random_key_data draw g a =
     (case draws draw 8 g of (p_data, g) \<Rightarrow>
        (a\<lparr>key_data := key_data a @ concat (map (\<lambda>i. le_enc 4 (unat i)) p_data)\<rparr>, g))"

definition aes_init :: "evp \<Rightarrow> encryptor \<Rightarrow> encryptor res" where
  "aes_init E a = (case bytes_to_key E (key_data a) 8 of (k, v, i) \<Rightarrow>
     if i \<noteq> 32 then Inl (RuntimeError ''key data must equal 256 bits.'') else Inr (a\<lparr>a_key := k, a_iv := v\<rparr>))"

definition AESCBCEncryptor :: "evp \<Rightarrow> ('g \<Rightarrow> u32 \<times> 'g) \<Rightarrow> 'g \<Rightarrow> (encryptor \<times> 'g) res" where
  "AESCBCEncryptor E draw g =
     (case generate_random_key_data draw g \<lparr>a_key = [], a_iv = [], key_data = []\<rparr> of (a, g) \<Rightarrow>
        bind_res (aes_init E a) (\<lambda>a. Inr (a, g)))"

text \<open>
  The outputs go to a buffer of the given size, the second behind the first. A size that is negative as an
  \<^theory_text>\<open>int\<close> asks \<open>malloc\<close> for more than there is.
\<close>

definition into_buffer :: "int \<Rightarrow> byte list \<Rightarrow> byte list \<Rightarrow> byte list res" where
  "into_buffer room u f =
     (if room < 0 then Inl NullDeref
      else if room < int (length u) \<or> room < int (length u + length f) then Inl OutOfBounds
      else Inr (u @ f))"

definition aes_encrypt :: "evp \<Rightarrow> encryptor \<Rightarrow> byte list \<Rightarrow> byte list res" where
  "aes_encrypt E a dat =
     into_buffer (to_int32 (int (length dat) + 16)) (enc_update E (a_key a) (a_iv a) dat) (enc_final E (a_key a) (a_iv a) dat)"

definition aes_decrypt :: "evp \<Rightarrow> encryptor \<Rightarrow> byte list \<Rightarrow> byte list res" where
  "aes_decrypt E a x =
     into_buffer (to_int32 (int (length x))) (dec_update E (a_key a) (a_iv a) x)
       (case dec_final E (a_key a) (a_iv a) x of None \<Rightarrow> [] | Some f \<Rightarrow> f)"

lemma into_buffer_fits: "int (length (u @ f)) \<le> room \<Longrightarrow> into_buffer room u f = Inr (u @ f)"
  by (simp add: into_buffer_def)

text \<open>
  The encryptor with the block cipher of EVP: the output for \<open>n\<close> bytes, padded to the next full block, fits the
  buffer and is decrypted to the input; and an input whose padding is wrong is not reported, the bytes before its last
  block are the result.
\<close>

theorem encryptor_behaviour:
  assumes len: "length dat < 2 ^ 30" "length x < 2 ^ 31"
    and upd: "length (enc_update E (a_key a) (a_iv a) dat) = length dat div 16 * 16"
    and fin: "length (enc_final E (a_key a) (a_iv a) dat) = 16"
    and inv: "\<And>y. y = enc_update E (a_key a) (a_iv a) dat @ enc_final E (a_key a) (a_iv a) dat
      \<Longrightarrow> \<exists>f. dec_final E (a_key a) (a_iv a) y = Some f \<and> dec_update E (a_key a) (a_iv a) y @ f = dat"
    and bad: "dec_final E (a_key a) (a_iv a) x = None" "length (dec_update E (a_key a) (a_iv a) x) \<le> length x"
  shows "\<exists>y. aes_encrypt E a dat = Inr y \<and> length y = (length dat div 16 + 1) * 16 \<and> aes_decrypt E a y = Inr dat
    \<and> aes_decrypt E a x = Inr (dec_update E (a_key a) (a_iv a) x)"
proof -
  let ?y = "enc_update E (a_key a) (a_iv a) dat @ enc_final E (a_key a) (a_iv a) dat"
  have ly: "length ?y = length dat div 16 * 16 + 16" using upd fin by simp
  have le: "length dat div 16 * 16 \<le> length dat" by (rule div_times_less_eq_dividend)
  have c: "to_int32 (int (length dat) + 16) = int (length dat) + 16" "to_int32 (int (length ?y)) = int (length ?y)"
    "to_int32 (int (length x)) = int (length x)"
    using len ly le by (simp_all add: to_int32_id)
  have "int (length ?y) \<le> int (length dat) + 16" using ly le by linarith
  then have enc: "aes_encrypt E a dat = Inr ?y"
    unfolding aes_encrypt_def c by (rule into_buffer_fits)
  obtain f where f: "dec_final E (a_key a) (a_iv a) ?y = Some f" "dec_update E (a_key a) (a_iv a) ?y @ f = dat"
    using inv by blast
  have "int (length (dec_update E (a_key a) (a_iv a) ?y @ f)) \<le> int (length ?y)"
    unfolding f(2) ly using dividend_less_times_div [of 16 "length dat"] by simp
  then have "aes_decrypt E a ?y = Inr dat"
    unfolding aes_decrypt_def c f(1) option.case using into_buffer_fits f(2) by metis
  moreover have "aes_decrypt E a x = Inr (dec_update E (a_key a) (a_iv a) x)"
    using bad by (simp add: aes_decrypt_def into_buffer_def c)
  ultimately show ?thesis using enc ly by auto
qed

lemma encryptor_behaviour_witness:
  "\<exists>E a y. aes_encrypt E a [1] = Inr y \<and> length y = 16 \<and> aes_decrypt E a y = Inr [1] \<and> aes_decrypt E a [2] = Inr []"
proof -
  let ?E = "\<lparr>bytes_to_key = \<lambda>_ _. ([], [], 32), enc_update = \<lambda>_ _ _. [], enc_final = \<lambda>_ _ d. take 16 (d @ replicate 16 0),
    dec_update = \<lambda>_ _ _. [], dec_final = \<lambda>_ _ y. if length y = 16 then Some (take 1 y) else None\<rparr>"
  let ?a = "\<lparr>a_key = [], a_iv = [], key_data = []\<rparr>"
  have "\<exists>y. aes_encrypt ?E ?a [1] = Inr y \<and> length y = (length [1 :: byte] div 16 + 1) * 16 \<and> aes_decrypt ?E ?a y = Inr [1]
      \<and> aes_decrypt ?E ?a [2] = Inr (dec_update ?E (a_key ?a) (a_iv ?a) [2])"
    by (rule encryptor_behaviour) simp_all
  then show ?thesis by (intro exI [of _ ?E] exI [of _ ?a]) simp
qed

section \<open>Printing buffers\<close>

text \<open>
  \<open>print_buff\<close> of \<^theory_text>\<open>src/src/debug_tools/print_tools.cpp\<close> as the text it prints: sixteen bytes to a line, up to the
  address of the last byte, which is not printed.
\<close>

fun print_bytes :: "nat \<Rightarrow> byte list \<Rightarrow> string" where
  "print_bytes c [] = []"
| "print_bytes c (b # bs) =
     (if c mod 16 = 0 \<and> c \<noteq> 0 then ''\<newline>'' else []) @ hex2 b @ '' '' @ print_bytes (Suc c) bs"

definition print_buff :: "byte list \<Rightarrow> string" where
  "print_buff buf = ''\<newline>[DEBUG INFO (BUFFER)]\<newline>>----------------------------------------------\<newline>''
     @ print_bytes 0 (take (length buf - 1) buf) @ ''\<newline>----------------------------------------------<\<newline>''"

lemma print_buff_last: "print_buff (buf @ [b]) = print_buff (buf @ [c])"
  by (simp add: print_buff_def)

end
