(* ===== verification/Spec2Isabelle.thy ===== *)
theory Spec2Isabelle
  imports MessageParser AesModes AesVectors NetBoxes Sha1 EndToEnd Clock Sockets CThread ProjectUpdate Registration Shell Results TcpServer Utils
begin

text \<open>
  A model of NetCpp, a C++ library and command for distributing computing tasks. A client registers with a square
  server: its request, built by \<^theory_text>\<open>src/src/client.cpp\<close>, becomes a packet, the packet a tagged string, in clear or
  under RSA, and the string a number of UDP boxes (\<^theory_text>\<open>src/src/server.cpp\<close>). Daemons that clocks start
  (\<^theory_text>\<open>src/src/clock.cpp\<close>) put the boxes together, parse the packets and answer the requests. The server then keeps TCP
  connections to the client, over which AES-encrypted posts travel (\<^theory_text>\<open>src/src/model.cpp\<close>,
  \<^theory_text>\<open>src/src/controller.cpp\<close>). Beside this there are the projects of computation modules, described by files, compiled
  and recorded in a database (\<^theory_text>\<open>src/src/cproj_*.cpp\<close>, \<^theory_text>\<open>src/src/cpart.cpp\<close>, \<^theory_text>\<open>src/src/cthread.cpp\<close>), and a newer,
  separate layer of text messages (\<^theory_text>\<open>src/src/communicate\<close>) with its own wrappers of OpenSSL (\<^theory_text>\<open>src/src/utils\<close>).

  \<^bold>\<open>Conventions.\<close> Functions keep the names of the source; a class is a record, a method a function from the object to
  the object. Every failure is a value of \<open>fault\<close> in \<open>Prelude\<close>: exceptions by the type that is thrown, undefined
  behaviour by what was done (a read behind an array, a null pointer, freed memory, a foreign mutex). Integers are
  words of their width where they can wrap, and \<open>int\<close> or \<open>nat\<close> with explicit conversions elsewhere. \<open>None\<close> of a
  \<open>partial_function\<close> is a call that does not return. \<open>CStrings\<close> has the C and C++ functions the code applies to its
  own data, \<open>StdMap\<close> the ordered \<open>std::map\<close>.

  \<^bold>\<open>Messages.\<close> \<open>Message\<close>, \<open>MessageFactory\<close> and \<open>MessageParser\<close>: options as a keyed store (locale \<open>keyed_store\<close>,
  interpreted on the option list), the text format with its checksum, and the byte-driven state machine that finds
  messages in a stream. Proved: encoder and decoder are inverse; the parser returns on every input, does not depend
  on how the stream is cut, delivers a message exactly when its checksum is over the option lines, and therefore
  never one of the encoder, whose checksum is over head and options. \<open>TcpServer\<close>: the threads of the TCP server,
  interleaved step by step, refine a mailbox of whole letters; every connection can end; two ways in which the mutex
  and the destructor go wrong. \<open>Utils\<close>: the SHA-256 generator and signatures, the RSA key chain, the AES encryptor.

  \<^bold>\<open>Cryptography.\<close> \<open>AesCore\<close>, \<open>AesModes\<close>, \<open>AesVectors\<close> for \<^theory_text>\<open>src/src/aes.cpp\<close> with AES-256: the inverse cipher, the
  modes on the caller's buffer over any cipher with an inverse (locale \<open>block_cipher\<close>, interpreted on the model's
  cipher), CTR as a key stream, a test vector of FIPS 197. \<open>Fermat\<close> and \<open>Rsa\<close> for \<^theory_text>\<open>src/src/rsa.cpp\<close>: the round trip for
  keys from small primes, and the overflow with the largest ones of the list. \<open>Sha1\<close>: the context fed byte by byte
  is the iteration over the padded message. \<open>Rng\<close>: the generators do not repeat themselves.

  \<^bold>\<open>Transport.\<close> \<open>Addr\<close>, \<open>RawData\<close> and \<open>NetBoxes\<close>: socket addresses, packets in tagged strings, boxes and the listener
  table. Proved: round trip of packets, reassembly in any order, the table invariant, and the lengths that are lost.
  \<open>Sockets\<close>: what the socket classes make of the answers of the system. \<open>Requests\<close> and \<open>Posts\<close>: requests, responds and
  encrypted posts as blocks of packets, and the round trip of a post under its key.

  \<^bold>\<open>Server and client.\<close> \<open>SquareServer\<close> and \<open>Client\<close>: the processing rounds, registration and login, and the client's
  list of waiting requests with their timeouts; \<open>Clock\<close>: which daemon runs at which tick. \<open>EndToEnd\<close>: a request of the
  client arrives through all the layers, whatever the order of its datagrams, and registration is idempotent.
  \<open>Session\<close>: the service of a registered client over TCP and the connections of its terminal. \<open>Commands\<close>: the
  command line up to the daemon of the client. \<open>Registration\<close>: a registration from the command to the database of
  the client. \<open>Shell\<close>: the shell and its daemon, interleaved over the memory they share, with the runs in which the
  shell is answered and those in which it waits for ever. \<open>Results\<close>: results of computations as packets.

  \<^bold>\<open>Computations.\<close> \<open>BlocksPool\<close>: reference-counted blocks; \<open>CPart\<close> and \<open>CThread\<close>: modules, tasks, and the daemon that
  settles them. \<open>CptFile\<close>: the syntax of description files and the tables read from them; \<open>Project\<close>: a project is
  built without undefined behaviour; \<open>Sql\<close>, \<open>ProjectDb\<close> and \<open>ProjectUpdate\<close>: its database and its update.

  \<^bold>\<open>Bounds.\<close> The loops of the server and the client take at most 2048 elements per round and send at most 512 packets,
  as in the source; \<open>tryConnection\<close> is tried 8 times. These are counters of the code, not fuel. The padding of SHA-1
  has 64 turns of fuel, enough because every turn moves the position in a block of 64 bytes. The parser, the reader
  of files and the loop that makes the private exponent of RSA positive are \<open>partial_function\<close>s: the parser always
  returns, the reader unless the file has exactly 512 bytes, and the loop for the keys that the round trip is about.

  \<^bold>\<open>Parameters.\<close> What is not in the repository is an argument: RapidJSON, SQLite (a function from statement and
  parameters to an answer and a database), OpenSSL with MD5 of requests and SHA-256, \<open>inet_addr\<close>, the file system,
  the compiler and the dynamic linker, the code of user modules, the answers of system calls and of \<open>malloc\<close>, the
  draws of \<open>rand\<close> and of Boost, and the contents of uninitialised memory. Laws they are assumed to satisfy are
  hypotheses of the theorems, with a witness that satisfies them.

  \<^bold>\<open>Not modelled.\<close> Vendored code (\<^theory_text>\<open>src/utils\<close>); printing, except \<open>print_buff\<close>; the setting up and closing of descriptors,
  \<open>fork\<close> and \<open>shmget\<close>, which have no state of the program; functions that only free memory (\<open>freeRawdata\<close>,
  \<open>freePacket\<close>, \<open>freeCPUR\<close>); the classes \<open>CMap\<close>, \<open>TCPSession\<close> and \<open>Connection\<close>, which are declared and empty;
  \<open>OptsProcessor\<close>, which does not compile; the test programs. Interleavings are modelled where threads share state
  without a common daemon loop (\<open>Shell\<close>, \<open>TcpServer\<close>, \<open>CThread\<close>); the daemons of server and client are steps that
  run as a whole, as their mutexes intend, although \<open>serverDeamon\<close> looks a listener up before it takes its mutex.
\<close>

end
